(* ===== verification/Go_Base.thy ===== *)
theory Go_Base
  imports Main "HOL-Library.Word" "HOL-Library.Char_ord" "HOL-Library.List_Lexorder"
begin

text \<open>
  The prelude of the development: what every component uses of the Go language.
  \<^item> A Go \<^verbatim>\<open>string\<close> or \<^verbatim>\<open>[]byte\<close> is a sequence of bytes, a HOL \<^typ>\<open>string\<close> (a \<^typ>\<open>char\<close> has
    eight bits, so no encoding is implied); Go's string order is the lexicographic order of
    the bytes, the order of \<^theory_text>\<open>List_Lexorder\<close> over \<^theory_text>\<open>Char_ord\<close>.
  \<^item> \<^verbatim>\<open>int64\<close> is \<open>64 word\<close>, so that \<^verbatim>\<open>seq++\<close> wraps.
  \<^item> An \<^verbatim>\<open>error\<close> is a value of \<open>go_error\<close>, with the program's own error structs as
    constructors; \<open>Error\<close> is the \<^verbatim>\<open>Error()\<close> method, \<open>errors_Is_NotExist\<close> is
    \<^verbatim>\<open>errors.Is(err, os.ErrNotExist)\<close>. A Go pair \<^verbatim>\<open>(value, error)\<close> is a sum.
  \<^item> \<^verbatim>\<open>fmt\<close>'s verbs \<^verbatim>\<open>%d\<close>, \<^verbatim>\<open>%x\<close> and \<^verbatim>\<open>%q\<close>.
  The generic lemmas on these are collected for the component proofs.
\<close>

type_synonym int64 = "64 word"

named_theorems go_defs "definitions of the standard library that component proofs unfold"
named_theorems codec "round trips of printers and parsers"

section \<open>Bytes\<close>

abbreviation byte :: "char \<Rightarrow> nat" where
  "byte c \<equiv> of_char c"

abbreviation newline :: char where
  "newline \<equiv> CHR 0x0A"

abbreviation dquote :: char where
  "dquote \<equiv> CHR 0x22"

abbreviation backslash :: char where
  "backslash \<equiv> CHR 0x5C"

lemma byte_less_256 [simp]: "byte c < 256"
  using nat_of_char_less_256 [of c] by simp

lemma byte_eq_iff [simp]: "byte c = byte d \<longleftrightarrow> c = d"
  by (rule of_char_eq_iff)

lemma char_of_eq_byte: "char_of n = c \<longleftrightarrow> n mod 256 = byte c" for n :: nat
  by (metis char_of_char of_char_of)

section \<open>Decimal and hexadecimal\<close>

definition digit_char :: "nat \<Rightarrow> char" where
  "digit_char d = char_of (48 + d)"

definition is_digit :: "char \<Rightarrow> bool" where
  "is_digit c \<longleftrightarrow> 48 \<le> byte c \<and> byte c \<le> 57"

definition digit_val :: "char \<Rightarrow> nat" where
  "digit_val c = byte c - 48"

fun dec :: "nat \<Rightarrow> string" where
  "dec n = (if n < 10 then [digit_char n] else dec (n div 10) @ [digit_char (n mod 10)])"

declare dec.simps [simp del]

definition undec :: "string \<Rightarrow> nat" where
  "undec s = fold (\<lambda>c n. 10 * n + digit_val c) s 0"

definition fmt_int :: "int \<Rightarrow> string" where
  "fmt_int i = (if i < 0 then CHR ''-'' # dec (nat (- i)) else dec (nat i))"

text \<open>\<^verbatim>\<open>%d\<close> of an \<^verbatim>\<open>int64\<close>.\<close>

definition fmt_d :: "int64 \<Rightarrow> string" where
  "fmt_d w = fmt_int (sint w)"

definition hex_char :: "nat \<Rightarrow> char" where
  "hex_char d = (if d < 10 then char_of (48 + d) else char_of (87 + d))"

text \<open>\<^verbatim>\<open>%x\<close> of a byte slice, the bytes given as numbers.\<close>

definition fmt_x :: "int list \<Rightarrow> string" where
  "fmt_x bs = concat (map (\<lambda>b. [hex_char (nat (b div 16)), hex_char (nat (b mod 16))]) bs)"

lemma byte_digit_char: "d < 10 \<Longrightarrow> byte (digit_char d) = 48 + d"
  by (simp add: digit_char_def)

lemma digit_val_digit_char [simp]: "d < 10 \<Longrightarrow> digit_val (digit_char d) = d"
  by (simp add: digit_val_def byte_digit_char)

lemma is_digit_digit_char [simp]: "d < 10 \<Longrightarrow> is_digit (digit_char d)"
  by (simp add: is_digit_def byte_digit_char)

lemma undec_snoc: "undec (s @ [c]) = 10 * undec s + digit_val c"
  by (simp add: undec_def)

lemma dec_nonempty [simp]: "dec n \<noteq> []"
  by (subst dec.simps) simp

lemma dec_digits: "c \<in> set (dec n) \<Longrightarrow> is_digit c"
proof (induction n rule: dec.induct)
  case (1 n)
  then show ?case by (cases "n < 10") (auto simp: dec.simps [of n])
qed

lemma undec_dec [simp, codec]: "undec (dec n) = n"
proof (induction n rule: dec.induct)
  case (1 n)
  show ?case
  proof (cases "n < 10")
    case True
    then show ?thesis by (simp add: dec.simps [of n] undec_def)
  next
    case False
    then show ?thesis using 1 by (simp add: dec.simps [of n] undec_snoc)
  qed
qed

lemma dec_inject [simp]: "dec m = dec n \<longleftrightarrow> m = n"
  by (metis undec_dec)

lemma dec_hd_nonzero: "0 < n \<Longrightarrow> hd (dec n) \<noteq> CHR ''0''"
proof (induction n rule: dec.induct)
  case (1 n)
  show ?case
  proof (cases "n < 10")
    case True
    with 1 have "byte (hd (dec n)) \<noteq> 48"
      by (simp add: dec.simps [of n] byte_digit_char)
    then show ?thesis by auto
  next
    case False
    then show ?thesis using 1 by (simp add: dec.simps [of n])
  qed
qed

lemma minus_not_in_dec: "CHR ''-'' \<notin> set (dec n)"
  using dec_digits [of "CHR ''-''" n] by (auto simp: is_digit_def)

lemma fmt_int_inject [simp]: "fmt_int i = fmt_int j \<longleftrightarrow> i = j"
proof -
  have "CHR ''-'' # dec m \<noteq> dec n" for m n
    using minus_not_in_dec [of n] by (metis list.set_intros(1))
  then show ?thesis by (auto simp: fmt_int_def dest: sym)
qed

lemma fmt_d_inject [simp]: "fmt_d v = fmt_d w \<longleftrightarrow> v = w"
  by (auto simp: fmt_d_def intro: signed_word_eqI)

lemma newline_not_in_fmt_d: "newline \<notin> set (fmt_d w)"
  using dec_digits [of newline] by (auto simp: fmt_d_def fmt_int_def is_digit_def)

lemma hex_char_not_newline: "d < 16 \<Longrightarrow> hex_char d \<noteq> newline"
proof
  assume "d < 16" and "hex_char d = newline"
  then have "byte (hex_char d) = 10" by simp
  with \<open>d < 16\<close> show False by (simp add: hex_char_def split: if_splits)
qed

lemma hex_char_inject: "c < 16 \<Longrightarrow> d < 16 \<Longrightarrow> hex_char c = hex_char d \<Longrightarrow> c = d"
  by (drule arg_cong [of _ _ "of_char :: char \<Rightarrow> nat"]) (simp add: hex_char_def split: if_splits)

lemma fmt_x_inject:
  "length bs = length cs \<Longrightarrow> \<forall>b\<in>set bs. 0 \<le> b \<and> b < 256 \<Longrightarrow> \<forall>c\<in>set cs. 0 \<le> c \<and> c < 256 \<Longrightarrow>
   fmt_x bs = fmt_x cs \<Longrightarrow> bs = cs"
proof (induction bs cs rule: list_induct2)
  case (Cons b bs c cs)
  have "nat (b div 16) = nat (c div 16)" "nat (b mod 16) = nat (c mod 16)"
    using Cons.prems by (auto simp: fmt_x_def nat_less_iff intro: hex_char_inject)
  then have "b div 16 = c div 16" "b mod 16 = c mod 16"
    using Cons.prems by (auto simp: eq_nat_nat_iff pos_imp_zdiv_nonneg_iff)
  then have "b = c" by (metis div_mult_mod_eq)
  with Cons show ?case by (simp add: fmt_x_def)
qed simp

section \<open>Splitting at a separator\<close>

lemma split_first_eq:
  "n \<notin> set xs \<Longrightarrow> n \<notin> set ys \<Longrightarrow> xs @ n # p = ys @ n # q \<longleftrightarrow> xs = ys \<and> p = q"
proof (induction xs arbitrary: ys)
  case Nil
  then show ?case by (cases ys) auto
next
  case (Cons x xs)
  then show ?case by (cases ys) auto
qed

lemma split_last_eq:
  assumes "n \<notin> set p" and "n \<notin> set q" and "xs @ n # p = ys @ n # q"
  shows "p = q"
proof -
  have "rev p @ n # rev xs = rev q @ n # rev ys" using assms(3) by (metis append.assoc append_Cons append_Nil rev.simps(2) rev_append)
  then show ?thesis using split_first_eq [of n "rev p" "rev q"] assms(1,2) by simp
qed

section \<open>Quoting\<close>

text \<open>
  \<^verbatim>\<open>%q\<close> (\<^verbatim>\<open>strconv.Quote\<close>) over bytes: the printable ASCII characters and the bytes of
  multi-byte runes stand for themselves, the rest is escaped.
\<close>

definition quote_char :: "char \<Rightarrow> string" where
  "quote_char c =
     (if c = dquote then [backslash, dquote]
      else if c = backslash then [backslash, backslash]
      else if c = CHR 0x07 then [backslash, CHR ''a'']
      else if c = CHR 0x08 then [backslash, CHR ''b'']
      else if c = CHR 0x0C then [backslash, CHR ''f'']
      else if c = newline then [backslash, CHR ''n'']
      else if c = CHR 0x0D then [backslash, CHR ''r'']
      else if c = CHR 0x09 then [backslash, CHR ''t'']
      else if c = CHR 0x0B then [backslash, CHR ''v'']
      else if byte c < 32 \<or> byte c = 127
        then [backslash, CHR ''x'', hex_char (byte c div 16), hex_char (byte c mod 16)]
      else [c])"

definition fmt_q :: "string \<Rightarrow> string" where
  "fmt_q s = dquote # concat (map quote_char s) @ [dquote]"

section \<open>Errors\<close>

text \<open>
  The text of an operating system error comes with the error; \<^verbatim>\<open>ENOENT\<close> is told apart
  because the program tests for it.
\<close>

datatype errno = ENOENT | Errno string

fun errno_text :: "errno \<Rightarrow> string" where
  "errno_text ENOENT = ''no such file or directory''"
| "errno_text (Errno e) = e"

text \<open>
  Every error value the program builds or receives: \<^verbatim>\<open>errors.New\<close> and \<^verbatim>\<open>fmt.Errorf\<close> without
  \<^verbatim>\<open>%w\<close> (\<open>ErrorString\<close>), \<^verbatim>\<open>fmt.Errorf\<close> with \<^verbatim>\<open>%w\<close> (\<open>WrapError\<close>: text before, wrapped error, text
  after), \<^verbatim>\<open>*fs.PathError\<close>, an error of \<^verbatim>\<open>encoding/json\<close>, and the program's own structs.
\<close>

datatype go_error =
    ErrorString string
  | WrapError string go_error string
  | PathError string string errno
  | JsonError
  | ErrTampered (EventSeq: int64) (Reason: string)
  | ErrInvalidTransition (From: string) (To: string)
  | ErrDenied (DeniedVerb: string) (DeniedReason: string)
  | ErrDenylisted (DeniedPath: string) (DeniedPattern: string)

definition ErrTampered_Error :: "int64 \<Rightarrow> string \<Rightarrow> string" where
  "ErrTampered_Error eventSeq reason =
     ''audit chain tampered at seq='' @ fmt_d eventSeq @ '': '' @ reason"

definition ErrInvalidTransition_Error :: "string \<Rightarrow> string \<Rightarrow> string" where
  "ErrInvalidTransition_Error from to =
     ''invalid posture transition: '' @ from @ '' '' @ [CHR 0xE2, CHR 0x86, CHR 0x92] @ '' '' @ to"

definition ErrDenied_Error :: "string \<Rightarrow> string \<Rightarrow> string" where
  "ErrDenied_Error v reasonCode = ''verb '' @ v @ '' denied: '' @ reasonCode"

definition ErrDenylisted_Error :: "string \<Rightarrow> string \<Rightarrow> string" where
  "ErrDenylisted_Error path pattern =
     ''fsacl: path '' @ fmt_q path @ '' matches standing denylist pattern '' @ fmt_q pattern @
     '' -- refused''"

fun Error :: "go_error \<Rightarrow> string" where
  "Error (ErrorString t) = t"
| "Error (WrapError pre e post) = pre @ Error e @ post"
| "Error (PathError opn path en) = opn @ '' '' @ path @ '': '' @ errno_text en"
| "Error JsonError = ''json: cannot decode or encode value''"
| "Error (ErrTampered n r) = ErrTampered_Error n r"
| "Error (ErrInvalidTransition f t) = ErrInvalidTransition_Error f t"
| "Error (ErrDenied v r) = ErrDenied_Error v r"
| "Error (ErrDenylisted p q) = ErrDenylisted_Error p q"

text \<open>\<^verbatim>\<open>errors.Is(err, os.ErrNotExist)\<close>: the chain of wrapped errors is searched.\<close>

fun errors_Is_NotExist :: "go_error \<Rightarrow> bool" where
  "errors_Is_NotExist (PathError opn path en) \<longleftrightarrow> en = ENOENT"
| "errors_Is_NotExist (WrapError pre e post) \<longleftrightarrow> errors_Is_NotExist e"
| "errors_Is_NotExist _ \<longleftrightarrow> False"

end
