(* ===== verification/Go_Utf8.thy ===== *)
theory Go_Utf8
  imports Go_Base
begin

text \<open>
  Strings in \<^verbatim>\<open>encoding/json\<close> (Go 1.22): UTF-8 decoding as \<^verbatim>\<open>unicode/utf8\<close> does it, the
  escaping of \<^verbatim>\<open>json.Marshal\<close> (HTML characters included), the scanner of a string literal and
  the unquoting of the decoder. A string literal is handled as its raw body, the bytes
  between the quotes. The main fact is \<open>unquote_json_quote\<close>: what is read back from a quoted
  string is the string itself with every byte that is not part of a valid rune replaced by
  the three bytes of U+FFFD; so exactly the valid UTF-8 strings survive the round trip
  (\<open>unquote_json_quote_iff\<close>).
\<close>

section \<open>Runes\<close>

definition cont_byte :: "char \<Rightarrow> bool" where
  "cont_byte c \<longleftrightarrow> 128 \<le> byte c \<and> byte c \<le> 191"

text \<open>
  The table of first bytes: how many bytes the rune takes (0: no rune starts so) and the range
  of its second byte.
\<close>

definition rune_size :: "char \<Rightarrow> nat" where
  "rune_size a =
     (if byte a < 128 then 1
      else if byte a < 194 then 0
      else if byte a < 224 then 2
      else if byte a < 240 then 3
      else if byte a < 245 then 4
      else 0)"

definition accept_second :: "char \<Rightarrow> char \<Rightarrow> bool" where
  "accept_second a b \<longleftrightarrow>
     (if byte a = 224 then 160 else if byte a = 240 then 144 else 128) \<le> byte b \<and>
     byte b \<le> (if byte a = 237 then 159 else if byte a = 244 then 143 else 191)"

text \<open>
  The number of bytes of the valid encoding a string starts with; 0 when it starts with none
  (Go: \<^verbatim>\<open>RuneError\<close> with size 1).
\<close>

fun rune_len :: "string \<Rightarrow> nat" where
  "rune_len [] = 0"
| "rune_len (a # s) =
     (let n = rune_size a in
      if n \<le> 1 then n
      else if n - 1 \<le> length s \<and> accept_second a (s ! 0) \<and>
              (\<forall>c\<in>set (take (n - 2) (tl s)). cont_byte c)
      then n else 0)"

lemma rune_len_le_length: "rune_len s \<le> length s"
  by (cases s) (auto simp: Let_def)

lemma rune_len_append: "0 < rune_len s \<Longrightarrow> rune_len (s @ t) = rune_len s"
proof (cases s)
  case (Cons a s')
  assume pos: "0 < rune_len s"
  show ?thesis
  proof (cases "rune_size a \<le> 1")
    case False
    with pos Cons have len: "rune_size a - 1 \<le> length s'" by (auto simp: Let_def split: if_splits)
    with False have "s' \<noteq> []" by auto
    then have "take (rune_size a - 2) (tl (s' @ t)) = take (rune_size a - 2) (tl s')"
      and "(s' @ t) ! 0 = s' ! 0"
      using len by (auto simp: nth_append)
    with Cons len show ?thesis by (simp add: Let_def)
  qed (simp add: Cons)
qed simp

lemma rune_len_take: "0 < rune_len s \<Longrightarrow> rune_len (take (rune_len s) s) = rune_len s"
proof (cases s)
  case (Cons a s')
  assume pos: "0 < rune_len s"
  show ?thesis
  proof (cases "rune_size a \<le> 1")
    case True
    with pos Cons show ?thesis by (simp add: Let_def take_Cons')
  next
    case False
    with pos Cons have len: "rune_size a - 1 \<le> length s'" and n: "rune_len s = rune_size a"
      by (auto simp: Let_def split: if_splits)
    from False obtain k where k: "rune_size a = Suc (Suc k)" by (auto simp: not_le dest: Suc_le_D less_imp_Suc_add)
    from len k obtain b u where s': "s' = b # u" by (cases s') auto
    show ?thesis using pos len n by (auto simp: Cons s' k Let_def split: if_splits)
  qed
qed simp

lemma rune_len_zero_high: "rune_len (c # s) = 0 \<Longrightarrow> 128 \<le> byte c"
  by (rule ccontr) (simp add: rune_size_def)

lemma rune_len_singleton: "rune_len [c] = (if byte c < 128 then 1 else 0)"
  by (auto simp: rune_size_def)

text \<open>A string cut into its runes, every byte that starts none on its own.\<close>

function runes :: "string \<Rightarrow> string list" where
  "runes [] = []"
| "runes (c # s) =
     (if rune_len (c # s) = 0 then [c] # runes s
      else take (rune_len (c # s)) (c # s) # runes (drop (rune_len (c # s)) (c # s)))"
  by pat_completeness auto
termination
  by (relation "measure length") (auto simp del: rune_len.simps)

declare runes.simps(2) [simp del] rune_len.simps(2) [simp del]

definition valid_rune :: "string \<Rightarrow> bool" where
  "valid_rune r \<longleftrightarrow> r \<noteq> [] \<and> rune_len r = length r"

definition stray_byte :: "string \<Rightarrow> bool" where
  "stray_byte r \<longleftrightarrow> length r = 1 \<and> rune_len r = 0"

definition valid_utf8 :: "string \<Rightarrow> bool" where
  "valid_utf8 s \<longleftrightarrow> list_all valid_rune (runes s)"

lemma concat_runes: "concat (runes s) = s"
proof (induction s rule: runes.induct)
  case 1
  then show ?case by simp
next
  case (2 c s)
  then show ?case by (simp add: runes.simps(2))
qed

lemma runes_cases: "r \<in> set (runes s) \<Longrightarrow> valid_rune r \<or> stray_byte r"
proof (induction s rule: runes.induct)
  case 1
  then show ?case by simp
next
  case (2 c s)
  show ?case
  proof (cases "rune_len (c # s) = 0")
    case True
    then have "stray_byte [c]"
      using rune_len_zero_high [OF True] by (simp add: stray_byte_def rune_len_singleton)
    then show ?thesis using 2 True by (auto simp: runes.simps(2))
  next
    case False
    let ?r = "take (rune_len (c # s)) (c # s)"
    from False have "valid_rune ?r"
      using rune_len_take [of "c # s"] rune_len_le_length [of "c # s"]
      by (auto simp: valid_rune_def simp del: take_Suc_Cons)
    then show ?thesis using 2 False by (auto simp: runes.simps(2))
  qed
qed

text \<open>Appending a valid rune in front cuts it off again.\<close>

lemma runes_append_valid: "valid_rune r \<Longrightarrow> runes (r @ s) = r # runes s"
proof -
  assume r: "valid_rune r"
  then obtain c r' where r': "r = c # r'" by (cases r) (auto simp: valid_rune_def)
  have "rune_len (r @ s) = length r"
    using r rune_len_append [of r s] by (auto simp: valid_rune_def)
  then show ?thesis by (simp add: r' runes.simps(2))
qed

lemma runes_concat: "list_all valid_rune rs \<Longrightarrow> runes (concat rs) = rs"
  by (induction rs) (auto simp: runes_append_valid)

lemma valid_utf8_append: "valid_utf8 s \<Longrightarrow> valid_utf8 t \<Longrightarrow> valid_utf8 (s @ t)"
proof -
  assume a: "valid_utf8 s" "valid_utf8 t"
  have "runes (concat (runes s @ runes t)) = runes s @ runes t"
    by (rule runes_concat) (use a in \<open>simp add: valid_utf8_def\<close>)
  then have "runes (s @ t) = runes s @ runes t" by (simp add: concat_runes)
  then show ?thesis using a by (simp add: valid_utf8_def)
qed

lemma runes_ascii: "\<forall>c\<in>set s. byte c < 128 \<Longrightarrow> runes s = map (\<lambda>c. [c]) s"
  by (induction s) (auto simp: runes.simps(2) rune_len.simps(2) rune_size_def)

lemma valid_utf8_ascii: "\<forall>c\<in>set s. byte c < 128 \<Longrightarrow> valid_utf8 s"
  by (auto simp: valid_utf8_def runes_ascii list_all_iff valid_rune_def rune_len_singleton)

section \<open>Escaping\<close>

definition utf8_error :: string where
  "utf8_error = [CHR 0xEF, CHR 0xBF, CHR 0xBD]"

definition u_escape :: "nat \<Rightarrow> string" where
  "u_escape n = [backslash, CHR ''u'', hex_char (n div 4096), hex_char (n div 256 mod 16),
     hex_char (n div 16 mod 16), hex_char (n mod 16)]"

text \<open>
  \<^verbatim>\<open>json.Marshal\<close> of one ASCII byte: the short escapes, \<^verbatim>\<open>\u00xx\<close> for the other control bytes and
  for the HTML characters, else the byte itself.
\<close>

definition quote_ascii :: "char \<Rightarrow> string" where
  "quote_ascii c =
     (if c = dquote \<or> c = backslash then [backslash, c]
      else if c = CHR 0x08 then [backslash, CHR ''b'']
      else if c = CHR 0x0C then [backslash, CHR ''f'']
      else if c = CHR 0x0A then [backslash, CHR ''n'']
      else if c = CHR 0x0D then [backslash, CHR ''r'']
      else if c = CHR 0x09 then [backslash, CHR ''t'']
      else if byte c < 32 \<or> c = CHR ''<'' \<or> c = CHR ''>'' \<or> c = CHR ''&'' then u_escape (byte c)
      else [c])"

definition quote_rune :: "string \<Rightarrow> string" where
  "quote_rune r =
     (if rune_len r = 0 then u_escape 0xFFFD
      else if length r = 1 then quote_ascii (hd r)
      else if r = [CHR 0xE2, CHR 0x80, CHR 0xA8] then u_escape 0x2028
      else if r = [CHR 0xE2, CHR 0x80, CHR 0xA9] then u_escape 0x2029
      else r)"

definition json_quote :: "string \<Rightarrow> string" where
  "json_quote s = concat (map quote_rune (runes s))"

section \<open>Unquoting\<close>

definition is_hex :: "char \<Rightarrow> bool" where
  "is_hex c \<longleftrightarrow> is_digit c \<or> (65 \<le> byte c \<and> byte c \<le> 70) \<or> (97 \<le> byte c \<and> byte c \<le> 102)"

definition hex_val :: "char \<Rightarrow> nat" where
  "hex_val c = (if is_digit c then byte c - 48 else if 97 \<le> byte c then byte c - 87 else byte c - 55)"

definition hex4 :: "char \<Rightarrow> char \<Rightarrow> char \<Rightarrow> char \<Rightarrow> nat" where
  "hex4 a b c d = ((hex_val a * 16 + hex_val b) * 16 + hex_val c) * 16 + hex_val d"

text \<open>\<^verbatim>\<open>utf8.EncodeRune\<close>.\<close>

definition encode_rune :: "nat \<Rightarrow> string" where
  "encode_rune n =
     (if n < 0x80 then [char_of n]
      else if n < 0x800 then [char_of (0xC0 + n div 64), char_of (0x80 + n mod 64)]
      else if 0xD800 \<le> n \<and> n \<le> 0xDFFF \<or> 0x10FFFF < n then utf8_error
      else if n < 0x10000
        then [char_of (0xE0 + n div 4096), char_of (0x80 + n div 64 mod 64), char_of (0x80 + n mod 64)]
      else [char_of (0xF0 + n div 262144), char_of (0x80 + n div 4096 mod 64),
            char_of (0x80 + n div 64 mod 64), char_of (0x80 + n mod 64)])"

definition simple_escape :: "char \<Rightarrow> char" where
  "simple_escape e =
     (if e = CHR ''b'' then CHR 0x08
      else if e = CHR ''f'' then CHR 0x0C
      else if e = CHR ''n'' then CHR 0x0A
      else if e = CHR ''r'' then CHR 0x0D
      else if e = CHR ''t'' then CHR 0x09
      else e)"

text \<open>
  The decoder's \<^verbatim>\<open>unquote\<close> of a raw body that the scanner has accepted: escapes, surrogate pairs
  of \<^verbatim>\<open>\u\<close> escapes, and U+FFFD for what is no valid rune.
\<close>

function unquote :: "string \<Rightarrow> string" where
  "unquote [] = []"
| "unquote (c # s) =
     (if c = backslash then
        (case s of [] \<Rightarrow> []
         | e # s1 \<Rightarrow>
           if e = CHR ''u'' then
             (if length s1 < 4 then []
              else let rr = hex4 (s1 ! 0) (s1 ! 1) (s1 ! 2) (s1 ! 3); s2 = drop 4 s1 in
                if 0xD800 \<le> rr \<and> rr \<le> 0xDFFF then
                  (let rr1 = hex4 (s2 ! 2) (s2 ! 3) (s2 ! 4) (s2 ! 5) in
                   if 6 \<le> length s2 \<and> s2 ! 0 = backslash \<and> s2 ! 1 = CHR ''u''
                      \<and> rr < 0xDC00 \<and> 0xDC00 \<le> rr1 \<and> rr1 \<le> 0xDFFF
                   then encode_rune (0x10000 + (rr - 0xD800) * 1024 + (rr1 - 0xDC00)) @
                        unquote (drop 6 s2)
                   else utf8_error @ unquote s2)
                else encode_rune rr @ unquote s2)
           else simple_escape e # unquote s1)
      else if byte c < 128 then c # unquote s
      else if rune_len (c # s) = 0 then utf8_error @ unquote s
      else take (rune_len (c # s)) (c # s) @ unquote (drop (rune_len (c # s)) (c # s)))"
  by pat_completeness auto
termination
  by (relation "measure length") auto

declare unquote.simps(2) [simp del]

text \<open>
  The scanner of a string literal, from after the opening quote: the raw body and what
  follows the closing quote, \<open>None\<close> for a syntax error or a missing quote.
\<close>

fun scan_str :: "string \<Rightarrow> (string \<times> string) option" where
  "scan_str [] = None"
| "scan_str (c # s) =
     (if c = dquote then Some ([], s)
      else if c = backslash then
        (case s of [] \<Rightarrow> None
         | e # s1 \<Rightarrow>
           if e \<in> set [dquote, backslash, CHR ''/'', CHR ''b'', CHR ''f'', CHR ''n'', CHR ''r'', CHR ''t'']
           then map_option (\<lambda>(p, r). (c # e # p, r)) (scan_str s1)
           else if e = CHR ''u'' then
             (case s1 of h1 # h2 # h3 # h4 # s2 \<Rightarrow>
                if is_hex h1 \<and> is_hex h2 \<and> is_hex h3 \<and> is_hex h4
                then map_option (\<lambda>(p, r). (c # e # h1 # h2 # h3 # h4 # p, r)) (scan_str s2)
                else None
              | _ \<Rightarrow> None)
           else None)
      else if byte c < 32 then None
      else map_option (\<lambda>(p, r). (c # p, r)) (scan_str s))"

declare scan_str.simps(2) [simp del]

text \<open>The body and the rest are what was scanned, and more text behind changes nothing.\<close>

lemma scan_str_split_append:
  "scan_str s = Some (p, r) \<Longrightarrow> s = p @ dquote # r \<and> scan_str (s @ t) = Some (p, r @ t)"
proof (induction s arbitrary: p r rule: scan_str.induct)
  case 1
  then show ?case by simp
next
  case (2 c s)
  show ?case
  proof (cases "c = dquote")
    case True
    with "2.prems" show ?thesis by (simp add: scan_str.simps(2))
  next
    case nq: False
    show ?thesis
    proof (cases "c = backslash")
      case False
      with nq "2.prems" obtain p' where "\<not> byte c < 32" "scan_str s = Some (p', r)" "p = c # p'"
        by (auto simp: scan_str.simps(2) split: if_splits)
      with 2(3) [OF nq False] nq False show ?thesis by (auto simp: scan_str.simps(2))
    next
      case True
      with "2.prems" obtain e s1 where s: "s = e # s1"
        by (cases s) (auto simp: scan_str.simps(2))
      show ?thesis
      proof (cases "e = CHR ''u''")
        case u: True
        with True s "2.prems" obtain h1 h2 h3 h4 s2 p' where
          h: "s1 = h1 # h2 # h3 # h4 # s2" "is_hex h1" "is_hex h2" "is_hex h3" "is_hex h4"
             "scan_str s2 = Some (p', r)" "p = c # e # h1 # h2 # h3 # h4 # p'"
          by (auto simp: scan_str.simps(2) split: list.splits if_splits)
        with 2(2) [OF nq True s _ u h(1)] u True s show ?thesis
          by (simp add: scan_str.simps(2))
      next
        case False
        let ?esc = "set [dquote, backslash, CHR ''/'', CHR ''b'', CHR ''f'', CHR ''n'', CHR ''r'', CHR ''t'']"
        have e: "e \<in> ?esc"
        proof (rule ccontr)
          assume "e \<notin> ?esc"
          with False True s "2.prems" show False by (simp add: scan_str.simps(2))
        qed
        with True s "2.prems" obtain p' where h: "scan_str s1 = Some (p', r)" "p = c # e # p'"
          by (auto simp: scan_str.simps(2))
        with 2(1) [OF nq True s e h(1)] e True s show ?thesis
          by (auto simp: scan_str.simps(2))
      qed
    qed
  qed
qed

lemma scan_str_split: "scan_str s = Some (p, r) \<Longrightarrow> s = p @ dquote # r"
  by (simp add: scan_str_split_append)

lemma scan_str_append: "scan_str s = Some (p, r) \<Longrightarrow> scan_str (s @ t) = Some (p, r @ t)"
  by (simp add: scan_str_split_append)

section \<open>The round trip of a string literal\<close>

lemma byte_hex_char: "d < 16 \<Longrightarrow> byte (hex_char d) = (if d < 10 then 48 + d else 87 + d)"
  by (simp add: hex_char_def)

lemma is_hex_hex_char [simp]: "d < 16 \<Longrightarrow> is_hex (hex_char d)"
  by (auto simp: is_hex_def is_digit_def byte_hex_char)

lemma hex_val_hex_char [simp]: "d < 16 \<Longrightarrow> hex_val (hex_char d) = d"
  by (auto simp: hex_val_def is_digit_def byte_hex_char)

lemma hex4_digits:
  "n < 65536 \<Longrightarrow>
   hex4 (hex_char (n div 4096)) (hex_char (n div 256 mod 16)) (hex_char (n div 16 mod 16))
     (hex_char (n mod 16)) = n"
proof -
  assume "n < 65536"
  then have "hex4 (hex_char (n div 4096)) (hex_char (n div 256 mod 16))
      (hex_char (n div 16 mod 16)) (hex_char (n mod 16)) =
      ((n div 4096 * 16 + n div 256 mod 16) * 16 + n div 16 mod 16) * 16 + n mod 16"
    by (simp add: hex4_def)
  also have "n div 4096 * 16 + n div 256 mod 16 = n div 256"
    using div_mult_mod_eq [of "n div 256" 16] by (simp flip: div_mult2_eq)
  also have "n div 256 * 16 + n div 16 mod 16 = n div 16"
    using div_mult_mod_eq [of "n div 16" 16] by (simp flip: div_mult2_eq)
  finally show ?thesis by simp
qed

lemma unquote_u_escape:
  "n < 65536 \<Longrightarrow> n < 0xD800 \<or> 0xDFFF < n \<Longrightarrow>
   unquote (u_escape n @ t) = encode_rune n @ unquote t"
  by (elim disjE) (simp_all add: u_escape_def unquote.simps(2) hex4_digits Let_def)

lemma scan_str_u_escape:
  "n < 65536 \<Longrightarrow>
   scan_str (u_escape n @ t) = map_option (\<lambda>(p, r). (u_escape n @ p, r)) (scan_str t)"
  by (simp add: u_escape_def scan_str.simps(2))

definition fix_rune :: "string \<Rightarrow> string" where
  "fix_rune r = (if rune_len r = 0 then utf8_error else r)"

definition to_valid_utf8 :: "string \<Rightarrow> string" where
  "to_valid_utf8 s = concat (map fix_rune (runes s))"

lemma encode_rune_ascii: "byte c < 128 \<Longrightarrow> encode_rune (byte c) = [c]"
  by (simp add: encode_rune_def)

lemma unquote_quote_ascii:
  assumes "byte c < 128"
  shows "unquote (quote_ascii c @ t) = c # unquote t"
proof -
  have "unquote (u_escape (byte c) @ t) = c # unquote t"
    using assms by (simp add: unquote_u_escape encode_rune_ascii)
  then show ?thesis
    using assms by (auto simp: quote_ascii_def unquote.simps(2) simple_escape_def)
qed

lemma scan_str_quote_ascii:
  "byte c < 128 \<Longrightarrow>
   scan_str (quote_ascii c @ t) = map_option (\<lambda>(p, r). (quote_ascii c @ p, r)) (scan_str t)"
proof -
  assume "byte c < 128"
  then have "scan_str (u_escape (byte c) @ t) =
      map_option (\<lambda>(p, r). (u_escape (byte c) @ p, r)) (scan_str t)"
    by (simp add: scan_str_u_escape)
  then show ?thesis
    by (simp add: quote_ascii_def scan_str.simps(2))
qed

lemma rune_hd_high:
  assumes "valid_rune r" and "length r \<noteq> 1"
  obtains c r' where "r = c # r'" "128 \<le> byte c"
proof -
  from assms obtain c r' where r: "r = c # r'" by (cases r) (auto simp: valid_rune_def)
  have "128 \<le> byte c"
  proof (rule ccontr)
    assume "\<not> 128 \<le> byte c"
    then have "rune_len r = 1" by (simp add: r rune_len.simps(2) rune_size_def)
    with assms show False by (simp add: valid_rune_def)
  qed
  with r show ?thesis by (rule that)
qed

lemma unquote_valid_rune:
  assumes "valid_rune r" and "length r \<noteq> 1"
  shows "unquote (r @ t) = r @ unquote t"
proof -
  from assms obtain c r' where r: "r = c # r'" "128 \<le> byte c" by (rule rune_hd_high)
  have "rune_len (r @ t) = length r"
    using assms rune_len_append [of r t] by (auto simp: valid_rune_def)
  moreover have "c \<noteq> backslash" using r(2) by auto
  ultimately show ?thesis using r by (simp add: unquote.simps(2))
qed

lemma scan_str_plain:
  "\<forall>c\<in>set r. 128 \<le> byte c \<Longrightarrow>
   scan_str (r @ t) = map_option (\<lambda>(p, q). (r @ p, q)) (scan_str t)"
proof (induction r)
  case Nil
  then show ?case by (cases "scan_str t") auto
next
  case (Cons c r)
  then have "c \<noteq> dquote" "c \<noteq> backslash" "\<not> byte c < 32" by auto
  then show ?case using Cons by (cases "scan_str t") (auto simp: scan_str.simps(2))
qed

lemma valid_rune_high_bytes:
  assumes "valid_rune r" and "length r \<noteq> 1"
  shows "\<forall>c\<in>set r. 128 \<le> byte c"
proof -
  from assms obtain a r' where r: "r = a # r'" "128 \<le> byte a" by (rule rune_hd_high)
  then have size: "rune_size a \<noteq> 1" by (simp add: rune_size_def)
  have len: "rune_len r = length r" using assms by (simp add: valid_rune_def)
  with r size assms have n: "rune_size a = length r"
    by (auto simp: rune_len.simps(2) Let_def split: if_splits)
  with size r obtain b u where r': "r' = b # u" by (cases r') auto
  have "accept_second a b" "\<forall>c\<in>set u. cont_byte c"
    using len n by (auto simp: r r' rune_len.simps(2) Let_def split: if_splits)
  then show ?thesis
    using r(2) by (auto simp: r r' accept_second_def cont_byte_def split: if_splits)
qed

lemma unquote_quote_rune:
  assumes "valid_rune r \<or> stray_byte r"
  shows "unquote (quote_rune r @ t) = fix_rune r @ unquote t"
proof (cases "rune_len r = 0")
  case True
  have "encode_rune 0xFFFD = utf8_error"
    by (simp add: encode_rune_def utf8_error_def char_of_eq_byte)
  with True show ?thesis by (simp add: quote_rune_def fix_rune_def unquote_u_escape)
next
  case False
  with assms have v: "valid_rune r" by (auto simp: stray_byte_def)
  show ?thesis
  proof (cases "length r = 1")
    case True
    then obtain c where r: "r = [c]" by (auto simp: length_Suc_conv)
    with False have "byte c < 128" by (simp add: rune_len_singleton split: if_splits)
    with r False show ?thesis by (simp add: quote_rune_def fix_rune_def unquote_quote_ascii)
  next
    case long: False
    have "encode_rune 0x2028 = [CHR 0xE2, CHR 0x80, CHR 0xA8]"
      and "encode_rune 0x2029 = [CHR 0xE2, CHR 0x80, CHR 0xA9]"
      by (simp_all add: encode_rune_def char_of_eq_byte)
    then show ?thesis
      using False long unquote_valid_rune [OF v long]
      by (auto simp: quote_rune_def fix_rune_def unquote_u_escape)
  qed
qed

lemma scan_str_quote_rune:
  assumes "valid_rune r \<or> stray_byte r"
  shows "scan_str (quote_rune r @ t) = map_option (\<lambda>(p, q). (quote_rune r @ p, q)) (scan_str t)"
proof (cases "rune_len r = 0")
  case False
  with assms have v: "valid_rune r" by (auto simp: stray_byte_def)
  show ?thesis
  proof (cases "length r = 1")
    case True
    then obtain c where r: "r = [c]" by (auto simp: length_Suc_conv)
    with False have "byte c < 128" by (simp add: rune_len_singleton split: if_splits)
    with r False show ?thesis by (simp add: quote_rune_def scan_str_quote_ascii)
  next
    case long: False
    show ?thesis
      using False long scan_str_plain [OF valid_rune_high_bytes [OF v long]]
      by (simp add: quote_rune_def scan_str_u_escape)
  qed
qed (simp add: quote_rune_def scan_str_u_escape)

lemma unquote_concat_quote:
  "\<forall>r\<in>set rs. valid_rune r \<or> stray_byte r \<Longrightarrow>
   unquote (concat (map quote_rune rs)) = concat (map fix_rune rs)"
  by (induction rs) (simp_all add: unquote_quote_rune)

lemma scan_str_concat_quote:
  "\<forall>r\<in>set rs. valid_rune r \<or> stray_byte r \<Longrightarrow>
   scan_str (concat (map quote_rune rs) @ dquote # t) = Some (concat (map quote_rune rs), t)"
  by (induction rs) (simp_all add: scan_str_quote_rune scan_str.simps(2))

theorem unquote_json_quote: "unquote (json_quote s) = to_valid_utf8 s"
  unfolding json_quote_def to_valid_utf8_def
  using runes_cases by (intro unquote_concat_quote) blast

theorem scan_str_json_quote [simp, codec]:
  "scan_str (json_quote s @ dquote # t) = Some (json_quote s, t)"
  unfolding json_quote_def using runes_cases by (intro scan_str_concat_quote) blast

lemma to_valid_utf8_valid [simp]: "valid_utf8 s \<Longrightarrow> to_valid_utf8 s = s"
proof -
  assume "valid_utf8 s"
  then have "map fix_rune (runes s) = runes s"
    by (intro map_idI) (auto simp: valid_utf8_def list_all_iff fix_rune_def valid_rune_def)
  then show ?thesis by (simp add: to_valid_utf8_def concat_runes)
qed

lemma unquote_json_quote_valid [simp, codec]: "valid_utf8 s \<Longrightarrow> unquote (json_quote s) = s"
  by (simp add: unquote_json_quote)

text \<open>No other string survives: an invalid byte grows to three.\<close>

lemma length_fix_rune: "valid_rune r \<or> stray_byte r \<Longrightarrow> length r \<le> length (fix_rune r)"
  by (auto simp: fix_rune_def stray_byte_def valid_rune_def utf8_error_def)

lemma length_fix_runes:
  "\<forall>r\<in>set rs. valid_rune r \<or> stray_byte r \<Longrightarrow>
   length (concat rs) \<le> length (concat (map fix_rune rs)) \<and>
   (length (concat (map fix_rune rs)) = length (concat rs) \<longrightarrow> list_all valid_rune rs)"
proof (induction rs)
  case (Cons r rs)
  then have "length r \<le> length (fix_rune r)" by (simp add: length_fix_rune)
  moreover have "valid_rune r" if "length (fix_rune r) = length r"
    using that Cons.prems by (auto simp: fix_rune_def stray_byte_def utf8_error_def split: if_splits)
  ultimately show ?case using Cons by auto
qed simp

theorem unquote_json_quote_iff: "unquote (json_quote s) = s \<longleftrightarrow> valid_utf8 s"
proof
  assume "unquote (json_quote s) = s"
  then have "length (concat (map fix_rune (runes s))) = length (concat (runes s))"
    by (simp add: unquote_json_quote to_valid_utf8_def concat_runes)
  then show "valid_utf8 s"
    using length_fix_runes [of "runes s"] runes_cases by (auto simp: valid_utf8_def)
qed simp

section \<open>Quoted text\<close>

lemma valid_utf8_concat: "\<forall>t\<in>set ts. valid_utf8 t \<Longrightarrow> valid_utf8 (concat ts)"
  by (induction ts) (simp_all add: valid_utf8_append valid_utf8_ascii)

lemma quote_char_ascii: "byte c < 128 \<Longrightarrow> d \<in> set (quote_char c) \<Longrightarrow> byte d < 128"
proof -
  have "byte (hex_char n) < 128" if "n < 16" for n using that by (simp add: byte_hex_char)
  then show "byte c < 128 \<Longrightarrow> d \<in> set (quote_char c) \<Longrightarrow> byte d < 128"
    by (auto simp: quote_char_def split: if_splits)
qed

lemma quote_char_high: "128 \<le> byte c \<Longrightarrow> quote_char c = [c]"
proof -
  assume h: "128 \<le> byte c"
  have "c \<noteq> d" if "byte d < 128" for d using that h by auto
  note this [of dquote] this [of backslash] this [of newline] this [of "CHR 0x07"] this [of "CHR 0x08"] this [of "CHR 0x0C"]
    this [of "CHR 0x0D"] this [of "CHR 0x09"] this [of "CHR 0x0B"]
  then show ?thesis using h unfolding quote_char_def by simp
qed

lemma quote_valid_rune: "valid_rune r \<Longrightarrow> valid_utf8 (concat (map quote_char r))"
proof (cases "length r = 1")
  case True
  assume r: "valid_rune r"
  from True obtain c where c: "r = [c]" by (auto simp: length_Suc_conv)
  with r have "byte c < 128" by (auto simp: valid_rune_def rune_len_singleton split: if_splits)
  then show ?thesis using quote_char_ascii by (auto simp: c intro!: valid_utf8_ascii)
next
  case False
  assume r: "valid_rune r"
  have "concat (map quote_char r) = r"
    using valid_rune_high_bytes [OF r False] by (induction r) (auto simp: quote_char_high)
  then show ?thesis using runes_append_valid [OF r, of "[]"] r by (simp add: valid_utf8_def)
qed

lemma concat_map_concat: "concat (map f (concat rs)) = concat (map (\<lambda>r. concat (map f r)) rs)"
  by (induction rs) simp_all

lemma valid_utf8_fmt_q: "valid_utf8 s \<Longrightarrow> valid_utf8 (fmt_q s)"
proof -
  assume v: "valid_utf8 s"
  have "concat (map quote_char s) = concat (map (\<lambda>r. concat (map quote_char r)) (runes s))"
    using concat_map_concat [of quote_char "runes s"] by (simp add: concat_runes)
  moreover have "valid_utf8 (concat (map (\<lambda>r. concat (map quote_char r)) (runes s)))"
  proof (rule valid_utf8_concat)
    have "\<forall>r\<in>set (runes s). valid_rune r" using v by (simp add: valid_utf8_def list_all_iff)
    then show "\<forall>t\<in>set (map (\<lambda>r. concat (map quote_char r)) (runes s)). valid_utf8 t" by (simp add: quote_valid_rune)
  qed
  ultimately have "valid_utf8 (concat (map quote_char s))" by simp
  then have "valid_utf8 ([dquote] @ concat (map quote_char s) @ [dquote])"
    by (intro valid_utf8_append) (simp_all add: valid_utf8_ascii)
  then show ?thesis by (simp add: fmt_q_def)
qed

end
