(* ===== verification/Go_Float.thy ===== *)
theory Go_Float
  imports Go_Base
begin

text \<open>
  \<^verbatim>\<open>float64\<close>, as far as \<^verbatim>\<open>encoding/json\<close> uses it: a number inside a \<^verbatim>\<open>map[string]any\<close> is read with
  \<^verbatim>\<open>strconv.ParseFloat(lit, 64)\<close> and written with the shortest decimal that reads back as the same
  float. A finite float is a sign, a mantissa and an exponent, all numbers natural:
  \<open>Float64 neg m i\<close> stands for \<open>m * 2 ^ i / 2 ^ 1074\<close>. Decimals and floats are fractions of natural
  numbers, so that rounding is exact integer arithmetic. \<open>ParseFloat_format\<close> says that the text
  of a float is read back as that float.
\<close>

section \<open>Rounding\<close>

datatype float64 = Float64 bool nat nat

definition float_den :: nat where
  "float_den = 2 ^ 1074"

text \<open>The floats of the format: normal ones, and those of the smallest exponent.\<close>

fun float64_ok :: "float64 \<Rightarrow> bool" where
  "float64_ok (Float64 s m i) \<longleftrightarrow> m < 2 ^ 53 \<and> i < 2046 \<and> (2 ^ 52 \<le> m \<or> i = 0)"

text \<open>A fraction to the nearest natural number, and to the even one of two that are equally near.\<close>

definition round_even :: "nat \<Rightarrow> nat \<Rightarrow> nat" where
  "round_even p q =
     (let m = p div q; r = p mod q
      in if 2 * r < q \<or> 2 * r = q \<and> even m then m else Suc m)"

text \<open>
  The fraction \<open>a / b\<close> to the nearest float: its exponent is the smallest that leaves a mantissa
  of 53 bits. A mantissa that is rounded up to 54 bits moves to the next exponent; \<open>None\<close> is
  \<^verbatim>\<open>ErrRange\<close>.
\<close>

definition round_float64 :: "nat \<Rightarrow> nat \<Rightarrow> (nat \<times> nat) option" where
  "round_float64 a b =
     (case find (\<lambda>i. a * float_den < 2 ^ 53 * (b * 2 ^ i)) [0..<2046] of
        None \<Rightarrow> None
      | Some i \<Rightarrow>
          (let m = round_even (a * float_den) (b * 2 ^ i)
           in if m < 2 ^ 53 then Some (m, i)
              else if Suc i < 2046 then Some (2 ^ 52, Suc i) else None))"

text \<open>The decimal \<open>n * 10 ^ k\<close>.\<close>

definition decimal_float64 :: "bool \<Rightarrow> nat \<Rightarrow> int \<Rightarrow> float64 option" where
  "decimal_float64 neg n k =
     map_option (\<lambda>(m, i). Float64 neg m i) (round_float64 (n * 10 ^ nat k) (10 ^ nat (- k)))"

section \<open>Reading\<close>

text \<open>The digits of an exponent; a value of five digits does not grow any more.\<close>

definition exponent_val :: "string \<Rightarrow> nat" where
  "exponent_val ds = fold (\<lambda>c e. if e < 10000 then 10 * e + digit_val c else e) ds 0"

definition read_exponent :: "string \<Rightarrow> int" where
  "read_exponent s = (case s of [] \<Rightarrow> 0
     | c # ds \<Rightarrow> if c = CHR ''-'' then - int (exponent_val ds)
                else if c = CHR ''+'' then int (exponent_val ds) else int (exponent_val s))"

text \<open>A JSON number as sign, digits and power of ten: \<open>-1.25e3\<close> is \<open>(True, 125, 1)\<close>.\<close>

definition read_unsigned :: "string \<Rightarrow> nat \<times> int" where
  "read_unsigned s =
     (let ip = takeWhile is_digit s; r = dropWhile is_digit s;
          point = (r \<noteq> [] \<and> hd r = CHR ''.'');
          fp = (if point then takeWhile is_digit (tl r) else []);
          ex = (if point then dropWhile is_digit (tl r) else r)
      in (undec (ip @ fp), read_exponent (drop 1 ex) - int (length fp)))"

text \<open>\<^verbatim>\<open>strconv.ParseFloat(lit, 64)\<close> on a JSON number.\<close>

definition ParseFloat :: "string \<Rightarrow> float64 option" where
  "ParseFloat lit =
     (let neg = (lit \<noteq> [] \<and> hd lit = CHR ''-'');
          (n, k) = read_unsigned (if neg then tl lit else lit)
      in decimal_float64 neg n k)"

section \<open>Writing\<close>

text \<open>
  The decimal with \<open>n\<close> digits that reads back as \<open>m * 2 ^ i / 2 ^ 1074\<close>, if there is one: the
  digits below and above are tried, the nearer one is preferred, and the even one of two that are
  equally near. \<open>j\<close> places the decimal point, \<open>330\<close> to its right.
\<close>

definition decimal_digits :: "nat \<Rightarrow> nat \<Rightarrow> nat \<Rightarrow> nat \<Rightarrow> (nat \<times> int) option" where
  "decimal_digits m i j n =
     (let p = m * 2 ^ i * 10 ^ (n + 330); q = float_den * 10 ^ j;
          k = int j - 330 - int n; d = p div q;
          back = (\<lambda>d. decimal_float64 False d k = Some (Float64 False m i));
          near = round_even p q
      in if back near then Some (near, k)
         else if back d then Some (d, k)
         else if back (Suc d) then Some (Suc d, k) else None)"

definition exact_decimal :: "nat \<Rightarrow> nat \<Rightarrow> nat \<times> int" where
  "exact_decimal m i = (m * 2 ^ i * 5 ^ 1074, - 1074)"

text \<open>
  The shortest decimal. Seventeen digits are always enough; the exact value stands for the case
  that they were not.
\<close>

definition shortest_decimal :: "nat \<Rightarrow> nat \<Rightarrow> nat \<times> int" where
  "shortest_decimal m i =
     (let ds = (case find (\<lambda>j. m * 2 ^ i * 10 ^ 330 < float_den * 10 ^ j) [0..<700] of
          None \<Rightarrow> []
        | Some j \<Rightarrow> List.map_filter (decimal_digits m i j) [1..<18])
      in case ds of d # _ \<Rightarrow> d | [] \<Rightarrow> exact_decimal m i)"

function strip_zeros :: "nat \<Rightarrow> int \<Rightarrow> nat \<times> int" where
  "strip_zeros n k = (if n \<noteq> 0 \<and> n mod 10 = 0 then strip_zeros (n div 10) (k + 1) else (n, k))"
  by pat_completeness auto
termination
  by (relation "measure fst") auto

declare strip_zeros.simps [simp del]

text \<open>\<^verbatim>\<open>%e\<close> as the encoder leaves it, without the zero of an exponent of one digit, and \<^verbatim>\<open>%f\<close>.\<close>

definition format_exponent :: "int \<Rightarrow> string" where
  "format_exponent x = (if x < 0 then CHR ''-'' # dec (nat (- x)) else CHR ''+'' # dec (nat x))"

definition format_e :: "nat \<Rightarrow> int \<Rightarrow> string" where
  "format_e n k =
     (let ds = dec n
      in hd ds # (if tl ds = [] then [] else CHR ''.'' # tl ds) @
         CHR ''e'' # format_exponent (int (length ds) + k - 1))"

definition format_f :: "nat \<Rightarrow> int \<Rightarrow> string" where
  "format_f n k =
     (let ds = dec n; point = int (length ds) + k
      in if n = 0 then ''0''
         else if 0 \<le> k then ds @ replicate (nat k) CHR ''0''
         else if 0 < point then take (nat point) ds @ ''.'' @ drop (nat point) ds
         else ''0.'' @ replicate (nat (- point)) CHR ''0'' @ ds)"

text \<open>
  \<^verbatim>\<open>floatEncoder.encode\<close> of \<^verbatim>\<open>encoding/json\<close>: the exponent is written below \<^verbatim>\<open>1e-6\<close> (the float
  \<open>4722366482869645 * 2 ^ (1002 - 1074)\<close>) and from \<^verbatim>\<open>1e21\<close> on.
\<close>

fun format_float64 :: "float64 \<Rightarrow> string" where
  "format_float64 (Float64 neg m i) =
     (let (n, k) = (case shortest_decimal m i of (n, k) \<Rightarrow> strip_zeros n k)
      in (if neg then ''-'' else []) @
         (if m \<noteq> 0 \<and> (m * 2 ^ i < 4722366482869645 * 2 ^ 1002 \<or> 10 ^ 21 * float_den \<le> m * 2 ^ i)
          then format_e n k else format_f n k))"

declare format_float64.simps [simp del]

section \<open>Rounding is a function of the fraction\<close>

lemma round_even_scale: "0 < c \<Longrightarrow> round_even (p * c) (q * c) = round_even p q"
proof -
  assume c: "0 < c"
  have "2 * (c * r) < q * c \<longleftrightarrow> 2 * r < q" "2 * (c * r) = q * c \<longleftrightarrow> 2 * r = q" for r
    using c by (simp_all add: mult.left_commute [of 2] mult.commute [of q])
  then show ?thesis
    using c by (simp add: round_even_def Let_def mult_mod_left mult.commute [of _ c])
qed

lemma round_even_exact: "0 < q \<Longrightarrow> round_even (m * q) q = m"
  by (simp add: round_even_def)

lemma round_float64_scale:
  assumes "0 < c"
  shows "round_float64 (a * c) (b * c) = round_float64 a b"
proof -
  have "a * c * float_den < 2 ^ 53 * (b * c * 2 ^ i) \<longleftrightarrow> a * float_den < 2 ^ 53 * (b * 2 ^ i)" for i
  proof -
    have "a * c * float_den = a * float_den * c" "2 ^ 53 * (b * c * 2 ^ i) = 2 ^ 53 * (b * 2 ^ i) * c"
      by (simp_all only: mult.assoc mult.commute [of c])
    then show ?thesis using assms by (simp only: mult_less_cancel2) simp
  qed
  moreover have "round_even (a * c * float_den) (b * c * 2 ^ i) = round_even (a * float_den) (b * 2 ^ i)" for i
    using round_even_scale [OF assms, of "a * float_den" "b * 2 ^ i"]
    by (simp only: mult.assoc mult.commute [of c])
  ultimately show ?thesis by (simp only: round_float64_def)
qed

lemma round_float64_ratio:
  assumes "a * d = c * b" and "0 < b" and "0 < d"
  shows "round_float64 a b = round_float64 c d"
  using round_float64_scale [OF assms(3), of a b] round_float64_scale [OF assms(2), of c d] assms(1)
  by (simp add: mult.commute [of b d])

lemma float_den_pos: "0 < float_den"
  by (simp add: float_den_def)

lemma find_upt_first:
  "i < n \<Longrightarrow> P i \<Longrightarrow> (\<And>j. j < i \<Longrightarrow> \<not> P j) \<Longrightarrow> find P [0..<n] = Some i"
  by (auto simp: find_Some_iff intro!: exI [of _ i])

text \<open>A float is rounded to itself.\<close>

lemma round_float64_exact:
  assumes "float64_ok (Float64 s m i)"
  shows "round_float64 (m * 2 ^ i) float_den = Some (m, i)"
proof -
  let ?D = float_den
  note D = float_den_pos
  have m: "m < 2 ^ 53" and i: "i < 2046" "2 ^ 52 \<le> m \<or> i = 0" using assms by simp_all
  have "find (\<lambda>j. m * 2 ^ i * ?D < 2 ^ 53 * (?D * 2 ^ j)) [0..<2046] = Some i"
  proof (rule find_upt_first [OF i(1)])
    show "m * 2 ^ i * ?D < 2 ^ 53 * (?D * 2 ^ i)" using m D by (simp add: mult.left_commute [of _ ?D] mult.commute [of _ ?D])
  next
    fix j
    assume j: "j < i"
    then have "2 ^ 53 * 2 ^ j = (2::nat) ^ 52 * 2 ^ Suc j" by simp
    also have "\<dots> \<le> m * 2 ^ i" using i(2) j by (intro mult_le_mono power_increasing) auto
    finally show "\<not> m * 2 ^ i * ?D < 2 ^ 53 * (?D * 2 ^ j)"
      by (simp add: mult.left_commute [of _ ?D] mult.commute [of _ ?D] not_less)
  qed
  moreover have "round_even (m * 2 ^ i * ?D) (?D * 2 ^ i) = m"
    using round_even_exact [of "?D * 2 ^ i" m] D by (simp add: mult.assoc mult.commute [of ?D])
  ultimately show ?thesis using m by (simp only: round_float64_def option.case Let_def) simp
qed

lemma decimal_float64_sign:
  "decimal_float64 s n k = Some (Float64 s m i) \<longleftrightarrow> decimal_float64 False n k = Some (Float64 False m i)"
  by (auto simp: decimal_float64_def)

text \<open>Two decimals of the same value: \<open>n * 10 ^ k\<close> and \<open>n * 10 ^ e * 10 ^ (k - e)\<close>.\<close>

lemma decimal_float64_shift:
  "decimal_float64 s (n * 10 ^ e) k = decimal_float64 s n (k + int e)"
proof -
  have "nat k + nat (- k - int e) + e = nat (k + int e) + nat (- k)" by simp
  then have "(10::nat) ^ e * 10 ^ nat k * 10 ^ nat (- k - int e) = 10 ^ nat (k + int e) * 10 ^ nat (- k)"
    by (simp only: power_add [symmetric] ac_simps)
  then have "round_float64 (n * 10 ^ e * 10 ^ nat k) (10 ^ nat (- k)) =
      round_float64 (n * 10 ^ nat (k + int e)) (10 ^ nat (- k - int e))"
    by (intro round_float64_ratio) (simp_all add: mult.assoc)
  then show ?thesis by (simp add: decimal_float64_def)
qed

section \<open>The shortest decimal reads back\<close>

lemma decimal_digits_back:
  "decimal_digits m i j n = Some (d, k) \<Longrightarrow> decimal_float64 False d k = Some (Float64 False m i)"
  by (auto simp: decimal_digits_def Let_def split: if_splits)

lemma decimal_float64_exact:
  "decimal_float64 neg (a * 5 ^ e) (- int e) =
   map_option (\<lambda>(m, i). Float64 neg m i) (round_float64 a (2 ^ e))"
proof -
  have "round_float64 (a * 5 ^ e) (10 ^ e) = round_float64 a (2 ^ e)"
    using power_mult_distrib [of "2::nat" 5 e] by (intro round_float64_ratio) (simp_all add: ac_simps)
  then show ?thesis by (simp add: decimal_float64_def)
qed

lemma exact_decimal_back:
  assumes "float64_ok (Float64 s m i)" and "exact_decimal m i = (n, k)"
  shows "decimal_float64 False n k = Some (Float64 False m i)"
  using decimal_float64_exact [of False "m * 2 ^ i" 1074] round_float64_exact [OF assms(1)] assms(2)
  by (simp only: exact_decimal_def float_den_def prod.inject of_nat_numeral option.map prod.case)

lemma shortest_decimal_cases:
  "(\<exists>j n. j < 700 \<and> n < 18 \<and> decimal_digits m i j n = Some (shortest_decimal m i)) \<or>
   shortest_decimal m i = exact_decimal m i"
proof -
  have hd: "\<exists>x\<in>set xs. f x = Some y" if "List.map_filter f xs = y # ys"
    for f :: "nat \<Rightarrow> (nat \<times> int) option" and xs y ys
    using that by (induction xs) (auto simp: List.map_filter_simps split: option.splits)
  show ?thesis
  proof (cases "find (\<lambda>j. m * 2 ^ i * 10 ^ 330 < float_den * 10 ^ j) [0..<700]")
    case (Some j)
    then have "j < 700" by (auto simp: find_Some_iff)
    show ?thesis
    proof (cases "List.map_filter (decimal_digits m i j) [1..<18]")
      case Nil
      with Some show ?thesis by (simp add: shortest_decimal_def)
    next
      case (Cons d ds)
      with Some have "shortest_decimal m i = d"
        by (simp add: shortest_decimal_def)
      moreover from hd [OF Cons] obtain n where "n < 18" "decimal_digits m i j n = Some d" by auto
      ultimately show ?thesis using \<open>j < 700\<close> by auto
    qed
  qed (simp add: shortest_decimal_def)
qed

lemma shortest_decimal_back:
  assumes "float64_ok (Float64 s m i)" and "shortest_decimal m i = (n, k)"
  shows "decimal_float64 False n k = Some (Float64 False m i)"
  using shortest_decimal_cases [of m i] exact_decimal_back [OF assms(1)] decimal_digits_back assms(2)
  by (metis prod.inject)

lemma strip_zeros_back: "strip_zeros n k = (n', k') \<Longrightarrow> decimal_float64 s n' k' = decimal_float64 s n k"
proof (induction n k rule: strip_zeros.induct)
  case (1 n k)
  show ?case
  proof (cases "n \<noteq> 0 \<and> n mod 10 = 0")
    case True
    then have "n = n div 10 * 10 ^ 1" by auto
    then have "decimal_float64 s n k = decimal_float64 s (n div 10) (k + 1)"
      using decimal_float64_shift [of s "n div 10" 1 k] by simp
    with 1 True show ?thesis by (simp add: strip_zeros.simps [of n k])
  next
    case False
    then show ?thesis using 1 by (simp add: strip_zeros.simps [of n k] split: if_splits)
  qed
qed

section \<open>The text reads back\<close>

lemma exponent_val_small: "undec ds < 10000 \<Longrightarrow> exponent_val ds = undec ds"
proof (induction ds rule: rev_induct)
  case (snoc c ds)
  then show ?case by (simp add: exponent_val_def undec_snoc)
qed (simp add: exponent_val_def undec_def)

lemma undec_zeros: "undec (ds @ replicate n CHR ''0'') = undec ds * 10 ^ n"
proof (induction n)
  case (Suc n)
  have "undec (ds @ replicate (Suc n) CHR ''0'') = undec ((ds @ replicate n CHR ''0'') @ [CHR ''0''])"
    by (simp only: replicate_Suc replicate_append_same [symmetric] append_assoc)
  then show ?case using Suc by (simp only: undec_snoc) (simp add: digit_val_def)
qed simp

lemma undec_leading: "undec (replicate n CHR ''0'' @ ds) = undec ds"
  by (induction n) (simp_all add: undec_def digit_val_def)

lemma is_digit_zero [simp]: "is_digit CHR ''0''"
  by (simp add: is_digit_def)

lemma not_is_digit [simp]: "\<not> is_digit CHR ''.''" "\<not> is_digit CHR ''e''" "\<not> is_digit CHR ''-''" "\<not> is_digit CHR ''+''"
  by (simp_all add: is_digit_def)

text \<open>The three shapes of a number: an integer, a fraction, a fraction with exponent.\<close>

lemma read_unsigned_int:
  "\<forall>c\<in>set ip. is_digit c \<Longrightarrow> read_unsigned ip = (undec ip, 0)"
  by (simp add: read_unsigned_def Let_def read_exponent_def takeWhile_eq_all_conv [THEN iffD2]
      dropWhile_eq_Nil_conv [THEN iffD2])

lemma read_unsigned_frac:
  "\<forall>c\<in>set ip. is_digit c \<Longrightarrow> \<forall>c\<in>set fp. is_digit c \<Longrightarrow>
   read_unsigned (ip @ CHR ''.'' # fp) = (undec (ip @ fp), - int (length fp))"
  by (simp add: read_unsigned_def Let_def read_exponent_def takeWhile_eq_all_conv [THEN iffD2]
      dropWhile_eq_Nil_conv [THEN iffD2])

lemma read_exponent_format: "\<bar>x\<bar> < 10000 \<Longrightarrow> read_exponent (format_exponent x) = x"
  by (simp add: format_exponent_def read_exponent_def exponent_val_small)


lemma read_unsigned_exp:
  assumes "is_digit c" and "\<forall>d\<in>set fp. is_digit d"
  shows "read_unsigned (c # (if fp = [] then [] else CHR ''.'' # fp) @ CHR ''e'' # ex) =
    (undec (c # fp), read_exponent ex - int (length fp))"
proof -
  have "takeWhile is_digit (fp @ CHR ''e'' # ex) = fp" "dropWhile is_digit (fp @ CHR ''e'' # ex) = CHR ''e'' # ex"
    using assms(2) by (simp_all add: takeWhile_tail)
  then show ?thesis using assms(1) by (simp add: read_unsigned_def)
qed

lemma dec_digits_all: "\<forall>c\<in>set (dec n). is_digit c"
  using dec_digits by blast

lemma read_format_f:
  "case read_unsigned (format_f n k) of (n', k') \<Rightarrow> decimal_float64 s n' k' = decimal_float64 s n k"
proof -
  let ?ds = "dec n"
  have d: "\<forall>c\<in>set ?ds. is_digit c" by (rule dec_digits_all)
  have zero: "decimal_float64 s 0 0 = decimal_float64 s 0 k"
    by (simp add: decimal_float64_def round_float64_ratio [of 0 1 0 "10 ^ nat (- k)"])
  consider "n = 0" | "n \<noteq> 0" "0 \<le> k" | "n \<noteq> 0" "k < 0" "0 < int (length ?ds) + k"
    | "n \<noteq> 0" "k < 0" "int (length ?ds) + k \<le> 0" by linarith
  then show ?thesis
  proof cases
    case 1
    then show ?thesis
      using zero by (simp add: format_f_def read_unsigned_int) (simp add: undec_def digit_val_def)
  next
    case 2
    then show ?thesis
      using d decimal_float64_shift [of s n "nat k" 0]
        read_unsigned_int [of "?ds @ replicate (nat k) CHR ''0''"]
      by (simp add: format_f_def Let_def undec_zeros ball_Un)
  next
    case 3
    let ?p = "nat (int (length ?ds) + k)"
    have "\<forall>c\<in>set (take ?p ?ds). is_digit c" "\<forall>c\<in>set (drop ?p ?ds). is_digit c"
      using d by (auto dest: in_set_takeD in_set_dropD)
    then show ?thesis using 3 by (simp add: format_f_def Let_def read_unsigned_frac)
  next
    case 4
    let ?z = "replicate (nat (- (int (length ?ds) + k))) CHR ''0'' @ ?ds"
    have "read_unsigned (''0'' @ CHR ''.'' # ?z) = (undec (''0'' @ ?z), - int (length ?z))"
      using d by (intro read_unsigned_frac) auto
    moreover have "undec (''0'' @ ?z) = n"
      using undec_leading [of 1 ?z] by (simp add: undec_leading)
    ultimately show ?thesis using 4 by (simp add: format_f_def Let_def)
  qed
qed

lemma read_format_e:
  assumes "\<bar>int (length (dec n)) + k - 1\<bar> < 10000"
  shows "read_unsigned (format_e n k) = (n, k)"
proof -
  obtain c fp where ds: "dec n = c # fp" using dec_nonempty [of n] by (cases "dec n") auto
  then have "is_digit c" "\<forall>d\<in>set fp. is_digit d" using dec_digits_all [of n] by auto
  then have "read_unsigned (format_e n k) =
      (undec (c # fp), read_exponent (format_exponent (int (length (dec n)) + k - 1)) - int (length fp))"
    unfolding format_e_def Let_def ds list.sel by (rule read_unsigned_exp)
  then show ?thesis
    using read_exponent_format [OF assms] undec_dec [of n] by (simp add: ds)
qed

lemma length_dec_le: "n < 10 ^ l \<Longrightarrow> 0 < l \<Longrightarrow> length (dec n) \<le> l"
proof (induction l arbitrary: n)
  case (Suc l)
  show ?case
  proof (cases "n < 10")
    case False
    then have "n div 10 < 10 ^ l" "0 < l" using Suc.prems by (auto intro: ccontr)
    with Suc.IH [of "n div 10"] False show ?thesis by (simp add: dec.simps [of n])
  qed (simp add: dec.simps [of n])
qed simp

lemma strip_zeros_length:
  "strip_zeros n k = (n', k') \<Longrightarrow> int (length (dec n')) + k' = int (length (dec n)) + k"
proof (induction n k rule: strip_zeros.induct)
  case (1 n k)
  show ?case
  proof (cases "n \<noteq> 0 \<and> n mod 10 = 0")
    case True
    then have "length (dec n) = Suc (length (dec (n div 10)))" by (subst dec.simps) auto
    with 1 True show ?thesis by (simp add: strip_zeros.simps [of n k])
  next
    case False
    then show ?thesis using 1 by (simp add: strip_zeros.simps [of n k] split: if_splits)
  qed
qed

lemma length_dec_Suc: "n \<le> Suc (10 ^ a) \<Longrightarrow> length (dec n) \<le> Suc a"
proof -
  assume "n \<le> Suc (10 ^ a)"
  moreover have "Suc (10 ^ a) < 10 ^ Suc a" by (induction a) simp_all
  ultimately show ?thesis by (intro length_dec_le) (auto intro: le_less_trans)
qed

text \<open>The exponents that are written have four digits at most.\<close>

lemma shortest_decimal_range:
  assumes "float64_ok (Float64 s m i)" and "shortest_decimal m i = (n, k)"
  shows "\<bar>int (length (dec n)) + k - 1\<bar> < 10000"
proof -
  have "m \<le> 2 ^ 53" "(2::nat) ^ i \<le> 2 ^ 2046" using assms(1) power_increasing [of i 2046 "2::nat"] by simp_all
  then have "m * 2 ^ i \<le> 2 ^ 53 * 2 ^ 2046" by (rule mult_le_mono)
  also have "\<dots> = 2 ^ 2099" by (simp only: power_add [symmetric]) simp
  also have "\<dots> \<le> (10::nat) ^ 2099" by (rule power_mono) simp_all
  finally have small: "m * 2 ^ i \<le> 10 ^ 2099" .
  have scale: "m * 2 ^ i * c \<le> 10 ^ (2099 + e)" if "c \<le> 10 ^ e" for c e
    unfolding power_add by (rule mult_le_mono [OF small that])
  define E :: nat where "E = 10 ^ (2099 + 1074)"
  have "n \<le> Suc E \<and> - 1074 \<le> k \<and> k \<le> 700"
    using shortest_decimal_cases [of m i]
  proof
    assume "\<exists>j n. j < 700 \<and> n < 18 \<and> decimal_digits m i j n = Some (shortest_decimal m i)"
    then obtain j l where j: "j < 700" "l < 18" and dd: "decimal_digits m i j l = Some (n, k)"
      using assms(2) by auto
    let ?p = "m * 2 ^ i * 10 ^ (l + 330)"
    have "round_even p q \<le> Suc (p div q)" for p q by (simp add: round_even_def Let_def)
    then have "n \<le> Suc (?p div (float_den * 10 ^ j))" "k = int j - 330 - int l"
      using dd by (auto simp: decimal_digits_def Let_def split: if_splits)
    moreover have "?p div (float_den * 10 ^ j) \<le> ?p" by simp
    moreover have "?p \<le> E"
      unfolding E_def using j(2) by (intro scale power_increasing) auto
    ultimately show ?thesis using j by linarith
  next
    assume "shortest_decimal m i = exact_decimal m i"
    moreover have "m * 2 ^ i * 5 ^ 1074 \<le> E"
      unfolding E_def by (intro scale power_mono) auto
    ultimately show ?thesis using assms(2) by (simp only: exact_decimal_def prod.inject) linarith
  qed
  with length_dec_Suc [of n "2099 + 1074"] show ?thesis unfolding E_def by linarith
qed

lemma decimal_float64_zero: "decimal_float64 s 0 k = Some (Float64 s 0 0)"
proof -
  have "find (\<lambda>i. 0 < 2 ^ 53 * (10 ^ nat (- k) * 2 ^ i :: nat)) [0..<2046] = Some 0"
    by (rule find_upt_first) simp_all
  then show ?thesis
    by (simp add: decimal_float64_def round_float64_def round_even_def Let_def)
qed

lemma shortest_digits_positive:
  assumes "float64_ok (Float64 s m i)" and "m \<noteq> 0" and "shortest_decimal m i = (n0, k0)"
    and "strip_zeros n0 k0 = (n, k)"
  shows "0 < n"
proof (rule ccontr)
  assume "\<not> 0 < n"
  then have "decimal_float64 False n k = Some (Float64 False 0 0)" by (simp add: decimal_float64_zero)
  then show False
    using shortest_decimal_back [OF assms(1,3)] strip_zeros_back [OF assms(4), of False] assms(2) by simp
qed

text \<open>The text of a float is read back as that float.\<close>

lemma format_f_hd: "format_f n k \<noteq> [] \<and> hd (format_f n k) \<noteq> CHR ''-''"
proof -
  have "c \<noteq> CHR ''-''" if "c \<in> set (dec n)" for c using dec_digits [OF that] by auto
  then show ?thesis
    by (cases "dec n") (auto simp: format_f_def Let_def)
qed

lemma format_e_hd: "format_e n k \<noteq> [] \<and> hd (format_e n k) \<noteq> CHR ''-''"
  using dec_digits [OF hd_in_set [OF dec_nonempty], of n] by (auto simp: format_e_def Let_def)

lemma ParseFloat_signed:
  assumes "u \<noteq> []" and "hd u \<noteq> CHR ''-''"
  shows "ParseFloat ((if s then ''-'' else []) @ u) =
    (case read_unsigned u of (n, k) \<Rightarrow> decimal_float64 s n k)"
  using assms by (simp add: ParseFloat_def Let_def)

theorem ParseFloat_format [codec]:
  assumes "float64_ok x"
  shows "ParseFloat (format_float64 x) = Some x"
proof (cases x)
  case (Float64 s m i)
  obtain n0 k0 where short: "shortest_decimal m i = (n0, k0)" by fastforce
  obtain n k where strip: "strip_zeros n0 k0 = (n, k)" by fastforce
  have ok: "float64_ok (Float64 s m i)" using assms Float64 by simp
  have reads: "decimal_float64 s n k = Some x"
    using shortest_decimal_back [OF ok short] strip_zeros_back [OF strip, of False]
    by (simp add: Float64 decimal_float64_sign [of s n k m i])
  have "\<bar>int (length (dec n)) + k - 1\<bar> < 10000"
    using shortest_decimal_range [OF ok short] strip_zeros_length [OF strip] by simp
  then have "ParseFloat ((if s then ''-'' else []) @ format_e n k) = Some x"
    using ParseFloat_signed [of "format_e n k" s] format_e_hd [of n k] reads by (simp add: read_format_e)
  moreover have "ParseFloat ((if s then ''-'' else []) @ format_f n k) = Some x"
    using ParseFloat_signed [of "format_f n k" s] format_f_hd [of n k] read_format_f [of s n k] reads
    by (simp add: split_def)
  ultimately show ?thesis by (simp add: format_float64.simps Float64 short strip)
qed

text \<open>What is read is a float of the format.\<close>

lemma le_round_even: "0 < q \<Longrightarrow> m * q \<le> p \<Longrightarrow> m \<le> round_even p q"
  by (auto simp: round_even_def Let_def less_eq_div_iff_mult_less_eq le_SucI)

lemma round_float64_ok:
  assumes "round_float64 a b = Some (m, i)" and "0 < b"
  shows "float64_ok (Float64 s m i)"
proof -
  from assms(1) obtain j where j: "find (\<lambda>i. a * float_den < 2 ^ 53 * (b * 2 ^ i)) [0..<2046] = Some j"
    by (auto simp: round_float64_def split: option.splits)
  then have first: "\<not> a * float_den < 2 ^ 53 * (b * 2 ^ i)" if "i < j" for i
    using that by (auto simp: find_Some_iff)
  have range: "j < 2046" using j by (auto simp: find_Some_iff)
  have "2 ^ 52 \<le> round_even (a * float_den) (b * 2 ^ j)" if "j \<noteq> 0"
  proof -
    from that obtain i where i: "j = Suc i" using not0_implies_Suc by blast
    have "2 ^ 52 * (b * 2 ^ j) = 2 ^ 53 * (b * 2 ^ i)" by (simp add: i)
    also have "\<dots> \<le> a * float_den" using first [of i] by (simp add: i not_less)
    finally show ?thesis using assms(2) by (intro le_round_even) simp_all
  qed
  then show ?thesis
    using assms(1) range unfolding round_float64_def j by (auto simp: Let_def split: if_splits)
qed

theorem ParseFloat_ok: "ParseFloat lit = Some x \<Longrightarrow> float64_ok x"
  by (auto simp: ParseFloat_def decimal_float64_def Let_def simp del: float64_ok.simps
      intro!: round_float64_ok split: prod.splits)

text \<open>An odd number of 54 bits is not a float: \<^verbatim>\<open>9007199254740993\<close> is read as \<^verbatim>\<open>9007199254740992\<close>.\<close>

lemma round_float64_int:
  assumes "2 ^ 52 * 2 ^ j \<le> n" and "n < 2 ^ 53 * 2 ^ j" and "j < 972"
  shows "round_float64 n 1 = (let m = round_even n (2 ^ j) in
     if m < 2 ^ 53 then Some (m, 1074 + j) else if j < 971 then Some (2 ^ 52, 1075 + j) else None)"
proof -
  have "find (\<lambda>i. n * float_den < 2 ^ 53 * (1 * 2 ^ i)) [0..<2046] = Some (1074 + j)"
  proof (rule find_upt_first)
    show "n * float_den < 2 ^ 53 * (1 * 2 ^ (1074 + j))"
      using assms(2) by (simp add: float_den_def power_add)
  next
    fix i :: nat
    assume "i < 1074 + j"
    then have "(2::nat) ^ Suc i \<le> float_den * 2 ^ j"
      unfolding float_den_def power_add [symmetric] by (intro power_increasing) simp_all
    then have "(2::nat) ^ 52 * 2 ^ Suc i \<le> 2 ^ 52 * (float_den * 2 ^ j)" by (rule mult_le_mono2)
    also have "\<dots> \<le> n * float_den" using mult_le_mono1 [OF assms(1), of float_den] by (simp only: ac_simps)
    finally show "\<not> n * float_den < 2 ^ 53 * (1 * 2 ^ i)" by (simp add: not_less)
  qed (use assms(3) in simp)
  moreover have "round_even (n * float_den) (1 * 2 ^ (1074 + j)) = round_even n (2 ^ j)"
    using round_even_scale [of float_den n "2 ^ j"] float_den_pos
    by (simp only: power_add float_den_def [symmetric] mult.commute [of float_den] mult_1)
  ultimately show ?thesis by (simp add: round_float64_def Let_def)
qed

lemma large_odd_number_is_rounded:
  "ParseFloat ''9007199254740993'' = ParseFloat ''9007199254740992''"
proof -
  have "ParseFloat ds = map_option (\<lambda>(m, i). Float64 False m i) (round_float64 (undec ds) 1)"
    if "\<forall>c\<in>set ds. is_digit c" for ds
    using that by (cases ds) (auto simp: ParseFloat_def Let_def read_unsigned_int decimal_float64_def)
  moreover have "undec ''9007199254740993'' = 9007199254740993"
    "undec ''9007199254740992'' = 9007199254740992"
    by (simp_all add: undec_def digit_val_def)
  moreover have "round_float64 9007199254740993 1 = round_float64 9007199254740992 1"
    using round_float64_int [of 1 9007199254740993] round_float64_int [of 1 9007199254740992]
    by (simp add: round_even_def)
  ultimately show ?thesis by (simp add: is_digit_def)
qed

end
