(* ===== verification/Go_Json.thy ===== *)
theory Go_Json
  imports Go_Utf8 Go_Float "HOL-Library.AList"
begin

text \<open>
  \<^verbatim>\<open>encoding/json\<close>: values as the bytes show them (\<open>jtree\<close>: string literals and numbers as
  their raw text), the printers of \<^verbatim>\<open>Marshal\<close> and \<^verbatim>\<open>MarshalIndent(v, "", "  ")\<close>, the syntax the
  scanner accepts, and the Go values of type \<^verbatim>\<open>any\<close>. The printers and the parser form a
  codec: \<open>parse_print\<close> says a printed tree is read back, followed by anything that can follow
  a value. The parser spends fuel at every value; \<open>parse_fuel_enough\<close> says that the fuel of
  \<open>parse_json\<close>, linear in the length of the text, is never the reason for a failure.
\<close>

section \<open>Values and printers\<close>

datatype jtree =
    TNull
  | TBool bool
  | TNum string
  | TStr string
  | TArr "jtree list"
  | TObj "(string \<times> jtree) list"

definition nl_indent :: "bool \<Rightarrow> nat \<Rightarrow> string" where
  "nl_indent ind d = (if ind then newline # replicate (2 * d) CHR '' '' else [])"

definition colon :: "bool \<Rightarrow> string" where
  "colon ind = (if ind then '': '' else '':'')"

text \<open>\<^verbatim>\<open>Marshal\<close> is \<open>print_tree False 0\<close>, \<^verbatim>\<open>MarshalIndent\<close> is \<open>print_tree True 0\<close>.\<close>

fun print_tree :: "bool \<Rightarrow> nat \<Rightarrow> jtree \<Rightarrow> string"
  and print_elems :: "bool \<Rightarrow> nat \<Rightarrow> jtree list \<Rightarrow> string"
  and print_members :: "bool \<Rightarrow> nat \<Rightarrow> (string \<times> jtree) list \<Rightarrow> string" where
  "print_tree ind d TNull = ''null''"
| "print_tree ind d (TBool b) = (if b then ''true'' else ''false'')"
| "print_tree ind d (TNum n) = n"
| "print_tree ind d (TStr s) = dquote # s @ [dquote]"
| "print_tree ind d (TArr xs) =
     (if xs = [] then ''[]''
      else ''['' @ nl_indent ind (Suc d) @ print_elems ind (Suc d) xs @ nl_indent ind d @ '']'')"
| "print_tree ind d (TObj ms) =
     (if ms = [] then ''{}''
      else ''{'' @ nl_indent ind (Suc d) @ print_members ind (Suc d) ms @ nl_indent ind d @ ''}'')"
| "print_elems ind d [] = []"
| "print_elems ind d (x # xs) =
     print_tree ind d x @
     (if xs = [] then [] else '','' @ nl_indent ind d @ print_elems ind d xs)"
| "print_members ind d [] = []"
| "print_members ind d (m # ms) =
     dquote # fst m @ [dquote] @ colon ind @ print_tree ind d (snd m) @
     (if ms = [] then [] else '','' @ nl_indent ind d @ print_members ind d ms)"

section \<open>The parser\<close>

definition is_space :: "char \<Rightarrow> bool" where
  "is_space c \<longleftrightarrow> c = CHR '' '' \<or> c = CHR 0x09 \<or> c = CHR 0x0A \<or> c = CHR 0x0D"

definition skip_ws :: "string \<Rightarrow> string" where
  "skip_ws s = dropWhile is_space s"

definition scan_digits1 :: "string \<Rightarrow> (string \<times> string) option" where
  "scan_digits1 s =
     (if takeWhile is_digit s = [] then None
      else Some (takeWhile is_digit s, dropWhile is_digit s))"

definition scan_int :: "string \<Rightarrow> (string \<times> string) option" where
  "scan_int s = (case s of [] \<Rightarrow> None
     | c # r \<Rightarrow> if c = CHR ''0'' then Some ([c], r) else scan_digits1 s)"

definition scan_frac :: "string \<Rightarrow> (string \<times> string) option" where
  "scan_frac s = (case s of [] \<Rightarrow> Some ([], [])
     | c # r \<Rightarrow> if c = CHR ''.'' then map_option (\<lambda>(p, q). (c # p, q)) (scan_digits1 r)
               else Some ([], s))"

definition scan_exp :: "string \<Rightarrow> (string \<times> string) option" where
  "scan_exp s = (case s of [] \<Rightarrow> Some ([], [])
     | c # r \<Rightarrow> if c = CHR ''e'' \<or> c = CHR ''E'' then
                 (case r of [] \<Rightarrow> None
                  | e # q \<Rightarrow> if e = CHR ''+'' \<or> e = CHR ''-''
                            then map_option (\<lambda>(p, q). (c # e # p, q)) (scan_digits1 q)
                            else map_option (\<lambda>(p, q). (c # p, q)) (scan_digits1 r))
               else Some ([], s))"

definition scan_unsigned :: "string \<Rightarrow> (string \<times> string) option" where
  "scan_unsigned s =
     (case scan_int s of None \<Rightarrow> None | Some (i, r1) \<Rightarrow>
      (case scan_frac r1 of None \<Rightarrow> None | Some (f, r2) \<Rightarrow>
       (case scan_exp r2 of None \<Rightarrow> None | Some (e, r3) \<Rightarrow> Some (i @ f @ e, r3))))"

definition scan_num :: "string \<Rightarrow> (string \<times> string) option" where
  "scan_num s = (case s of [] \<Rightarrow> None
     | c # r \<Rightarrow> if c = CHR ''-'' then map_option (\<lambda>(p, q). (c # p, q)) (scan_unsigned r)
               else scan_unsigned s)"

fun strip_prefix :: "string \<Rightarrow> string \<Rightarrow> string option" where
  "strip_prefix [] s = Some s"
| "strip_prefix (c # p) [] = None"
| "strip_prefix (c # p) (d # s) = (if c = d then strip_prefix p s else None)"

definition scan_lit :: "string \<Rightarrow> jtree \<Rightarrow> string \<Rightarrow> (jtree \<times> string) option" where
  "scan_lit lit t s = map_option (\<lambda>r. (t, r)) (strip_prefix lit s)"

fun parse_value :: "nat \<Rightarrow> string \<Rightarrow> (jtree \<times> string) option"
  and parse_elems :: "nat \<Rightarrow> string \<Rightarrow> (jtree list \<times> string) option"
  and parse_members :: "nat \<Rightarrow> string \<Rightarrow> ((string \<times> jtree) list \<times> string) option" where
  "parse_value 0 s = None"
| "parse_value (Suc n) s =
     (case skip_ws s of [] \<Rightarrow> None
      | c # r \<Rightarrow>
        if c = dquote then map_option (\<lambda>(raw, q). (TStr raw, q)) (scan_str r)
        else if c = CHR ''['' then
          (if skip_ws r \<noteq> [] \<and> hd (skip_ws r) = CHR '']'' then Some (TArr [], tl (skip_ws r))
           else map_option (\<lambda>(xs, q). (TArr xs, q)) (parse_elems n r))
        else if c = CHR ''{'' then
          (if skip_ws r \<noteq> [] \<and> hd (skip_ws r) = CHR ''}'' then Some (TObj [], tl (skip_ws r))
           else map_option (\<lambda>(ms, q). (TObj ms, q)) (parse_members n r))
        else if c = CHR ''t'' then scan_lit ''true'' (TBool True) (c # r)
        else if c = CHR ''f'' then scan_lit ''false'' (TBool False) (c # r)
        else if c = CHR ''n'' then scan_lit ''null'' TNull (c # r)
        else map_option (\<lambda>(lit, q). (TNum lit, q)) (scan_num (c # r)))"
| "parse_elems 0 s = None"
| "parse_elems (Suc n) s =
     (case parse_value n s of None \<Rightarrow> None
      | Some (x, r) \<Rightarrow>
        (case skip_ws r of [] \<Rightarrow> None
         | c # q \<Rightarrow>
           if c = CHR '']'' then Some ([x], q)
           else if c = CHR '','' then map_option (\<lambda>(xs, q'). (x # xs, q')) (parse_elems n q)
           else None))"
| "parse_members 0 s = None"
| "parse_members (Suc n) s =
     (case skip_ws s of [] \<Rightarrow> None
      | c0 # r0 \<Rightarrow>
        if c0 \<noteq> dquote then None else
        (case scan_str r0 of None \<Rightarrow> None
         | Some (k, r1) \<Rightarrow>
           (case skip_ws r1 of [] \<Rightarrow> None
            | c1 # r2 \<Rightarrow>
              if c1 \<noteq> CHR '':'' then None else
              (case parse_value n r2 of None \<Rightarrow> None
               | Some (v, r3) \<Rightarrow>
                 (case skip_ws r3 of [] \<Rightarrow> None
                  | c # q \<Rightarrow>
                    if c = CHR ''}'' then Some ([(k, v)], q)
                    else if c = CHR '','' then
                      map_option (\<lambda>(ms, q'). ((k, v) # ms, q')) (parse_members n q)
                    else None)))))"

definition parse_json :: "string \<Rightarrow> (jtree \<times> string) option" where
  "parse_json s = parse_value (2 * length s + 2) s"

declare parse_value.simps(2) [simp del] parse_elems.simps(2) [simp del]
  parse_members.simps(2) [simp del]

section \<open>Consumption and fuel\<close>

lemma length_skip_ws: "length (skip_ws s) \<le> length s"
  by (simp add: skip_ws_def length_dropWhile_le)

lemma skip_ws_Cons_less: "skip_ws s = c # r \<Longrightarrow> length r < length s"
  using length_skip_ws [of s] by simp

lemma scan_str_length: "scan_str s = Some (p, r) \<Longrightarrow> length r < length s"
  by (drule scan_str_split) simp

lemma scan_digits1_length: "scan_digits1 s = Some (p, r) \<Longrightarrow> length r < length s"
  by (cases s) (auto simp: scan_digits1_def less_Suc_eq_le length_dropWhile_le split: if_splits)

lemma scan_int_length: "scan_int s = Some (p, r) \<Longrightarrow> length r < length s"
  by (auto simp: scan_int_def dest: scan_digits1_length split: list.splits if_splits)

lemma scan_frac_length: "scan_frac s = Some (p, r) \<Longrightarrow> length r \<le> length s"
  by (auto simp: scan_frac_def dest!: scan_digits1_length split: list.splits if_splits)

lemma scan_exp_length: "scan_exp s = Some (p, r) \<Longrightarrow> length r \<le> length s"
  by (auto simp: scan_exp_def dest!: scan_digits1_length split: list.splits if_splits)

lemma scan_unsigned_length: "scan_unsigned s = Some (p, r) \<Longrightarrow> length r < length s"
  by (fastforce simp: scan_unsigned_def dest: scan_int_length scan_frac_length scan_exp_length
      split: option.splits)

lemma scan_num_length: "scan_num s = Some (p, r) \<Longrightarrow> length r < length s"
  by (auto simp: scan_num_def dest: scan_unsigned_length split: list.splits if_splits)

lemma strip_prefix_length: "strip_prefix p s = Some r \<Longrightarrow> length s = length p + length r"
  by (induction p s rule: strip_prefix.induct) (auto split: if_splits)

lemma scan_lit_length: "scan_lit lit t s = Some (u, r) \<Longrightarrow> lit \<noteq> [] \<Longrightarrow> length r < length s"
  by (auto simp: scan_lit_def dest: strip_prefix_length)

lemmas scan_lengths = scan_str_length scan_num_length scan_lit_length

lemma parse_length:
  "parse_value n s = Some (t, r) \<Longrightarrow> length r < length s"
  "parse_elems n s = Some (ts, r) \<Longrightarrow> length r < length s"
  "parse_members n s = Some (ms, r) \<Longrightarrow> length r < length s"
proof (induction n s and n s and n s arbitrary: t r and ts r and ms r
    rule: parse_value_parse_elems_parse_members.induct)
  case (2 n s)
  show ?case
  proof (cases "skip_ws s")
    case (Cons c q)
    have q: "length q < length s" using Cons by (rule skip_ws_Cons_less)
    have tl: "length (tl (skip_ws q)) \<le> length q" using length_skip_ws [of q] by simp
    show ?thesis
      using "2.prems" "2.IH" [OF Cons] q tl Cons
      by (fastforce simp: parse_value.simps(2) dest: scan_lengths split: if_splits)
  qed (use 2 in \<open>simp add: parse_value.simps(2)\<close>)
next
  case (4 n s)
  then show ?case
    by (fastforce simp: parse_elems.simps(2) dest: skip_ws_Cons_less
        split: option.splits list.splits if_splits)
next
  case (6 n s)
  then show ?case
    by (fastforce simp: parse_members.simps(2) dest!: skip_ws_Cons_less dest: scan_str_length
        split: option.splits list.splits if_splits)
qed simp_all

text \<open>An object and a null take two bytes at least.\<close>

lemma parse_value_two:
  assumes "parse_value n s = Some (t, r)" and "\<exists>ms. t = TObj ms \<or> t = TNull"
  shows "length r + 2 \<le> length s"
proof (cases n)
  case (Suc k)
  show ?thesis
  proof (cases "skip_ws s")
    case (Cons c q)
    have q: "length q < length s" using Cons by (rule skip_ws_Cons_less)
    have tl: "skip_ws q \<noteq> [] \<Longrightarrow> length (tl (skip_ws q)) < length q"
      using length_skip_ws [of q] by (cases "skip_ws q") auto
    show ?thesis
      using assms q tl Cons Suc
      by (fastforce simp: parse_value.simps(2) scan_lit_def dest: strip_prefix_length parse_length(3) split: if_splits)
  qed (use assms Suc in \<open>simp add: parse_value.simps(2)\<close>)
qed (use assms in simp)

text \<open>
  A value needs two units of fuel for every byte of the text; with that much, more changes
  nothing. So a failure of \<open>parse_json\<close> is a failure of the syntax, never of the fuel.
\<close>

lemma parse_fuel_step:
  "(2 * length s < n \<longrightarrow> parse_value (Suc n) s = parse_value n s) \<and>
   (2 * length s + 1 < n \<longrightarrow> parse_elems (Suc n) s = parse_elems n s) \<and>
   (2 * length s + 1 < n \<longrightarrow> parse_members (Suc n) s = parse_members n s)"
proof (induction n arbitrary: s)
  case 0
  then show ?case by simp
next
  case (Suc n)
  have V: "parse_value (Suc n) q = parse_value n q" if "2 * length q < n" for q
    using Suc that by blast
  have E: "parse_elems (Suc n) q = parse_elems n q" if "2 * length q + 1 < n" for q
    using Suc that by blast
  have M: "parse_members (Suc n) q = parse_members n q" if "2 * length q + 1 < n" for q
    using Suc that by blast
  have "parse_value (Suc (Suc n)) s = parse_value (Suc n) s" if "2 * length s < Suc n"
  proof (cases "skip_ws s")
    case (Cons c r)
    then have "2 * length r + 1 < n" using skip_ws_Cons_less [OF Cons] that by simp
    then show ?thesis by (simp add: parse_value.simps(2) Cons E M)
  qed (simp add: parse_value.simps(2))
  moreover have "parse_elems (Suc (Suc n)) s = parse_elems (Suc n) s" if "2 * length s + 1 < Suc n"
  proof (cases "parse_value n s")
    case (Some v)
    obtain x r where v: "v = (x, r)" by (cases v)
    have "parse_elems (Suc n) q = parse_elems n q" if q: "skip_ws r = c # q" for c q
      using parse_length(1) [OF Some [unfolded v]] skip_ws_Cons_less [OF q] \<open>2 * length s + 1 < Suc n\<close>
      by (intro E) simp
    then show ?thesis
      using V [of s] that by (simp add: parse_elems.simps(2) Some v split: list.splits)
  qed (use V [of s] that in \<open>simp add: parse_elems.simps(2)\<close>)
  moreover have "parse_members (Suc (Suc n)) s = parse_members (Suc n) s"
    if small: "2 * length s + 1 < Suc n"
  proof -
    have "parse_value (Suc n) r2 = parse_value n r2"
      if "skip_ws s = c0 # r0" "scan_str r0 = Some (k, r1)" "skip_ws r1 = c1 # r2" for c0 r0 k r1 c1 r2
      using skip_ws_Cons_less [OF that(1)] scan_str_length [OF that(2)] skip_ws_Cons_less [OF that(3)] small
      by (intro V) simp
    moreover have "parse_members (Suc n) q = parse_members n q"
      if "skip_ws s = c0 # r0" "scan_str r0 = Some (k, r1)" "skip_ws r1 = c1 # r2"
        "parse_value n r2 = Some (v, r3)" "skip_ws r3 = c # q" for c0 r0 k r1 c1 r2 v r3 c q
      using skip_ws_Cons_less [OF that(1)] scan_str_length [OF that(2)] skip_ws_Cons_less [OF that(3)]
        parse_length(1) [OF that(4)] skip_ws_Cons_less [OF that(5)] small
      by (intro M) simp
    ultimately show ?thesis
      by (simp add: parse_members.simps(2) split: list.splits option.splits)
  qed
  ultimately show ?case by blast
qed

theorem parse_fuel_enough: "2 * length s < n \<Longrightarrow> parse_value n s = parse_json s"
proof -
  have *: "parse_value (m + Suc (2 * length s)) s = parse_value (Suc (2 * length s)) s" for m
  proof (induction m)
    case (Suc m)
    then show ?case using parse_fuel_step [of s "m + Suc (2 * length s)"] by simp
  qed simp
  assume "2 * length s < n"
  then show ?thesis
    using * [of "n - Suc (2 * length s)"] * [of 1] by (simp add: parse_json_def)
qed

section \<open>The round trip of a tree\<close>

definition follow :: "string \<Rightarrow> bool" where
  "follow r \<longleftrightarrow> r = [] \<or> is_space (hd r) \<or> hd r = CHR '','' \<or> hd r = CHR '']'' \<or> hd r = CHR ''}''"

definition num_ok :: "string \<Rightarrow> bool" where
  "num_ok lit \<longleftrightarrow> scan_num lit = Some (lit, [])"

definition raw_ok :: "string \<Rightarrow> bool" where
  "raw_ok raw \<longleftrightarrow> scan_str (raw @ [dquote]) = Some (raw, [])"

fun wf_tree :: "jtree \<Rightarrow> bool" where
  "wf_tree (TNum n) \<longleftrightarrow> num_ok n"
| "wf_tree (TStr s) \<longleftrightarrow> raw_ok s"
| "wf_tree (TArr xs) \<longleftrightarrow> (\<forall>x\<in>set xs. wf_tree x)"
| "wf_tree (TObj ms) \<longleftrightarrow> (\<forall>m\<in>set ms. raw_ok (fst m) \<and> wf_tree (snd m))"
| "wf_tree _ \<longleftrightarrow> True"

lemma scan_str_raw_ok: "raw_ok raw \<Longrightarrow> scan_str (raw @ dquote # t) = Some (raw, t)"
  using scan_str_append [of "raw @ [dquote]" raw "[]" t] by (simp add: raw_ok_def)

lemma raw_ok_json_quote [simp]: "raw_ok (json_quote s)"
  by (simp add: raw_ok_def)

lemma follow_not_digit: "follow r \<Longrightarrow> r \<noteq> [] \<Longrightarrow> \<not> is_digit (hd r)"
  by (auto simp: follow_def is_space_def is_digit_def)

lemma follow_not_num:
  "follow (c # r) \<Longrightarrow> c \<noteq> CHR ''.'' \<and> c \<noteq> CHR ''e'' \<and> c \<noteq> CHR ''E''"
  by (auto simp: follow_def is_space_def)

lemma scan_digits1_append:
  assumes "scan_digits1 s = Some (p, q)" and "q = [] \<Longrightarrow> follow t"
  shows "scan_digits1 (s @ t) = Some (p, q @ t)"
proof (cases "q = []")
  case True
  with assms(1) have all: "\<forall>c\<in>set s. is_digit c" and "p = s" "s \<noteq> []"
    by (auto simp: scan_digits1_def dropWhile_eq_Nil_conv takeWhile_eq_all_conv split: if_splits)
  moreover have "takeWhile is_digit t = []" and "dropWhile is_digit t = t"
    using follow_not_digit [OF assms(2) [OF True]] by (cases t; simp)+
  ultimately show ?thesis using True by (simp add: scan_digits1_def)
next
  case False
  with assms(1) have "\<exists>c\<in>set s. \<not> is_digit c"
    by (auto simp: scan_digits1_def dropWhile_eq_Nil_conv split: if_splits)
  with assms(1) show ?thesis
    by (auto simp: scan_digits1_def takeWhile_append dropWhile_append1 dropWhile_append split: if_splits)
qed

lemma scan_int_append:
  "scan_int s = Some (p, q) \<Longrightarrow> (q = [] \<Longrightarrow> follow t) \<Longrightarrow> scan_int (s @ t) = Some (p, q @ t)"
  by (cases s) (auto simp: scan_int_def dest: scan_digits1_append split: if_splits)

lemma scan_frac_follow: "follow t \<Longrightarrow> scan_frac t = Some ([], t)"
  by (cases t) (auto simp: scan_frac_def dest: follow_not_num)

lemma scan_exp_follow: "follow t \<Longrightarrow> scan_exp t = Some ([], t)"
  by (cases t) (auto simp: scan_exp_def dest: follow_not_num)

lemma scan_frac_append:
  "scan_frac s = Some (p, q) \<Longrightarrow> (q = [] \<Longrightarrow> follow t) \<Longrightarrow> scan_frac (s @ t) = Some (p, q @ t)"
proof (cases s)
  case Nil
  then show "scan_frac s = Some (p, q) \<Longrightarrow> (q = [] \<Longrightarrow> follow t) \<Longrightarrow> ?thesis"
    by (simp add: scan_frac_def [of "[]"] scan_frac_follow)
next
  case (Cons c r)
  then show "scan_frac s = Some (p, q) \<Longrightarrow> (q = [] \<Longrightarrow> follow t) \<Longrightarrow> ?thesis"
    by (auto simp: scan_frac_def dest: scan_digits1_append split: if_splits)
qed

lemma scan_exp_append:
  "scan_exp s = Some (p, q) \<Longrightarrow> (q = [] \<Longrightarrow> follow t) \<Longrightarrow> scan_exp (s @ t) = Some (p, q @ t)"
proof (cases s)
  case Nil
  then show "scan_exp s = Some (p, q) \<Longrightarrow> (q = [] \<Longrightarrow> follow t) \<Longrightarrow> ?thesis"
    by (simp add: scan_exp_def [of "[]"] scan_exp_follow)
next
  case (Cons c r)
  then show "scan_exp s = Some (p, q) \<Longrightarrow> (q = [] \<Longrightarrow> follow t) \<Longrightarrow> ?thesis"
    by (auto simp: scan_exp_def dest: scan_digits1_append split: if_splits list.splits)
qed

lemma scan_unsigned_append:
  assumes "scan_unsigned s = Some (p, [])" and "follow t"
  shows "scan_unsigned (s @ t) = Some (p, t)"
proof -
  from assms(1) obtain i r1 f r2 e where
    1: "scan_int s = Some (i, r1)" "scan_frac r1 = Some (f, r2)" "scan_exp r2 = Some (e, [])"
       "p = i @ f @ e"
    by (auto simp: scan_unsigned_def split: option.splits)
  then show ?thesis
    using scan_int_append [OF 1(1)] scan_frac_append [OF 1(2)] scan_exp_append [OF 1(3)] assms(2)
    by (simp add: scan_unsigned_def)
qed

lemma scan_num_append: "num_ok lit \<Longrightarrow> follow t \<Longrightarrow> scan_num (lit @ t) = Some (lit, t)"
  by (cases lit) (auto simp: num_ok_def scan_num_def dest: scan_unsigned_append split: if_splits)

lemma num_ok_hd: "num_ok lit \<Longrightarrow> \<exists>c r. lit = c # r \<and> (is_digit c \<or> c = CHR ''-'')"
  by (cases lit)
    (auto simp: num_ok_def scan_num_def scan_unsigned_def scan_int_def scan_digits1_def is_digit_def
      split: if_splits option.splits)

lemma num_ok_dec: "num_ok (dec n)"
proof (cases "n = 0")
  case True
  then have "dec n = ''0''" by (simp add: dec.simps [of 0] digit_char_def char_of_eq_byte)
  then show ?thesis by (simp add: num_ok_def scan_num_def scan_unsigned_def scan_int_def
        scan_frac_def scan_exp_def)
next
  case False
  obtain c r where cr: "dec n = c # r" using dec_nonempty [of n] by (cases "dec n") auto
  have all: "\<forall>d\<in>set (c # r). is_digit d" using dec_digits [of _ n] by (simp add: cr)
  have "c \<noteq> CHR ''0''" using dec_hd_nonzero [of n] False by (simp add: cr)
  moreover have "c \<noteq> CHR ''-''" using all by (auto simp: is_digit_def)
  moreover have "scan_digits1 (c # r) = Some (c # r, [])"
    using all by (simp add: scan_digits1_def)
  ultimately show ?thesis
    by (simp add: cr num_ok_def scan_num_def scan_unsigned_def scan_int_def scan_frac_def scan_exp_def)
qed

lemma num_ok_fmt_d: "num_ok (fmt_d w)"
proof -
  have "scan_unsigned (dec n) = Some (dec n, [])" for n
    using num_ok_dec [of n] minus_not_in_dec [of n]
    by (cases "dec n") (auto simp: num_ok_def scan_num_def split: if_splits)
  then show ?thesis
    using num_ok_dec by (simp add: fmt_d_def fmt_int_def num_ok_def scan_num_def)
qed

text \<open>The text of a float is a JSON number: an integer part, perhaps a fraction, perhaps an exponent.\<close>

definition digits :: "string \<Rightarrow> bool" where
  "digits ds \<longleftrightarrow> ds \<noteq> [] \<and> (\<forall>c\<in>set ds. is_digit c)"

lemma scan_digits1_digits:
  "digits ds \<Longrightarrow> r = [] \<or> \<not> is_digit (hd r) \<Longrightarrow> scan_digits1 (ds @ r) = Some (ds, r)"
  by (cases r; cases ds) (auto simp: scan_digits1_def digits_def)

lemma scan_unsigned_shape:
  assumes ip: "ip = ''0'' \<or> digits ip \<and> hd ip \<noteq> CHR ''0''"
    and f: "f = [] \<or> (\<exists>fp. f = CHR ''.'' # fp \<and> digits fp)"
    and e: "e = [] \<or> (\<exists>c ds. e = CHR ''e'' # c # ds \<and> (c = CHR ''+'' \<or> c = CHR ''-'') \<and> digits ds)"
  shows "scan_unsigned (ip @ f @ e) = Some (ip @ f @ e, [])"
proof -
  have "f @ e = [] \<or> \<not> is_digit (hd (f @ e))" using f e by (auto simp: digits_def)
  then have "scan_int (ip @ f @ e) = Some (ip, f @ e)"
    using ip scan_digits1_digits [of ip "f @ e"] by (cases ip) (auto simp: scan_int_def digits_def)
  moreover have "scan_frac (f @ e) = Some (f, e)"
    using f e scan_digits1_digits [of _ e] by (auto simp: scan_frac_def)
  moreover have "scan_exp e = Some (e, [])"
    using e scan_digits1_digits [of _ "[]"] by (auto simp: scan_exp_def)
  ultimately show ?thesis by (simp add: scan_unsigned_def)
qed

lemma num_ok_signed:
  "scan_unsigned u = Some (u, []) \<Longrightarrow> hd u \<noteq> CHR ''-'' \<Longrightarrow> num_ok ((if s then ''-'' else []) @ u)"
  by (cases u) (auto simp: num_ok_def scan_num_def scan_unsigned_def scan_int_def)

lemma digits_dec: "digits (dec n)" "0 < n \<Longrightarrow> hd (dec n) \<noteq> CHR ''0''"
  using dec_digits_all [of n] dec_hd_nonzero [of n] by (simp_all add: digits_def)

lemma scan_format_f: "scan_unsigned (format_f n k) = Some (format_f n k, [])"
proof -
  let ?ds = "dec n" and ?p = "nat (int (length (dec n)) + k)"
  consider "n = 0" | "0 < n" "0 \<le> k" | "0 < n" "k < 0" "0 < int (length ?ds) + k"
    | "0 < n" "k < 0" "int (length ?ds) + k \<le> 0" by linarith
  then show ?thesis
  proof cases
    case 1
    then show ?thesis using scan_unsigned_shape [of "''0''" "[]" "[]"] by (simp add: format_f_def)
  next
    case 2
    have "digits (?ds @ replicate (nat k) CHR ''0'')" "hd (?ds @ replicate (nat k) CHR ''0'') \<noteq> CHR ''0''"
      using digits_dec [of n] 2 by (auto simp: digits_def)
    with 2 show ?thesis
      using scan_unsigned_shape [of "?ds @ replicate (nat k) CHR ''0''" "[]" "[]"] by (simp add: format_f_def)
  next
    case 3
    have "digits (take ?p ?ds)" "hd (take ?p ?ds) \<noteq> CHR ''0''" "digits (drop ?p ?ds)"
      using digits_dec [of n] 3 by (auto simp: digits_def dest: in_set_takeD in_set_dropD)
    with 3 show ?thesis
      using scan_unsigned_shape [of "take ?p ?ds" "CHR ''.'' # drop ?p ?ds" "[]"]
      by (simp add: format_f_def Let_def)
  next
    case 4
    let ?z = "replicate (nat (- (int (length ?ds) + k))) CHR ''0'' @ ?ds"
    have "digits ?z" using digits_dec [of n] by (auto simp: digits_def)
    with 4 show ?thesis
      using scan_unsigned_shape [of "''0''" "CHR ''.'' # ?z" "[]"] by (simp add: format_f_def Let_def)
  qed
qed

lemma scan_format_e: "0 < n \<Longrightarrow> scan_unsigned (format_e n k) = Some (format_e n k, [])"
proof -
  assume n: "0 < n"
  obtain c fp where ds: "dec n = c # fp" using dec_nonempty [of n] by (cases "dec n") auto
  let ?ip = "[c]" and ?f = "if fp = [] then [] else CHR ''.'' # fp"
    and ?e = "CHR ''e'' # format_exponent (int (length (dec n)) + k - 1)"
  have "scan_unsigned (?ip @ ?f @ ?e) = Some (?ip @ ?f @ ?e, [])"
    using digits_dec [of n] n ds digits_dec(1)
    by (intro scan_unsigned_shape) (auto simp: digits_def format_exponent_def)
  then show ?thesis by (cases "fp = []") (simp_all add: format_e_def ds)
qed

lemma num_ok_format:
  assumes "float64_ok x"
  shows "num_ok (format_float64 x)"
proof (cases x)
  case (Float64 s m i)
  obtain n0 k0 where short: "shortest_decimal m i = (n0, k0)" by fastforce
  obtain n k where strip: "strip_zeros n0 k0 = (n, k)" by fastforce
  have pos: "m \<noteq> 0 \<Longrightarrow> 0 < n"
    using shortest_digits_positive [OF _ _ short strip] assms Float64 by blast
  have "num_ok ((if s then ''-'' else []) @ format_f n k)"
    using scan_format_f format_f_hd by (intro num_ok_signed) blast+
  moreover have "m \<noteq> 0 \<Longrightarrow> num_ok ((if s then ''-'' else []) @ format_e n k)"
    using scan_format_e [OF pos] format_e_hd by (intro num_ok_signed) blast+
  ultimately show ?thesis by (simp add: format_float64.simps Float64 short strip)
qed

lemma skip_ws_Cons [simp]: "\<not> is_space c \<Longrightarrow> skip_ws (c # r) = c # r"
  by (simp add: skip_ws_def)

lemma skip_ws_nl_indent [simp]: "skip_ws (nl_indent ind d @ s) = skip_ws s"
proof -
  have "\<forall>c\<in>set (nl_indent ind d). is_space c"
    by (auto simp: nl_indent_def is_space_def)
  then show ?thesis by (simp add: skip_ws_def dropWhile_append2)
qed

lemma skip_ws_idem [simp]: "skip_ws (skip_ws s) = skip_ws s"
  by (simp add: skip_ws_def)

lemma parse_skip_ws:
  "parse_value n (nl_indent ind d @ s) = parse_value n s"
  "parse_elems n (nl_indent ind d @ s) = parse_elems n s"
  "parse_members n (nl_indent ind d @ s) = parse_members n s"
proof -
  show V: "parse_value n (nl_indent ind d @ s) = parse_value n s" for n
    by (cases n) (simp_all add: parse_value.simps(2))
  show "parse_elems n (nl_indent ind d @ s) = parse_elems n s"
    by (cases n) (simp_all add: parse_elems.simps(2) V)
  show "parse_members n (nl_indent ind d @ s) = parse_members n s"
    by (cases n) (simp_all add: parse_members.simps(2))
qed

lemma parse_value_space [simp]: "parse_value n (CHR '' '' # s) = parse_value n s"
  by (cases n) (simp_all add: parse_value.simps(2) skip_ws_def is_space_def)

lemma follow_nl_indent [simp]:
  "c = CHR '','' \<or> c = CHR '']'' \<or> c = CHR ''}'' \<Longrightarrow> follow (nl_indent ind d @ c # r)"
  by (auto simp: follow_def nl_indent_def is_space_def)

lemma follow_Cons [simp]:
  "follow (CHR '','' # r)" "follow (CHR '']'' # r)" "follow (CHR ''}'' # r)" "follow []"
  "follow (newline # r)"
  by (auto simp: follow_def is_space_def)

lemma print_nonempty: "wf_tree t \<Longrightarrow> \<exists>c r. print_tree ind d t = c # r \<and> \<not> is_space c \<and> c \<noteq> CHR '']''"
  using num_ok_hd by (cases t) (fastforce simp: is_space_def is_digit_def)+

lemma print_elems_hd:
  "xs \<noteq> [] \<Longrightarrow> \<forall>x\<in>set xs. wf_tree x \<Longrightarrow>
   \<exists>c r. print_elems ind d xs = c # r \<and> \<not> is_space c \<and> c \<noteq> CHR '']''"
proof (cases xs)
  case (Cons x ys)
  assume "\<forall>x\<in>set xs. wf_tree x"
  with Cons obtain c r where "print_tree ind d x = c # r" "\<not> is_space c" "c \<noteq> CHR '']''"
    using print_nonempty [of x ind d] by auto
  with Cons show ?thesis by simp
qed simp

lemma parse_print_aux:
  "wf_tree t \<Longrightarrow> follow rest \<Longrightarrow> 2 * length (print_tree ind d t @ rest) < n \<Longrightarrow>
   parse_value n (print_tree ind d t @ rest) = Some (t, rest)"
  "\<forall>x\<in>set xs. wf_tree x \<Longrightarrow> xs \<noteq> [] \<Longrightarrow>
   2 * length (print_elems ind d xs @ nl_indent ind e @ CHR '']'' # rest) + 1 < n \<Longrightarrow>
   parse_elems n (print_elems ind d xs @ nl_indent ind e @ CHR '']'' # rest) = Some (xs, rest)"
  "\<forall>m\<in>set ms. raw_ok (fst m) \<and> wf_tree (snd m) \<Longrightarrow> ms \<noteq> [] \<Longrightarrow>
   2 * length (print_members ind d ms @ nl_indent ind e @ CHR ''}'' # rest) + 1 < n \<Longrightarrow>
   parse_members n (print_members ind d ms @ nl_indent ind e @ CHR ''}'' # rest) = Some (ms, rest)"
proof (induction ind d t and ind d xs and ind d ms arbitrary: rest n and e rest n and e rest n
    rule: print_tree_print_elems_print_members.induct)
  case (1 ind d)
  then obtain m where "n = Suc m" by (cases n) auto
  then show ?case by (simp add: parse_value.simps(2) is_space_def scan_lit_def)
next
  case (2 ind d b)
  then obtain m where "n = Suc m" by (cases n) auto
  then show ?case by (simp add: parse_value.simps(2) is_space_def scan_lit_def)
next
  case (3 ind d lit)
  then obtain m where n: "n = Suc m" by (cases n) auto
  from 3 obtain c r where c: "lit = c # r" "is_digit c \<or> c = CHR ''-''"
    using num_ok_hd [of lit] by auto
  then have c': "\<not> is_space c" "c \<noteq> dquote" "c \<noteq> CHR ''[''" "c \<noteq> CHR ''{''" "c \<noteq> CHR ''t''"
    "c \<noteq> CHR ''f''" "c \<noteq> CHR ''n''" by (auto simp: is_space_def is_digit_def)
  have "scan_num (lit @ rest) = Some (lit, rest)" using 3 by (simp add: scan_num_append)
  with c c' n show ?case by (simp add: parse_value.simps(2))
next
  case (4 ind d raw)
  then obtain m where "n = Suc m" by (cases n) auto
  with 4 show ?case by (simp add: parse_value.simps(2) is_space_def scan_str_raw_ok)
next
  case (5 ind d xs)
  then obtain m where n: "n = Suc m" by (cases n) auto
  show ?case
  proof (cases "xs = []")
    case True
    then show ?thesis by (simp add: n parse_value.simps(2) is_space_def)
  next
    case False
    let ?tail = "print_elems ind (Suc d) xs @ nl_indent ind d @ CHR '']'' # rest"
    have "parse_elems m ?tail = Some (xs, rest)"
      using False 5 n by (intro "5.IH") auto
    moreover obtain c r where "print_elems ind (Suc d) xs = c # r" "\<not> is_space c" "c \<noteq> CHR '']''"
      using print_elems_hd [OF False, of ind "Suc d"] 5 by auto
    then have "skip_ws ?tail = ?tail" "hd ?tail \<noteq> CHR '']''" by auto
    ultimately show ?thesis
      using False by (simp add: n parse_value.simps(2) is_space_def parse_skip_ws)
  qed
next
  case (6 ind d ms)
  then obtain m where n: "n = Suc m" by (cases n) auto
  show ?case
  proof (cases "ms = []")
    case True
    then show ?thesis by (simp add: n parse_value.simps(2) is_space_def)
  next
    case False
    let ?tail = "print_members ind (Suc d) ms @ nl_indent ind d @ CHR ''}'' # rest"
    have "parse_members m ?tail = Some (ms, rest)"
      using False 6 n by (intro "6.IH") auto
    moreover obtain r where "print_members ind (Suc d) ms = dquote # r"
      using False by (cases ms) auto
    then have "skip_ws ?tail = ?tail" "hd ?tail \<noteq> CHR ''}''" by (auto simp: is_space_def)
    ultimately show ?thesis
      using False by (simp add: n parse_value.simps(2) is_space_def parse_skip_ws)
  qed
next
  case (8 ind d x xs)
  then obtain m where n: "n = Suc m" by (cases n) auto
  show ?case
  proof (cases "xs = []")
    case True
    let ?rest = "nl_indent ind e @ CHR '']'' # rest"
    have "parse_value m (print_tree ind d x @ ?rest) = Some (x, ?rest)"
      using 8 n True by (intro "8.IH"(1)) auto
    then show ?thesis using True by (simp add: n parse_elems.simps(2) is_space_def)
  next
    case False
    let ?q = "nl_indent ind d @ print_elems ind d xs @ nl_indent ind e @ CHR '']'' # rest"
    have "parse_value m (print_tree ind d x @ CHR '','' # ?q) = Some (x, CHR '','' # ?q)"
      using 8 n False by (intro "8.IH"(1)) auto
    moreover have "parse_elems m ?q = Some (xs, rest)"
      unfolding parse_skip_ws using 8 n False by (intro "8.IH"(2)) auto
    ultimately show ?thesis using False by (simp add: n parse_elems.simps(2) is_space_def)
  qed
next
  case (10 ind d k ms)
  then obtain m where n: "n = Suc m" by (cases n) auto
  have raw: "scan_str (fst k @ dquote # t) = Some (fst k, t)" for t
    using 10 by (intro scan_str_raw_ok) auto
  show ?case
  proof (cases "ms = []")
    case True
    let ?rest = "nl_indent ind e @ CHR ''}'' # rest"
    have "parse_value m (print_tree ind d (snd k) @ ?rest) = Some (snd k, ?rest)"
      using 10 n True by (intro "10.IH"(1)) auto
    then show ?thesis
      using True by (cases ind) (simp_all add: n parse_members.simps(2) is_space_def raw colon_def)
  next
    case False
    let ?q = "nl_indent ind d @ print_members ind d ms @ nl_indent ind e @ CHR ''}'' # rest"
    have "parse_value m (print_tree ind d (snd k) @ CHR '','' # ?q) = Some (snd k, CHR '','' # ?q)"
      using 10 n False by (intro "10.IH"(1)) auto
    moreover have "parse_members m ?q = Some (ms, rest)"
      unfolding parse_skip_ws using 10 n False by (intro "10.IH"(2)) auto
    ultimately show ?thesis
      using False by (cases ind) (simp_all add: n parse_members.simps(2) is_space_def raw colon_def)
  qed
qed simp_all

theorem parse_print [codec]:
  "wf_tree t \<Longrightarrow> follow rest \<Longrightarrow> parse_json (print_tree ind d t @ rest) = Some (t, rest)"
  unfolding parse_json_def by (rule parse_print_aux) simp_all

lemma parse_json_space: "is_space c \<Longrightarrow> parse_json (c # s) = parse_json s"
proof -
  assume c: "is_space c"
  have "parse_value n (c # s) = parse_value n s" for n
    using c by (cases n) (simp_all add: parse_value.simps(2) skip_ws_def)
  then show ?thesis
    using parse_fuel_enough [of s "2 * length (c # s) + 2"] by (simp add: parse_json_def [of "c # s"])
qed

section \<open>Dynamic values\<close>

text \<open>
  A Go value of type \<^verbatim>\<open>any\<close> as the program builds and the decoder returns them: an \<^verbatim>\<open>int\<close> or
  \<^verbatim>\<open>int64\<close> the program puts there, a \<^verbatim>\<open>float64\<close> for every number the decoder reads. A
  \<^verbatim>\<open>map[string]any\<close> is an association list, which \<^verbatim>\<open>Marshal\<close> prints in the order of its keys.
\<close>

datatype any =
    ANil
  | ABool bool
  | AInt int
  | AFloat float64
  | AStr string
  | ASlice "any list"
  | AMap "(string \<times> any) list"

type_synonym gomap = "(string \<times> any) list"

fun tree_of_any :: "any \<Rightarrow> jtree" where
  "tree_of_any ANil = TNull"
| "tree_of_any (ABool b) = TBool b"
| "tree_of_any (AInt i) = TNum (fmt_int i)"
| "tree_of_any (AFloat x) = TNum (format_float64 x)"
| "tree_of_any (AStr s) = TStr (json_quote s)"
| "tree_of_any (ASlice xs) = TArr (map tree_of_any xs)"
| "tree_of_any (AMap m) =
     TObj (map (\<lambda>(k, t). (json_quote k, t))
       (sort_key fst (map (\<lambda>(k, v). (k, tree_of_any v)) m)))"

text \<open>The last of several equal keys wins.\<close>

definition put_all :: "(string \<times> 'v) list \<Rightarrow> (string \<times> 'v) list \<Rightarrow> (string \<times> 'v) list" where
  "put_all kvs m = fold (\<lambda>(k, v). AList.update k v) kvs m"

text \<open>\<open>None\<close> is the error of a number beyond the range of \<^verbatim>\<open>float64\<close>.\<close>

fun any_of_tree :: "jtree \<Rightarrow> any option" where
  "any_of_tree TNull = Some ANil"
| "any_of_tree (TBool b) = Some (ABool b)"
| "any_of_tree (TNum n) = map_option AFloat (ParseFloat n)"
| "any_of_tree (TStr raw) = Some (AStr (unquote raw))"
| "any_of_tree (TArr ts) = map_option ASlice (those (map any_of_tree ts))"
| "any_of_tree (TObj ms) =
     map_option (\<lambda>kvs. AMap (put_all kvs []))
       (those (map (\<lambda>(k, t). map_option (Pair (unquote k)) (any_of_tree t)) ms))"

definition tree_of_map :: "gomap option \<Rightarrow> jtree" where
  "tree_of_map m = (case m of None \<Rightarrow> TNull | Some kvs \<Rightarrow> tree_of_any (AMap kvs))"

text \<open>
  The values that survive a round trip: valid strings, floats, and maps given in the order of
  their keys. An \<^verbatim>\<open>int\<close> does not: it comes back as a \<^verbatim>\<open>float64\<close>.
\<close>

fun norm_any :: "any \<Rightarrow> bool" where
  "norm_any (AInt i) \<longleftrightarrow> False"
| "norm_any (AFloat x) \<longleftrightarrow> float64_ok x"
| "norm_any (AStr s) \<longleftrightarrow> valid_utf8 s"
| "norm_any (ASlice xs) \<longleftrightarrow> (\<forall>x\<in>set xs. norm_any x)"
| "norm_any (AMap m) \<longleftrightarrow> distinct (map fst m) \<and> sorted (map fst m) \<and>
     (\<forall>p\<in>set m. valid_utf8 (fst p) \<and> norm_any (snd p))"
| "norm_any _ \<longleftrightarrow> True"

definition norm_map :: "gomap option \<Rightarrow> bool" where
  "norm_map m \<longleftrightarrow> (case m of None \<Rightarrow> True | Some kvs \<Rightarrow> norm_any (AMap kvs))"

lemma update_new: "k \<notin> fst ` set m \<Longrightarrow> AList.update k v m = m @ [(k, v)]"
  by (induction m) auto

lemma put_all_distinct:
  "distinct (map fst kvs) \<Longrightarrow> fst ` set kvs \<inter> fst ` set m = {} \<Longrightarrow> put_all kvs m = m @ kvs"
proof (induction kvs arbitrary: m)
  case (Cons p kvs)
  obtain k v where p: "p = (k, v)" by (cases p)
  with Cons.prems have "AList.update k v m = m @ [(k, v)]" by (intro update_new) auto
  moreover have "put_all kvs (m @ [(k, v)]) = (m @ [(k, v)]) @ kvs"
    using Cons.prems p by (intro Cons.IH) auto
  ultimately show ?case by (simp add: put_all_def p)
qed (simp add: put_all_def)

lemma put_all_empty: "distinct (map fst kvs) \<Longrightarrow> put_all kvs [] = kvs"
  by (simp add: put_all_distinct)

lemma sort_key_sorted: "sorted (map f xs) \<Longrightarrow> sort_key f xs = xs"
  by (simp add: sort_key_id_if_sorted)

lemma tree_of_any_map:
  "sorted (map fst m) \<Longrightarrow>
   tree_of_any (AMap m) = TObj (map (\<lambda>(k, v). (json_quote k, tree_of_any v)) m)"
  by (simp add: sort_key_sorted comp_def split_def)

lemma those_map_Some: "(\<And>x. x \<in> set xs \<Longrightarrow> f x = Some (g x)) \<Longrightarrow> those (map f xs) = Some (map g xs)"
  by (induction xs) simp_all

theorem any_roundtrip [codec]: "norm_any a \<Longrightarrow> any_of_tree (tree_of_any a) = Some a"
proof (induction a rule: tree_of_any.induct)
  case (6 xs)
  then have "those (map (\<lambda>x. any_of_tree (tree_of_any x)) xs) = Some (map id xs)"
    by (intro those_map_Some) simp
  then show ?case by (simp add: comp_def)
next
  case (7 m)
  then have "those (map (\<lambda>p. map_option (Pair (unquote (json_quote (fst p)))) (any_of_tree (tree_of_any (snd p)))) m) =
      Some (map id m)"
    by (intro those_map_Some) auto
  then show ?case
    using "7.prems" by (simp add: tree_of_any_map put_all_empty comp_def split_def del: tree_of_any.simps)
qed (simp_all add: codec)

lemma wf_tree_of_any: "norm_any a \<Longrightarrow> wf_tree (tree_of_any a)"
proof (induction a rule: tree_of_any.induct)
  case (7 m)
  then have "\<forall>p\<in>set m. wf_tree (tree_of_any (snd p))" by auto
  then show ?case using "7.prems" by (auto simp: tree_of_any_map simp del: tree_of_any.simps)
qed (simp_all add: num_ok_format)

end
