(* ===== verification/Go_Struct.thy ===== *)
theory Go_Struct
  imports Go_Json
begin

text \<open>
  Decoding JSON into Go structs: the top level of \<^verbatim>\<open>json.Unmarshal\<close> and of \<^verbatim>\<open>json.Decoder\<close>, the
  matching of object keys with field names (exact or case-folded, as \<^verbatim>\<open>encoding/json\<close> does), and
  the decoding of a member into a field of type \<^verbatim>\<open>string\<close>, \<^verbatim>\<open>int64\<close> or \<^verbatim>\<open>map[string]any\<close>. A
  member \<^verbatim>\<open>null\<close> leaves a string or a number as it is and clears a map; a value of another type
  is an error. The decoder goes on after such an error and reports it at the end: for the
  callers, which then use nothing of the result, that is a failure.
\<close>

section \<open>Top-level values\<close>

fun json_depth :: "jtree \<Rightarrow> nat" where
  "json_depth (TArr ts) = Suc (fold max (map json_depth ts) 0)"
| "json_depth (TObj ms) = Suc (fold max (map (\<lambda>(k, t). json_depth t) ms) 0)"
| "json_depth _ = 0"

definition max_nesting_depth :: nat where
  "max_nesting_depth = 10000"

definition json_value :: "string \<Rightarrow> (jtree \<times> string) option" where
  "json_value s = (case parse_json s of None \<Rightarrow> None
     | Some (t, r) \<Rightarrow> if json_depth t \<le> max_nesting_depth then Some (t, r) else None)"

text \<open>\<^verbatim>\<open>json.Unmarshal\<close>: one value, then white space only.\<close>

definition json_Unmarshal :: "string \<Rightarrow> jtree option" where
  "json_Unmarshal s = (case json_value s of None \<Rightarrow> None
     | Some (t, r) \<Rightarrow> if skip_ws r = [] then Some t else None)"

lemma json_value_length: "json_value s = Some (t, r) \<Longrightarrow> length r < length s"
  by (auto simp: json_value_def parse_json_def dest: parse_length split: option.splits if_splits)

lemma json_value_print:
  "wf_tree t \<Longrightarrow> json_depth t \<le> max_nesting_depth \<Longrightarrow> follow rest \<Longrightarrow>
   json_value (print_tree ind d t @ rest) = Some (t, rest)"
  by (simp add: json_value_def parse_print)

lemma json_Unmarshal_print [codec]:
  "wf_tree t \<Longrightarrow> json_depth t \<le> max_nesting_depth \<Longrightarrow> json_Unmarshal (print_tree ind d t) = Some t"
  using json_value_print [of t "[]" ind d] by (simp add: json_Unmarshal_def skip_ws_def)

lemma fold_max_le: "fold max xs a \<le> n \<longleftrightarrow> a \<le> n \<and> (\<forall>x\<in>set xs. x \<le> n)" for n :: nat
  by (induction xs arbitrary: a) auto

lemma json_depth_obj_le:
  "json_depth (TObj ms) \<le> Suc n \<longleftrightarrow> (\<forall>m\<in>set ms. json_depth (snd m) \<le> n)"
  by (auto simp: fold_max_le split_def)

lemma json_value_space: "is_space c \<Longrightarrow> json_value (c # s) = json_value s"
  by (simp add: json_value_def parse_json_space)

section \<open>Field names\<close>

definition to_upper :: "char \<Rightarrow> char" where
  "to_upper c = (if 97 \<le> byte c \<and> byte c \<le> 122 then char_of (byte c - 32) else c)"

text \<open>
  \<^verbatim>\<open>foldName\<close>: ASCII letters to upper case; of the other runes only U+017F and U+212A fold to
  ASCII letters.
\<close>

function fold_name :: "string \<Rightarrow> string" where
  "fold_name [] = []"
| "fold_name (c # s) =
     (if take 2 (c # s) = [CHR 0xC5, CHR 0xBF] then CHR ''S'' # fold_name (drop 1 s)
      else if take 3 (c # s) = [CHR 0xE2, CHR 0x84, CHR 0xAA] then CHR ''K'' # fold_name (drop 2 s)
      else to_upper c # fold_name s)"
  by pat_completeness auto
termination
  by (relation "measure length") auto

declare fold_name.simps(2) [simp del]

definition field_is :: "string \<Rightarrow> string \<Rightarrow> bool" where
  "field_is name key \<longleftrightarrow> fold_name key = fold_name name"

lemma unquote_plain: "\<forall>c\<in>set s. byte c < 128 \<and> c \<noteq> backslash \<Longrightarrow> unquote s = s"
  by (induction s) (simp_all add: unquote.simps(2))

section \<open>Members\<close>

fun set_members :: "(string \<Rightarrow> jtree \<Rightarrow> 'a \<Rightarrow> 'a option) \<Rightarrow> (string \<times> jtree) list \<Rightarrow> 'a \<Rightarrow> 'a option"
where
  "set_members f [] x = Some x"
| "set_members f (m # ms) x =
     (case f (unquote (fst m)) (snd m) x of None \<Rightarrow> None | Some x' \<Rightarrow> set_members f ms x')"

definition decode_struct :: "(string \<Rightarrow> jtree \<Rightarrow> 'a \<Rightarrow> 'a option) \<Rightarrow> 'a \<Rightarrow> jtree \<Rightarrow> 'a option" where
  "decode_struct f x t =
     (case t of TObj ms \<Rightarrow> set_members f ms x | TNull \<Rightarrow> Some x | _ \<Rightarrow> None)"

definition decode_string :: "jtree \<Rightarrow> string \<Rightarrow> string option" where
  "decode_string t old =
     (case t of TStr raw \<Rightarrow> Some (unquote raw) | TNull \<Rightarrow> Some old | _ \<Rightarrow> None)"

text \<open>\<^verbatim>\<open>strconv.ParseInt(lit, 10, 64)\<close> on a JSON number.\<close>

definition parse_int64 :: "string \<Rightarrow> int64 option" where
  "parse_int64 lit =
     (let neg = (lit \<noteq> [] \<and> hd lit = CHR ''-''); ds = (if neg then tl lit else lit);
          i = (if neg then - int (undec ds) else int (undec ds))
      in if ds \<noteq> [] \<and> (\<forall>c\<in>set ds. is_digit c) \<and> - (2 ^ 63) \<le> i \<and> i < 2 ^ 63
         then Some (word_of_int i) else None)"

definition decode_int64 :: "jtree \<Rightarrow> int64 \<Rightarrow> int64 option" where
  "decode_int64 t old =
     (case t of TNum lit \<Rightarrow> parse_int64 lit | TNull \<Rightarrow> Some old | _ \<Rightarrow> None)"

definition decode_map :: "jtree \<Rightarrow> gomap option \<Rightarrow> gomap option option" where
  "decode_map t old =
     (case t of
        TObj ms \<Rightarrow>
          map_option (\<lambda>kvs. Some (put_all kvs (case old of None \<Rightarrow> [] | Some m \<Rightarrow> m)))
            (those (map (\<lambda>(k, u). map_option (Pair (unquote k)) (any_of_tree u)) ms))
      | TNull \<Rightarrow> Some None
      | _ \<Rightarrow> None)"

lemma decode_string_quote [simp, codec]:
  "decode_string (TStr (json_quote s)) old = Some (to_valid_utf8 s)"
  by (simp add: decode_string_def unquote_json_quote)

lemma parse_int64_fmt_d [simp, codec]: "parse_int64 (fmt_d w) = Some w"
proof -
  have range: "- (2 ^ 63) \<le> sint w" "sint w < 2 ^ 63"
    using sint_range_size [of w] by (simp_all add: word_size)
  have digits: "\<forall>c\<in>set (dec n). is_digit c" for n using dec_digits by blast
  have hd: "hd (dec n) \<noteq> CHR ''-''" for n
    using minus_not_in_dec [of n] hd_in_set [OF dec_nonempty [of n]] by metis
  show ?thesis
    using range digits hd
    by (auto simp: parse_int64_def fmt_d_def fmt_int_def Let_def nat_le_iff nat_less_iff)
qed

lemma decode_int64_fmt_d [simp, codec]: "decode_int64 (TNum (fmt_d w)) old = Some w"
  by (simp add: decode_int64_def)

lemma decode_map_tree [codec]:
  "norm_map m \<Longrightarrow> decode_map (tree_of_map m) None = Some m"
proof (cases m)
  case (Some kvs)
  assume "norm_map m"
  with Some have n: "norm_any (AMap kvs)" by (simp add: norm_map_def)
  then have "any_of_tree (tree_of_any (AMap kvs)) = Some (AMap kvs)" by (rule any_roundtrip)
  with n Some show ?thesis
    by (simp add: decode_map_def tree_of_map_def tree_of_any_map del: tree_of_any.simps(7))
qed (simp add: decode_map_def tree_of_map_def)

end
