(* ===== verification/Go_Time.thy ===== *)
theory Go_Time
  imports Go_Struct
begin

text \<open>
  \<^verbatim>\<open>time.Time\<close> as the program uses it: the clock reading with its zone offset, the layouts it
  formats with, and the JSON form (RFC 3339 with nanoseconds). The decoder's parser is
  \<^verbatim>\<open>time.Parse\<close> with the RFC 3339 layout, which \<^verbatim>\<open>Time.UnmarshalJSON\<close> falls back to and which accepts
  all that its fast path does: hours of one or two digits, a fraction after a period or a
  comma, an offset or \<^verbatim>\<open>Z\<close>.
\<close>

record gotime =
  year :: nat
  month :: nat
  day :: nat
  hour :: nat
  minute :: nat
  second :: nat
  nsec :: nat
  offset :: int

text \<open>The zero \<^verbatim>\<open>time.Time\<close>, of a struct that was not set; offsets are in minutes.\<close>

definition zero_time :: gotime where
  "zero_time = \<lparr>year = 1, month = 1, day = 1, hour = 0, minute = 0, second = 0, nsec = 0, offset = 0\<rparr>"

definition leap_year :: "nat \<Rightarrow> bool" where
  "leap_year y \<longleftrightarrow> y mod 4 = 0 \<and> (y mod 100 \<noteq> 0 \<or> y mod 400 = 0)"

definition days_in :: "nat \<Rightarrow> nat \<Rightarrow> nat" where
  "days_in m y =
     (if m = 2 then (if leap_year y then 29 else 28)
      else if m \<in> {4, 6, 9, 11} then 30 else 31)"

text \<open>A reading of the clock in UTC, as \<^verbatim>\<open>time.Now().UTC()\<close> returns it.\<close>

definition valid_time :: "gotime \<Rightarrow> bool" where
  "valid_time t \<longleftrightarrow> year t \<le> 9999 \<and> 1 \<le> month t \<and> month t \<le> 12 \<and> 1 \<le> day t \<and>
     day t \<le> days_in (month t) (year t) \<and> hour t < 24 \<and> minute t < 60 \<and> second t < 60 \<and>
     nsec t < 10 ^ 9 \<and> offset t = 0"

section \<open>Formatting\<close>

fun digits_fixed :: "nat \<Rightarrow> nat \<Rightarrow> string" where
  "digits_fixed 0 n = []"
| "digits_fixed (Suc k) n = digits_fixed k (n div 10) @ [digit_char (n mod 10)]"

definition trim_zeros :: "string \<Rightarrow> string" where
  "trim_zeros s = rev (dropWhile (\<lambda>c. c = CHR ''0'') (rev s))"

definition fmt_frac :: "nat \<Rightarrow> string" where
  "fmt_frac ns = (let f = trim_zeros (digits_fixed 9 ns) in if f = [] then [] else CHR ''.'' # f)"

definition fmt_zone :: "int \<Rightarrow> string" where
  "fmt_zone off =
     (if off = 0 then ''Z''
      else (if off < 0 then CHR ''-'' else CHR ''+'') #
        digits_fixed 2 (nat \<bar>off\<bar> div 60) @ '':'' @ digits_fixed 2 (nat \<bar>off\<bar> mod 60))"

definition fmt_year :: "nat \<Rightarrow> string" where
  "fmt_year y = (if y < 10 ^ 4 then digits_fixed 4 y else dec y)"

definition fmt_date :: "gotime \<Rightarrow> string" where
  "fmt_date t = fmt_year (year t) @ ''-'' @ digits_fixed 2 (month t) @ ''-'' @ digits_fixed 2 (day t)"

definition fmt_clock :: "gotime \<Rightarrow> string" where
  "fmt_clock t = digits_fixed 2 (hour t) @ '':'' @ digits_fixed 2 (minute t) @ '':'' @ digits_fixed 2 (second t)"

definition format_RFC3339 :: "gotime \<Rightarrow> string" where
  "format_RFC3339 t = fmt_date t @ ''T'' @ fmt_clock t @ fmt_zone (offset t)"

definition format_RFC3339Nano :: "gotime \<Rightarrow> string" where
  "format_RFC3339Nano t = fmt_date t @ ''T'' @ fmt_clock t @ fmt_frac (nsec t) @ fmt_zone (offset t)"

text \<open>The layouts \<^verbatim>\<open>2006-01-02 15:04:05\<close> and \<^verbatim>\<open>20060102T150405Z\<close>.\<close>

definition format_DateTime :: "gotime \<Rightarrow> string" where
  "format_DateTime t = fmt_date t @ '' '' @ fmt_clock t"

definition format_stamp :: "gotime \<Rightarrow> string" where
  "format_stamp t = fmt_year (year t) @ digits_fixed 2 (month t) @ digits_fixed 2 (day t) @ ''T'' @
     digits_fixed 2 (hour t) @ digits_fixed 2 (minute t) @ digits_fixed 2 (second t) @ ''Z''"

text \<open>\<^verbatim>\<open>Time.UTC\<close>: the same instant at offset 0 (years before 0 do not occur).\<close>

definition next_day :: "gotime \<Rightarrow> gotime" where
  "next_day t =
     (if day t < days_in (month t) (year t) then t\<lparr>day := Suc (day t)\<rparr>
      else if month t < 12 then t\<lparr>month := Suc (month t), day := 1\<rparr>
      else t\<lparr>year := Suc (year t), month := 1, day := 1\<rparr>)"

definition prev_day :: "gotime \<Rightarrow> gotime" where
  "prev_day t =
     (if 1 < day t then t\<lparr>day := day t - 1\<rparr>
      else if 1 < month t then t\<lparr>month := month t - 1, day := days_in (month t - 1) (year t)\<rparr>
      else t\<lparr>year := year t - 1, month := 12, day := 31\<rparr>)"

definition to_utc :: "gotime \<Rightarrow> gotime" where
  "to_utc t =
     (let m = int (hour t * 60 + minute t) - offset t;
          t0 = (if m < 0 then (prev_day ^^ nat ((- m + 1439) div 1440)) t
                else (next_day ^^ nat (m div 1440)) t);
          r = nat (m mod 1440)
      in t0\<lparr>hour := r div 60, minute := r mod 60, offset := 0\<rparr>)"

text \<open>
  \<^verbatim>\<open>Time.MarshalJSON\<close>: a year of more than four digits or a zone of a day or more is an error.
\<close>

definition marshal_time :: "gotime \<Rightarrow> jtree option" where
  "marshal_time t =
     (if year t \<le> 9999 \<and> \<bar>offset t\<bar> < 1440 then Some (TStr (format_RFC3339Nano t)) else None)"

section \<open>Parsing\<close>

definition read_digits :: "nat \<Rightarrow> string \<Rightarrow> (nat \<times> string) option" where
  "read_digits k s =
     (if k \<le> length s \<and> (\<forall>c\<in>set (take k s). is_digit c) then Some (undec (take k s), drop k s)
      else None)"

definition read_hour :: "string \<Rightarrow> (nat \<times> string) option" where
  "read_hour s = (case read_digits 2 s of Some r \<Rightarrow> Some r | None \<Rightarrow> read_digits 1 s)"

fun expect :: "char \<Rightarrow> string \<Rightarrow> string option" where
  "expect c [] = None"
| "expect c (d # s) = (if c = d then Some s else None)"

definition read_frac :: "string \<Rightarrow> nat \<times> string" where
  "read_frac s = (case s of
     c # d # r \<Rightarrow>
       if (c = CHR ''.'' \<or> c = CHR '','') \<and> is_digit d
       then (undec (take 9 (takeWhile is_digit (d # r) @ replicate 9 CHR ''0'')),
             dropWhile is_digit (d # r))
       else (0, s)
   | _ \<Rightarrow> (0, s))"

definition read_zone :: "string \<Rightarrow> int option" where
  "read_zone s =
     (if s = ''Z'' then Some 0
      else if length s \<noteq> 6 \<or> s ! 3 \<noteq> CHR '':'' \<or> (s ! 0 \<noteq> CHR ''+'' \<and> s ! 0 \<noteq> CHR ''-'') then None
      else case (read_digits 2 (drop 1 s), read_digits 2 (drop 4 s)) of
        (Some (h, _), Some (m, _)) \<Rightarrow>
          if h \<le> 24 \<and> m \<le> 60
          then Some (if s ! 0 = CHR ''-'' then - int (h * 60 + m) else int (h * 60 + m)) else None
      | _ \<Rightarrow> None)"

definition parse_date :: "string \<Rightarrow> (nat \<times> nat \<times> nat \<times> string) option" where
  "parse_date s =
     Option.bind (read_digits 4 s) (\<lambda>(y, s1). Option.bind (expect CHR ''-'' s1) (\<lambda>s2.
     Option.bind (read_digits 2 s2) (\<lambda>(mo, s3). Option.bind (expect CHR ''-'' s3) (\<lambda>s4.
     Option.bind (read_digits 2 s4) (\<lambda>(d, s5).
       if 1 \<le> mo \<and> mo \<le> 12 \<and> 1 \<le> d \<and> d \<le> days_in mo y then Some (y, mo, d, s5) else None)))))"

definition parse_clock :: "string \<Rightarrow> (nat \<times> nat \<times> nat \<times> string) option" where
  "parse_clock s =
     Option.bind (read_hour s) (\<lambda>(h, s1). Option.bind (expect CHR '':'' s1) (\<lambda>s2.
     Option.bind (read_digits 2 s2) (\<lambda>(mi, s3). Option.bind (expect CHR '':'' s3) (\<lambda>s4.
     Option.bind (read_digits 2 s4) (\<lambda>(se, s5).
       if h < 24 \<and> mi < 60 \<and> se < 60 then Some (h, mi, se, s5) else None)))))"

definition parse_time :: "string \<Rightarrow> gotime option" where
  "parse_time s =
     Option.bind (parse_date s) (\<lambda>(y, mo, d, s1). Option.bind (expect CHR ''T'' s1) (\<lambda>s2.
     Option.bind (parse_clock s2) (\<lambda>(h, mi, se, s3).
       case read_frac s3 of (ns, s4) \<Rightarrow>
         map_option (\<lambda>off. \<lparr>year = y, month = mo, day = d, hour = h, minute = mi, second = se,
           nsec = ns, offset = off\<rparr>) (read_zone s4))))"

text \<open>\<^verbatim>\<open>Time.UnmarshalJSON\<close> looks at the raw bytes of the value.\<close>

definition decode_time :: "jtree \<Rightarrow> gotime \<Rightarrow> gotime option" where
  "decode_time t old = (case t of TStr raw \<Rightarrow> parse_time raw | TNull \<Rightarrow> Some old | _ \<Rightarrow> None)"

section \<open>The round trip of a clock reading\<close>

lemma length_digits_fixed [simp]: "length (digits_fixed k n) = k"
  by (induction k arbitrary: n) simp_all

lemma digits_fixed_digits: "c \<in> set (digits_fixed k n) \<Longrightarrow> is_digit c"
  by (induction k arbitrary: n) auto

lemma undec_digits_fixed: "n < 10 ^ k \<Longrightarrow> undec (digits_fixed k n) = n"
proof (induction k arbitrary: n)
  case (Suc k)
  then have "n div 10 < 10 ^ k" by (simp add: less_mult_imp_div_less mult.commute)
  then show ?case using Suc by (simp add: undec_snoc)
qed (simp add: undec_def)

lemma read_digits_fixed [simp]:
  "n < 10 ^ k \<Longrightarrow> read_digits k (digits_fixed k n @ r) = Some (n, r)"
  using digits_fixed_digits by (auto simp: read_digits_def undec_digits_fixed)

lemma read_hour_fixed [simp]: "n < 24 \<Longrightarrow> read_hour (digits_fixed 2 n @ r) = Some (n, r)"
  by (simp add: read_hour_def)

lemma dropWhile_eq_replicate:
  "takeWhile (\<lambda>c. c = x) s = replicate (length (takeWhile (\<lambda>c. c = x) s)) x"
  by (induction s) simp_all

lemma trim_zeros_pad: "s = trim_zeros s @ replicate (length s - length (trim_zeros s)) CHR ''0''"
proof -
  let ?z = "takeWhile (\<lambda>c. c = CHR ''0'') (rev s)"
  have "rev s = ?z @ dropWhile (\<lambda>c. c = CHR ''0'') (rev s)" by simp
  then have "s = trim_zeros s @ rev ?z"
    unfolding trim_zeros_def by (metis rev_append rev_rev_ident)
  moreover have "rev ?z = replicate (length ?z) CHR ''0''"
    by (subst dropWhile_eq_replicate) simp
  ultimately have eq: "s = trim_zeros s @ replicate (length ?z) CHR ''0''" by simp
  then have "length s = length (trim_zeros s) + length ?z"
    by (metis length_append length_replicate)
  with eq show ?thesis by simp
qed

lemma read_frac_fmt:
  assumes "ns < 10 ^ 9" and "r \<noteq> []" and "\<not> is_digit (hd r)" and "hd r \<noteq> CHR ''.''" and "hd r \<noteq> CHR '',''"
  shows "read_frac (fmt_frac ns @ r) = (ns, r)"
proof -
  let ?d = "digits_fixed 9 ns" and ?f = "trim_zeros (digits_fixed 9 ns)"
  have pad: "?d = ?f @ replicate (9 - length ?f) CHR ''0''"
    using trim_zeros_pad [of ?d] by simp
  then have set: "set ?f \<subseteq> set ?d" by (metis Un_upper1 set_append)
  then have dig: "\<forall>c\<in>set ?f. is_digit c" using digits_fixed_digits by blast
  have val: "undec ?d = ns" using assms(1) by (rule undec_digits_fixed)
  have tw: "takeWhile is_digit (?f @ r) = ?f" "dropWhile is_digit (?f @ r) = r"
    using dig assms(2,3) by (cases r; simp)+
  show ?thesis
  proof (cases "?f = []")
    case True
    with pad have "?d = replicate 9 CHR ''0''" by simp
    moreover have "undec (replicate 9 CHR ''0'') = 0"
      by (simp add: undec_def digit_val_def eval_nat_numeral)
    ultimately have "ns = 0" using val by simp
    with True assms(2,4,5) show ?thesis
      by (cases r) (auto simp: fmt_frac_def Let_def read_frac_def split: list.splits)
  next
    case False
    then obtain d f where df: "?f = d # f" by (cases ?f) auto
    have "length ?f \<le> 9" using pad by (metis le_add1 length_append length_digits_fixed)
    then have "take 9 (?f @ replicate 9 CHR ''0'') = ?d" by (subst (2) pad) simp
    with tw dig val df show ?thesis
      by (simp add: fmt_frac_def Let_def read_frac_def)
  qed
qed

lemma read_zone_Z [simp]: "read_zone (fmt_zone 0) = Some 0"
  by (simp add: read_zone_def fmt_zone_def)

lemma parse_date_fmt:
  "valid_time t \<Longrightarrow> parse_date (fmt_date t @ r) = Some (year t, month t, day t, r)"
proof -
  assume v: "valid_time t"
  have "days_in (month t) (year t) < 100" by (simp add: days_in_def)
  with v show ?thesis by (simp add: valid_time_def parse_date_def fmt_date_def fmt_year_def)
qed

lemma parse_clock_fmt:
  "valid_time t \<Longrightarrow> parse_clock (fmt_clock t @ r) = Some (hour t, minute t, second t, r)"
  by (simp add: valid_time_def parse_clock_def fmt_clock_def)

theorem parse_time_format [codec]: "valid_time t \<Longrightarrow> parse_time (format_RFC3339Nano t) = Some t"
proof -
  assume v: "valid_time t"
  have "read_frac (fmt_frac (nsec t) @ fmt_zone 0) = (nsec t, fmt_zone 0)"
    using v by (intro read_frac_fmt) (auto simp: valid_time_def fmt_zone_def is_digit_def)
  then show ?thesis
    using v by (simp add: parse_time_def format_RFC3339Nano_def parse_date_fmt parse_clock_fmt)
      (simp add: valid_time_def)
qed

lemma raw_ok_plain:
  "\<forall>c\<in>set s. 32 \<le> byte c \<and> c \<noteq> dquote \<and> c \<noteq> backslash \<Longrightarrow> raw_ok s"
proof -
  have "scan_str (s @ [dquote]) = Some (s, [])"
    if "\<forall>c\<in>set s. 32 \<le> byte c \<and> c \<noteq> dquote \<and> c \<noteq> backslash"
    using that by (induction s) (simp_all add: scan_str.simps(2))
  then show "\<forall>c\<in>set s. 32 \<le> byte c \<and> c \<noteq> dquote \<and> c \<noteq> backslash \<Longrightarrow> raw_ok s"
    by (simp add: raw_ok_def)
qed

lemma digit_plain: "is_digit c \<Longrightarrow> 32 \<le> byte c \<and> c \<noteq> dquote \<and> c \<noteq> backslash"
  by (auto simp: is_digit_def)

lemma format_RFC3339Nano_plain:
  assumes "valid_time t" "c \<in> set (format_RFC3339Nano t)"
  shows "32 \<le> byte c \<and> c \<noteq> dquote \<and> c \<noteq> backslash"
proof -
  have "set (trim_zeros (digits_fixed 9 n)) \<subseteq> set (digits_fixed 9 n)" for n
    by (metis Un_upper1 set_append trim_zeros_pad)
  then have frac: "is_digit c \<or> c = CHR ''.''" if "c \<in> set (fmt_frac n)" for n
    using that digits_fixed_digits by (fastforce simp: fmt_frac_def Let_def split: if_splits)
  from assms have "is_digit c \<or> c \<in> set ''-T:.Z''"
    using digits_fixed_digits frac
    by (auto simp: format_RFC3339Nano_def fmt_date_def fmt_year_def fmt_clock_def fmt_zone_def valid_time_def)
  then show ?thesis using digit_plain by auto
qed

lemma marshal_time_valid: "valid_time t \<Longrightarrow> marshal_time t = Some (TStr (format_RFC3339Nano t))"
  by (simp add: marshal_time_def valid_time_def)

lemma raw_ok_time: "valid_time t \<Longrightarrow> raw_ok (format_RFC3339Nano t)"
  using format_RFC3339Nano_plain by (intro raw_ok_plain) blast

lemma decode_time_format [simp, codec]:
  "valid_time t \<Longrightarrow> decode_time (TStr (format_RFC3339Nano t)) old = Some t"
  by (simp add: decode_time_def parse_time_format)

end
