(* ===== verification/Go_OS.thy ===== *)
theory Go_OS
  imports Go_Time
begin

text \<open>
  The operating system as the program sees it through \<^verbatim>\<open>os\<close>, \<^verbatim>\<open>path/filepath\<close>, \<^verbatim>\<open>time.Now\<close> and
  \<^verbatim>\<open>os/exec\<close>: an explicit state that every call takes and returns.
  \<^item> Files and directories are named by their cleaned paths (no symbolic links).
  \<^item> Every call may fail. What will fail is the environment's choice, kept in the state as the
    list of the coming calls' faults: \<^term>\<open>None\<close> lets the next call run, a fault makes it return
    an error with the given text; a write or a truncating write that fails has already put
    that many bytes in the file. When the list is used up no further call fails.
  \<^item> The clock is a function of the number of readings so far, any function. The program always
    reads it as \<^verbatim>\<open>time.Now().UTC()\<close>, so a reading is in UTC.
  \<^item> Commands run by \<^verbatim>\<open>exec.Command\<close> are recorded in the order they run.
\<close>

section \<open>Paths\<close>

fun split_slash :: "string \<Rightarrow> string list" where
  "split_slash [] = [[]]"
| "split_slash (c # s) =
     (if c = CHR ''/'' then [] # split_slash s
      else (c # hd (split_slash s)) # tl (split_slash s))"

fun join_slash :: "string list \<Rightarrow> string" where
  "join_slash [] = []"
| "join_slash [e] = e"
| "join_slash (e # es) = e @ CHR ''/'' # join_slash es"

definition rooted :: "string \<Rightarrow> bool" where
  "rooted p \<longleftrightarrow> p \<noteq> [] \<and> hd p = CHR ''/''"

text \<open>The elements kept so far are held in reverse.\<close>

fun clean_elems :: "bool \<Rightarrow> string list \<Rightarrow> string list \<Rightarrow> string list" where
  "clean_elems root out [] = rev out"
| "clean_elems root out (e # es) =
     (if e = [] \<or> e = ''.'' then clean_elems root out es
      else if e = ''..'' then
        (if out \<noteq> [] \<and> hd out \<noteq> ''..'' then clean_elems root (tl out) es
         else if root then clean_elems root out es
         else clean_elems root (e # out) es)
      else clean_elems root (e # out) es)"

definition filepath_Clean :: "string \<Rightarrow> string" where
  "filepath_Clean p =
     (let es = clean_elems (rooted p) [] (split_slash p) in
      if rooted p then CHR ''/'' # join_slash es
      else if es = [] then ''.'' else join_slash es)"

definition filepath_Join :: "string \<Rightarrow> string \<Rightarrow> string" where
  "filepath_Join a b =
     (if a = [] \<and> b = [] then []
      else if a = [] then filepath_Clean b
      else if b = [] then filepath_Clean a
      else filepath_Clean (a @ CHR ''/'' # b))"

definition filepath_Dir :: "string \<Rightarrow> string" where
  "filepath_Dir p = filepath_Clean (rev (dropWhile (\<lambda>c. c \<noteq> CHR ''/'') (rev p)))"

definition filepath_Base :: "string \<Rightarrow> string" where
  "filepath_Base p =
     (if p = [] then ''.''
      else let q = dropWhile (\<lambda>c. c = CHR ''/'') (rev p) in
        if q = [] then ''/'' else rev (takeWhile (\<lambda>c. c \<noteq> CHR ''/'') q))"

definition filepath_Ext :: "string \<Rightarrow> string" where
  "filepath_Ext p =
     (let q = rev (takeWhile (\<lambda>c. c \<noteq> CHR ''/'') (rev p)) in
      if CHR ''.'' \<in> set q then CHR ''.'' # rev (takeWhile (\<lambda>c. c \<noteq> CHR ''.'') (rev q)) else [])"

text \<open>The directories above a path and the path itself, outermost first.\<close>

definition path_prefixes :: "string \<Rightarrow> string list" where
  "path_prefixes p =
     (let es = filter (\<lambda>e. e \<noteq> []) (split_slash p);
          root = (if rooted p then ''/'' else [])
      in map (\<lambda>n. root @ join_slash (take n es)) [1 ..< Suc (length es)])"

section \<open>The state\<close>

datatype fault = Fault (fault_text: string) (fault_kept: nat)

record os =
  files :: "(string \<times> string) list"
  dirs :: "string list"
  faults :: "fault option list"
  clock :: "nat \<Rightarrow> gotime"
  ticks :: nat
  env :: "(string \<times> string) list"
  hostname :: string
  pid :: nat
  execs :: "string list list"
  stdout :: string
  stderr :: string

definition file_at :: "os \<Rightarrow> string \<Rightarrow> string option" where
  "file_at s p = map_of (files s) (filepath_Clean p)"

definition set_file :: "string \<Rightarrow> string \<Rightarrow> os \<Rightarrow> os" where
  "set_file p d s = s\<lparr>files := AList.update (filepath_Clean p) d (files s)\<rparr>"

definition dir_exists :: "os \<Rightarrow> string \<Rightarrow> bool" where
  "dir_exists s p \<longleftrightarrow> filepath_Clean p \<in> set (''.'' # ''/'' # dirs s)"

definition take_fault :: "os \<Rightarrow> fault option \<times> os" where
  "take_fault s = (case faults s of [] \<Rightarrow> (None, s) | f # fs \<Rightarrow> (f, s\<lparr>faults := fs\<rparr>))"

section \<open>Calls\<close>

definition time_Now :: "os \<Rightarrow> gotime \<times> os" where
  "time_Now s = (clock s (ticks s), s\<lparr>ticks := Suc (ticks s)\<rparr>)"

text \<open>The error for a path that is no file: the empty path is not found, a directory is one.\<close>

definition not_a_file :: "string \<Rightarrow> errno" where
  "not_a_file p = (if p = [] then ENOENT else Errno ''is a directory'')"

text \<open>
  The error for a path that names nothing: below a regular file it is \<^verbatim>\<open>ENOTDIR\<close>, which
  \<^verbatim>\<open>errors.Is(err, os.ErrNotExist)\<close> does not accept.
\<close>

definition below_file :: "os \<Rightarrow> string \<Rightarrow> bool" where
  "below_file s p \<longleftrightarrow> \<not> dir_exists s (filepath_Dir p) \<and>
     (\<exists>q\<in>set (path_prefixes (filepath_Clean (filepath_Dir p))). file_at s q \<noteq> None)"

definition missing :: "os \<Rightarrow> string \<Rightarrow> errno" where
  "missing s p = (if below_file s p then Errno ''not a directory'' else ENOENT)"

definition os_ReadFile :: "string \<Rightarrow> os \<Rightarrow> (go_error + string) \<times> os" where
  "os_ReadFile p s =
     (case take_fault s of
        (Some f, s1) \<Rightarrow> (Inl (PathError ''open'' p (Errno (fault_text f))), s1)
      | (None, s1) \<Rightarrow>
          if dir_exists s1 p then (Inl (PathError (if p = [] then ''open'' else ''read'') p (not_a_file p)), s1)
          else (case file_at s1 p of
                  None \<Rightarrow> (Inl (PathError ''open'' p (missing s1 p)), s1)
                | Some d \<Rightarrow> (Inr d, s1)))"

definition os_MkdirAll :: "string \<Rightarrow> os \<Rightarrow> go_error option \<times> os" where
  "os_MkdirAll p s =
     (case take_fault s of
        (Some f, s1) \<Rightarrow> (Some (PathError ''mkdir'' p (Errno (fault_text f))), s1)
      | (None, s1) \<Rightarrow>
          if p = [] then (Some (PathError ''mkdir'' p ENOENT), s1)
          else if \<exists>q\<in>set (path_prefixes (filepath_Clean p)). file_at s1 q \<noteq> None
          then (Some (PathError ''mkdir'' p (Errno ''not a directory'')), s1)
          else (None, s1\<lparr>dirs := path_prefixes (filepath_Clean p) @ dirs s1\<rparr>))"

text \<open>
  Opening a file for writing: its directory must exist. \<open>open_file p create s\<close> applies \<open>create\<close> to
  the contents the file had, if any.
\<close>

definition open_file :: "string \<Rightarrow> (string option \<Rightarrow> string) \<Rightarrow> os \<Rightarrow> go_error option \<times> os" where
  "open_file p create s =
     (case take_fault s of
        (Some f, s1) \<Rightarrow> (Some (PathError ''open'' p (Errno (fault_text f))), s1)
      | (None, s1) \<Rightarrow>
          if dir_exists s1 p then (Some (PathError ''open'' p (not_a_file p)), s1)
          else if \<not> dir_exists s1 (filepath_Dir p) then (Some (PathError ''open'' p (missing s1 p)), s1)
          else (None, set_file p (create (file_at s1 p)) s1))"

definition os_OpenAppend :: "string \<Rightarrow> os \<Rightarrow> go_error option \<times> os" where
  "os_OpenAppend p s = open_file p (\<lambda>d. case d of None \<Rightarrow> [] | Some d \<Rightarrow> d) s"

definition os_OpenTrunc :: "string \<Rightarrow> os \<Rightarrow> go_error option \<times> os" where
  "os_OpenTrunc p s = open_file p (\<lambda>d. []) s"

definition file_Write :: "string \<Rightarrow> string \<Rightarrow> os \<Rightarrow> go_error option \<times> os" where
  "file_Write p data s =
     (let old = (\<lambda>t. case file_at t p of None \<Rightarrow> [] | Some d \<Rightarrow> d) in
      case take_fault s of
        (Some f, s1) \<Rightarrow>
          (Some (PathError ''write'' p (Errno (fault_text f))),
           set_file p (old s1 @ take (fault_kept f) data) s1)
      | (None, s1) \<Rightarrow> (None, set_file p (old s1 @ data) s1))"

definition file_Sync :: "string \<Rightarrow> os \<Rightarrow> go_error option \<times> os" where
  "file_Sync p s =
     (case take_fault s of
        (Some f, s1) \<Rightarrow> (Some (PathError ''sync'' p (Errno (fault_text f))), s1)
      | (None, s1) \<Rightarrow> (None, s1))"

definition file_Close :: "string \<Rightarrow> os \<Rightarrow> go_error option \<times> os" where
  "file_Close p s =
     (case take_fault s of
        (Some f, s1) \<Rightarrow> (Some (PathError ''close'' p (Errno (fault_text f))), s1)
      | (None, s1) \<Rightarrow> (None, s1))"

text \<open>\<^verbatim>\<open>os.WriteFile\<close>: open with truncation, write, close; the first error is returned.\<close>

definition os_WriteFile :: "string \<Rightarrow> string \<Rightarrow> os \<Rightarrow> go_error option \<times> os" where
  "os_WriteFile p data s =
     (case os_OpenTrunc p s of
        (Some e, s1) \<Rightarrow> (Some e, s1)
      | (None, s1) \<Rightarrow>
          (case file_Write p data s1 of (we, s2) \<Rightarrow>
           case file_Close p s2 of (ce, s3) \<Rightarrow>
             ((case we of Some e \<Rightarrow> Some e | None \<Rightarrow> ce), s3)))"

text \<open>\<^verbatim>\<open>os.ReadDir\<close>: the entries of a directory by name, with \<^verbatim>\<open>IsDir()\<close>.\<close>

definition entries_of :: "os \<Rightarrow> string \<Rightarrow> (string \<times> bool) list" where
  "entries_of s p =
     (let d = filepath_Clean p;
          names = (\<lambda>ps. map filepath_Base (filter (\<lambda>q. filepath_Dir q = d \<and> q \<noteq> d) ps))
      in sort_key fst (map (\<lambda>n. (n, False)) (names (map fst (files s))) @
           map (\<lambda>n. (n, True)) (names (remdups (dirs s)))))"

definition os_ReadDir :: "string \<Rightarrow> os \<Rightarrow> (go_error + (string \<times> bool) list) \<times> os" where
  "os_ReadDir p s =
     (case take_fault s of
        (Some f, s1) \<Rightarrow> (Inl (PathError ''open'' p (Errno (fault_text f))), s1)
      | (None, s1) \<Rightarrow>
          if dir_exists s1 p
            then (if p = [] then Inl (PathError ''open'' p ENOENT) else Inr (entries_of s1 p), s1)
          else if file_at s1 p \<noteq> None
            then (Inl (PathError ''readdir'' p (Errno ''not a directory'')), s1)
          else (Inl (PathError ''open'' p (missing s1 p)), s1))"

section \<open>Laws of the calls\<close>

lemma file_at_set_file [simp]:
  "file_at (set_file p d s) q = (if filepath_Clean q = filepath_Clean p then Some d else file_at s q)"
  by (simp add: file_at_def set_file_def update_conv')

lemma set_file_frame [simp]:
  "dirs (set_file p d s) = dirs s" "faults (set_file p d s) = faults s"
  "clock (set_file p d s) = clock s" "ticks (set_file p d s) = ticks s"
  "env (set_file p d s) = env s" "execs (set_file p d s) = execs s"
  "stdout (set_file p d s) = stdout s" "stderr (set_file p d s) = stderr s"
  "hostname (set_file p d s) = hostname s" "pid (set_file p d s) = pid s"
  by (simp_all add: set_file_def)

lemma set_file_again [simp]: "set_file p d (set_file p e s) = set_file p d s"
  by (simp add: set_file_def update_last)

lemma dir_exists_set_file [simp]: "dir_exists (set_file p d s) q = dir_exists s q"
  by (simp add: dir_exists_def)

lemma file_at_update [simp]:
  "file_at (s\<lparr>faults := f\<rparr>) p = file_at s p" "file_at (s\<lparr>ticks := n\<rparr>) p = file_at s p"
  "file_at (s\<lparr>dirs := ds\<rparr>) p = file_at s p" "file_at (s\<lparr>execs := xs\<rparr>) p = file_at s p"
  by (simp_all add: file_at_def)

lemma dir_exists_update [simp]:
  "dir_exists (s\<lparr>faults := f\<rparr>) p = dir_exists s p" "dir_exists (s\<lparr>ticks := n\<rparr>) p = dir_exists s p"
  "dir_exists (s\<lparr>files := fs\<rparr>) p = dir_exists s p" "dir_exists (s\<lparr>execs := xs\<rparr>) p = dir_exists s p"
  by (simp_all add: dir_exists_def)

lemma below_file_update [simp]:
  "below_file (s\<lparr>faults := f\<rparr>) p = below_file s p" "below_file (s\<lparr>ticks := n\<rparr>) p = below_file s p"
  "below_file (s\<lparr>execs := xs\<rparr>) p = below_file s p" "below_file (s\<lparr>stdout := t\<rparr>) p = below_file s p"
  "below_file (s\<lparr>stderr := t\<rparr>) p = below_file s p"
  by (simp_all add: below_file_def dir_exists_def file_at_def)

lemma missing_update [simp]:
  "missing (s\<lparr>stdout := t\<rparr>) p = missing s p" "missing (s\<lparr>stderr := t\<rparr>) p = missing s p"
  by (simp_all add: missing_def)

lemma missing_ENOENT [simp]: "missing s p = ENOENT \<longleftrightarrow> \<not> below_file s p"
  by (simp add: missing_def)

lemma not_below_file: "dir_exists s (filepath_Dir p) \<Longrightarrow> \<not> below_file s p"
  by (simp add: below_file_def)

lemma take_fault_none [simp]: "faults s = [] \<Longrightarrow> take_fault s = (None, s)"
  by (simp add: take_fault_def)

lemma take_fault_frame:
  "take_fault s = (f, s') \<Longrightarrow> s' = s\<lparr>faults := tl (faults s)\<rparr>"
  by (auto simp: take_fault_def split: list.splits)

lemma file_Write_ok:
  "faults s = [] \<Longrightarrow> file_at s p = Some old \<Longrightarrow> file_Write p data s = (None, set_file p (old @ data) s)"
  by (simp add: file_Write_def)

lemma file_Sync_ok [simp]: "faults s = [] \<Longrightarrow> file_Sync p s = (None, s)"
  by (simp add: file_Sync_def)

lemma file_Close_ok [simp]: "faults s = [] \<Longrightarrow> file_Close p s = (None, s)"
  by (simp add: file_Close_def)

lemma os_ReadFile_ok:
  "faults s = [] \<Longrightarrow> \<not> dir_exists s p \<Longrightarrow> file_at s p = Some d \<Longrightarrow> os_ReadFile p s = (Inr d, s)"
  by (simp add: os_ReadFile_def)

text \<open>Reading never changes what is stored.\<close>

lemma os_ReadFile_frame: "os_ReadFile p s = (r, s') \<Longrightarrow> s' = s\<lparr>faults := tl (faults s)\<rparr>"
  by (auto simp: os_ReadFile_def dest: take_fault_frame split: prod.splits option.splits if_splits)

section \<open>A directory that was made exists\<close>

lemma split_slash_nonempty [simp]: "split_slash s \<noteq> []"
  by (cases s) simp_all

lemma split_slash_code [code]:
  "split_slash [] = [[]]"
  "split_slash (c # s) =
     (let es = split_slash s in if c = CHR ''/'' then [] # es else case es of [] \<Rightarrow> [[c]] | e # es' \<Rightarrow> (c # e) # es')"
  by (auto simp: Let_def split: list.splits)

lemma set_hd_tl: "xs \<noteq> [] \<Longrightarrow> set xs = insert (hd xs) (set (tl xs))"
  by (cases xs) simp_all

lemma split_slash_no_slash: "e \<in> set (split_slash s) \<Longrightarrow> CHR ''/'' \<notin> set e"
  by (induction s arbitrary: e) (auto simp: set_hd_tl [OF split_slash_nonempty] split: if_splits)

lemma split_slash_plain: "CHR ''/'' \<notin> set e \<Longrightarrow> split_slash e = [e]"
  by (induction e) auto

lemma split_slash_append:
  "CHR ''/'' \<notin> set e \<Longrightarrow> split_slash (e @ CHR ''/'' # s) = e # split_slash s"
  by (induction e) auto

lemma split_join:
  "es \<noteq> [] \<Longrightarrow> \<forall>e\<in>set es. CHR ''/'' \<notin> set e \<Longrightarrow> split_slash (join_slash es) = es"
  by (induction es rule: join_slash.induct) (simp_all add: split_slash_plain split_slash_append)

lemma clean_elems_mem:
  "x \<in> set (clean_elems root out es) \<Longrightarrow> x \<in> set out \<or> x \<in> set es \<and> x \<noteq> []"
proof (induction root out es rule: clean_elems.induct)
  case (2 root out e es)
  have "y \<in> set out" if "y \<in> set (tl out)" for y using that by (cases out) auto
  with 2 show ?case by (auto split: if_splits)
qed simp

lemma join_slash_nonempty: "es \<noteq> [] \<Longrightarrow> \<forall>e\<in>set es. e \<noteq> [] \<Longrightarrow> join_slash es \<noteq> []"
  by (induction es rule: join_slash.induct) auto

lemma Clean_nonempty [simp]: "filepath_Clean p \<noteq> []"
  using join_slash_nonempty [of "clean_elems (rooted p) [] (split_slash p)"] clean_elems_mem [of _ "rooted p" "[]" "split_slash p"]
  by (auto simp: filepath_Clean_def Let_def)

lemma Dir_nonempty [simp]: "filepath_Dir p \<noteq> []"
  by (simp add: filepath_Dir_def)

text \<open>A cleaned path other than the two that always exist is the last of its own prefixes.\<close>

lemma prefixes_join:
  assumes "es \<noteq> []" and "\<forall>e\<in>set es. CHR ''/'' \<notin> set e \<and> e \<noteq> []"
  shows "join_slash es \<in> set (path_prefixes (join_slash es))"
    and "CHR ''/'' # join_slash es \<in> set (path_prefixes (CHR ''/'' # join_slash es))"
proof -
  have split: "split_slash (join_slash es) = es" using assms by (intro split_join) auto
  have all: "filter (\<lambda>e. e \<noteq> []) es = es" using assms by simp
  have last: "length es \<in> set [1 ..< Suc (length es)]" using assms(1) by (cases es) auto
  obtain c e es' where "es = (c # e) # es'" using assms by (metis list.exhaust list.set_intros(1))
  moreover have "c \<noteq> CHR ''/''" using assms(2) calculation by auto
  ultimately have "\<not> rooted (join_slash es)" by (cases es') (auto simp: rooted_def)
  then have "path_prefixes (join_slash es) = map (\<lambda>n. join_slash (take n es)) [1 ..< Suc (length es)]"
    by (simp add: path_prefixes_def split all del: upt_Suc)
  then show "join_slash es \<in> set (path_prefixes (join_slash es))"
    using last by (force simp del: upt_Suc)
  have "path_prefixes (CHR ''/'' # join_slash es) =
      map (\<lambda>n. CHR ''/'' # join_slash (take n es)) [1 ..< Suc (length es)]"
    by (simp add: path_prefixes_def split all rooted_def del: upt_Suc)
  then show "CHR ''/'' # join_slash es \<in> set (path_prefixes (CHR ''/'' # join_slash es))"
    using last by (force simp del: upt_Suc)
qed

lemma clean_in_prefixes:
  "filepath_Clean p \<in> set (''.'' # ''/'' # path_prefixes (filepath_Clean p))"
proof -
  let ?es = "clean_elems (rooted p) [] (split_slash p)"
  have "\<forall>e\<in>set ?es. CHR ''/'' \<notin> set e \<and> e \<noteq> []"
    using clean_elems_mem [of _ "rooted p" "[]" "split_slash p"] split_slash_no_slash by auto
  then show ?thesis
    using prefixes_join [of ?es] by (cases "?es = []") (auto simp: filepath_Clean_def Let_def)
qed

lemma dir_exists_made:
  "dir_exists (s\<lparr>dirs := path_prefixes (filepath_Clean p) @ dirs s\<rparr>) p"
  using clean_in_prefixes [of p] by (auto simp: dir_exists_def)

section \<open>A machine with nothing on it\<close>

definition epoch :: gotime where
  "epoch = \<lparr>year = 2026, month = 1, day = 1, hour = 0, minute = 0, second = 0, nsec = 0, offset = 0\<rparr>"

definition fresh_os :: os where
  "fresh_os = \<lparr>files = [], dirs = [], faults = [], clock = (\<lambda>n. epoch\<lparr>second := n mod 60\<rparr>), ticks = 0,
     env = [], hostname = ''host'', pid = 1, execs = [], stdout = [], stderr = []\<rparr>"

lemma valid_epoch: "n < 60 \<Longrightarrow> valid_time (epoch\<lparr>second := n\<rparr>)"
  by (simp add: valid_time_def epoch_def days_in_def)

text \<open>No call fails, and the clock shows dates that JSON can hold.\<close>

definition quiet :: "os \<Rightarrow> bool" where
  "quiet s \<longleftrightarrow> faults s = [] \<and> (\<forall>n. valid_time (clock s n))"

lemma quiet_frame [simp]:
  "quiet (set_file p d s) = quiet s" "quiet (s\<lparr>ticks := n\<rparr>) = quiet s" "quiet (s\<lparr>dirs := ds\<rparr>) = quiet s"
  "quiet (s\<lparr>execs := xs\<rparr>) = quiet s" "quiet (s\<lparr>stdout := t\<rparr>) = quiet s" "quiet (s\<lparr>stderr := t\<rparr>) = quiet s"
  by (simp_all add: quiet_def)

lemma quiet_fresh [simp]: "quiet fresh_os" "quiet (fresh_os\<lparr>files := fs\<rparr>)" "quiet (fresh_os\<lparr>env := vs\<rparr>)"
  by (simp_all add: quiet_def fresh_os_def valid_epoch)

lemma file_at_fresh [simp]: "file_at fresh_os p = None"
  by (simp add: file_at_def fresh_os_def)

lemma below_file_fresh [simp]: "\<not> below_file fresh_os p"
  by (simp add: below_file_def)

text \<open>A path that can be opened for writing once its directory is made.\<close>

definition openable :: "string \<Rightarrow> os \<Rightarrow> bool" where
  "openable p s \<longleftrightarrow> \<not> dir_exists s p \<and>
     (let ds = path_prefixes (filepath_Clean (filepath_Dir p)) in
      \<forall>q\<in>set ds. q \<noteq> filepath_Clean p \<and> filepath_Clean q \<noteq> filepath_Clean p \<and> file_at s q = None)"

lemma openable_not_below [simp]: "openable p s \<Longrightarrow> \<not> below_file s p"
  by (auto simp: openable_def below_file_def Let_def)

definition made_parent :: "string \<Rightarrow> os \<Rightarrow> os" where
  "made_parent p s = s\<lparr>dirs := path_prefixes (filepath_Clean (filepath_Dir p)) @ dirs s\<rparr>"

lemma made_parent_frame [simp]:
  "file_at (made_parent p s) q = file_at s q" "faults (made_parent p s) = faults s"
  "clock (made_parent p s) = clock s" "ticks (made_parent p s) = ticks s"
  "env (made_parent p s) = env s" "execs (made_parent p s) = execs s"
  "stdout (made_parent p s) = stdout s" "stderr (made_parent p s) = stderr s"
  "hostname (made_parent p s) = hostname s" "pid (made_parent p s) = pid s"
  "quiet (made_parent p s) = quiet s" "files (made_parent p s) = files s"
  by (simp_all add: made_parent_def)

lemma MkdirAll_parent:
  "quiet s \<Longrightarrow> openable p s \<Longrightarrow> os_MkdirAll (filepath_Dir p) s = (None, made_parent p s)"
  by (simp add: os_MkdirAll_def quiet_def openable_def made_parent_def Let_def)

lemma dir_exists_made_parent [simp]: "dir_exists (made_parent p s) (filepath_Dir p)"
  unfolding made_parent_def by (rule dir_exists_made)

lemma not_dir_made_parent [simp]: "openable p s \<Longrightarrow> \<not> dir_exists (made_parent p s) p"
  by (auto simp: openable_def made_parent_def dir_exists_def Let_def)

text \<open>Writing the file itself keeps it openable.\<close>

lemma openable_set_file [simp]: "openable p s \<Longrightarrow> openable p (set_file p d (made_parent p s))"
  using not_dir_made_parent [of p s] by (auto simp: openable_def Let_def)

definition contents :: "os \<Rightarrow> string \<Rightarrow> string" where
  "contents s p = (case file_at s p of None \<Rightarrow> [] | Some d \<Rightarrow> d)"

lemma OpenAppend_parent:
  "quiet s \<Longrightarrow> openable p s \<Longrightarrow>
   os_OpenAppend p (made_parent p s) = (None, set_file p (contents s p) (made_parent p s))"
  by (simp add: os_OpenAppend_def open_file_def quiet_def contents_def)

lemma WriteFile_parent:
  "quiet s \<Longrightarrow> openable p s \<Longrightarrow> os_WriteFile p d (made_parent p s) = (None, set_file p d (made_parent p s))"
  by (simp add: os_WriteFile_def os_OpenTrunc_def open_file_def quiet_def file_Write_def file_Close_def Let_def)

end
