(* ===== verification/Go_Sha256.thy ===== *)
theory Go_Sha256
  imports Main "HOL-Library.Word"
begin

unbundle bit_operations_syntax

text \<open>
  The SHA-256 digest of Go's \<^verbatim>\<open>crypto/sha256\<close> (FIPS 180-4), which \<^verbatim>\<open>computeHash\<close> and
  \<^verbatim>\<open>computeSnapshotHash\<close> apply to their canonical byte strings. A byte string is a
  HOL \<^typ>\<open>string\<close> (a \<^typ>\<open>char\<close> is a byte), a machine word is a \<^typ>\<open>32 word\<close>, and the digest
  is the list of the thirty-two bytes that \<^verbatim>\<open>h.Sum(nil)\<close> returns.
\<close>

type_synonym u32 = "32 word"

section \<open>Round functions and constants\<close>

definition rotr32 :: "nat \<Rightarrow> u32 \<Rightarrow> u32" where
  "rotr32 n x = (drop_bit n x) OR (push_bit (32 - n) x)"

definition big_sigma0 :: "u32 \<Rightarrow> u32" where
  "big_sigma0 x = rotr32 2 x XOR rotr32 13 x XOR rotr32 22 x"

definition big_sigma1 :: "u32 \<Rightarrow> u32" where
  "big_sigma1 x = rotr32 6 x XOR rotr32 11 x XOR rotr32 25 x"

definition small_sigma0 :: "u32 \<Rightarrow> u32" where
  "small_sigma0 x = rotr32 7 x XOR rotr32 18 x XOR drop_bit 3 x"

definition small_sigma1 :: "u32 \<Rightarrow> u32" where
  "small_sigma1 x = rotr32 17 x XOR rotr32 19 x XOR drop_bit 10 x"

definition sha_ch :: "u32 \<Rightarrow> u32 \<Rightarrow> u32 \<Rightarrow> u32" where
  "sha_ch x y z = (x AND y) XOR (NOT x AND z)"

definition sha_maj :: "u32 \<Rightarrow> u32 \<Rightarrow> u32 \<Rightarrow> u32" where
  "sha_maj x y z = (x AND y) XOR (x AND z) XOR (y AND z)"

text \<open>
  The round constants and the initial state, in decimal: the first 32 bits of the fractional
  parts of the cube roots of the first 64 primes and of the square roots of the first 8. The
  theory \<open>Go_Sha256_Vector\<close> checks that they are.
\<close>

definition sha_k :: "u32 list" where
  "sha_k =
    [1116352408, 1899447441, 3049323471, 3921009573, 961987163, 1508970993, 2453635748, 2870763221,
     3624381080, 310598401, 607225278, 1426881987, 1925078388, 2162078206, 2614888103, 3248222580,
     3835390401, 4022224774, 264347078, 604807628, 770255983, 1249150122, 1555081692, 1996064986,
     2554220882, 2821834349, 2952996808, 3210313671, 3336571891, 3584528711, 113926993, 338241895,
     666307205, 773529912, 1294757372, 1396182291, 1695183700, 1986661051, 2177026350, 2456956037,
     2730485921, 2820302411, 3259730800, 3345764771, 3516065817, 3600352804, 4094571909, 275423344,
     430227734, 506948616, 659060556, 883997877, 958139571, 1322822218, 1537002063, 1747873779,
     1955562222, 2024104815, 2227730452, 2361852424, 2428436474, 2756734187, 3204031479, 3329325298]"

type_synonym sha_state = "u32 \<times> u32 \<times> u32 \<times> u32 \<times> u32 \<times> u32 \<times> u32 \<times> u32"

definition sha_init :: sha_state where
  "sha_init =
    (1779033703, 3144134277, 1013904242, 2773480762,
     1359893119, 2600822924, 528734635, 1541459225)"

section \<open>Padding and blocks\<close>

fun be_bytes :: "nat \<Rightarrow> int \<Rightarrow> int list" where
  "be_bytes 0 n = []"
| "be_bytes (Suc k) n = be_bytes k (n div 256) @ [n mod 256]"

definition sha_pad :: "int list \<Rightarrow> int list" where
  "sha_pad m = m @ 128 # replicate ((119 - length m mod 64) mod 64) 0 @ be_bytes 8 (8 * int (length m))"

fun be_words :: "int list \<Rightarrow> u32 list" where
  "be_words (a # b # c # d # r) =
     word_of_int (((a * 256 + b) * 256 + c) * 256 + d) # be_words r"
| "be_words _ = []"

section \<open>Message schedule and compression\<close>

text \<open>The schedule is built in a window of the last sixteen words, oldest first.\<close>

fun sha_schedule :: "nat \<Rightarrow> u32 list \<Rightarrow> u32 list" where
  "sha_schedule 0 win = win"
| "sha_schedule (Suc k) win =
     hd win # sha_schedule k (tl win @
       [small_sigma1 (win ! 14) + win ! 9 + small_sigma0 (win ! 1) + win ! 0])"

fun sha_round :: "u32 \<Rightarrow> u32 \<Rightarrow> sha_state \<Rightarrow> sha_state" where
  "sha_round kt wt (a, b, c, d, e, f, g, h) =
     (let t1 = h + big_sigma1 e + sha_ch e f g + kt + wt;
          t2 = big_sigma0 a + sha_maj a b c
      in (t1 + t2, a, b, c, d + t1, e, f, g))"

fun sha_rounds :: "u32 list \<Rightarrow> u32 list \<Rightarrow> sha_state \<Rightarrow> sha_state" where
  "sha_rounds (kt # ks) (wt # ws) st = sha_rounds ks ws (sha_round kt wt st)"
| "sha_rounds _ _ st = st"

fun sha_add :: "sha_state \<Rightarrow> sha_state \<Rightarrow> sha_state" where
  "sha_add (a, b, c, d, e, f, g, h) (a', b', c', d', e', f', g', h') =
     (a + a', b + b', c + c', d + d', e + e', f + f', g + g', h + h')"

definition sha_block :: "sha_state \<Rightarrow> u32 list \<Rightarrow> sha_state" where
  "sha_block st ws = sha_add st (sha_rounds sha_k (sha_schedule 48 ws) st)"

function sha_blocks :: "sha_state \<Rightarrow> u32 list \<Rightarrow> sha_state" where
  "sha_blocks st ws =
     (if length ws < 16 then st else sha_blocks (sha_block st (take 16 ws)) (drop 16 ws))"
  by pat_completeness auto
termination
  by (relation "measure (\<lambda>(st, ws). length ws)") auto

declare sha_blocks.simps [simp del]

fun sha_bytes :: "sha_state \<Rightarrow> int list" where
  "sha_bytes (a, b, c, d, e, f, g, h) =
     concat (map (\<lambda>w. be_bytes 4 (uint w)) [a, b, c, d, e, f, g, h])"

definition sha256_sum :: "string \<Rightarrow> int list" where
  "sha256_sum s = sha_bytes (sha_blocks sha_init (be_words (sha_pad (map of_char s))))"

section \<open>The shape of a digest\<close>

lemma length_be_bytes [simp]: "length (be_bytes k n) = k"
  by (induction k arbitrary: n) simp_all

lemma be_bytes_range: "b \<in> set (be_bytes k n) \<Longrightarrow> 0 \<le> b \<and> b < 256"
  by (induction k arbitrary: n) auto

lemma length_sha_bytes: "length (sha_bytes st) = 32"
  by (cases st rule: sha_bytes.cases) simp

lemma length_sha256_sum [simp]: "length (sha256_sum m) = 32"
  by (simp add: sha256_sum_def length_sha_bytes)

lemma sha_bytes_range: "b \<in> set (sha_bytes st) \<Longrightarrow> 0 \<le> b \<and> b < 256"
  by (cases st rule: sha_bytes.cases) (auto dest: be_bytes_range)

lemma sha256_sum_range: "b \<in> set (sha256_sum m) \<Longrightarrow> 0 \<le> b \<and> b < 256"
  by (simp add: sha256_sum_def sha_bytes_range)

end
