(* ===== verification/Sha256_Hex.thy ===== *)
theory Sha256_Hex
  imports Go_Sha256 Go_Utf8
begin

text \<open>
  The digest as the program stores it, \<^verbatim>\<open>fmt.Sprintf("sha256:%x", h.Sum(nil))\<close>, in events and in
  policy snapshots: 71 ASCII characters without a newline, from which the digest can be read
  back.
\<close>

definition sha256_hex :: "string \<Rightarrow> string" where
  "sha256_hex m = ''sha256:'' @ fmt_x (sha256_sum m)"

lemma hex_chars_no_newline: "\<forall>b\<in>set bs. 0 \<le> b \<and> b < 256 \<Longrightarrow> newline \<notin> set (fmt_x bs)"
  by (induction bs) (auto simp: fmt_x_def nat_less_iff hex_char_not_newline [symmetric])

lemma newline_not_in_sha256_hex: "newline \<notin> set (sha256_hex m)"
  using hex_chars_no_newline [of "sha256_sum m"] sha256_sum_range by (auto simp: sha256_hex_def)

lemma length_fmt_x: "length (fmt_x bs) = 2 * length bs"
  by (induction bs) (simp_all add: fmt_x_def)

lemma length_sha256_hex: "length (sha256_hex m) = 71"
  by (simp add: sha256_hex_def length_fmt_x)

lemma ascii_hex_char: "d < 16 \<Longrightarrow> byte (hex_char d) < 128"
  by (simp add: byte_hex_char)

lemma valid_utf8_sha256_hex: "valid_utf8 (sha256_hex m)"
proof (rule valid_utf8_ascii)
  have "byte c < 128" if "c \<in> set (fmt_x bs)" "\<forall>b\<in>set bs. 0 \<le> b \<and> b < 256" for c bs
    using that by (induction bs) (auto simp: fmt_x_def ascii_hex_char nat_less_iff)
  then show "\<forall>c\<in>set (sha256_hex m). byte c < 128"
    using sha256_sum_range by (auto simp: sha256_hex_def)
qed

lemma sha256_hex_inject: "sha256_hex m = sha256_hex n \<longleftrightarrow> sha256_sum m = sha256_sum n"
  using fmt_x_inject [of "sha256_sum m" "sha256_sum n"] sha256_sum_range by (auto simp: sha256_hex_def)

definition sha256_collision :: "string \<Rightarrow> string \<Rightarrow> bool" where
  "sha256_collision m n \<longleftrightarrow> m \<noteq> n \<and> sha256_sum m = sha256_sum n"

end
