(* ===== verification/Hash_Chain.thy ===== *)
theory Hash_Chain
  imports Main
begin

text \<open>
  Hash-chained logs, independent of what an entry is. An entry has a canonical form that is
  hashed and a field that names the hash of its predecessor; \<open>chain\<close> says that a list of entries
  starts at a given hash and each names the hash of the one before. The interface
  \<open>chained_log\<close> states what a tamper-evident log relies on: the canonical form covers the
  link to the predecessor, and no hash is the start value. From that alone: two chains that
  end in the same hash agree entry by entry in canonical form, or two entries at the same
  distance from the end show a collision of the hash function.
\<close>

fun chain :: "('e \<Rightarrow> 'h) \<Rightarrow> ('e \<Rightarrow> 'h) \<Rightarrow> 'h \<Rightarrow> 'e list \<Rightarrow> bool" where
  "chain pre hsh h [] \<longleftrightarrow> True"
| "chain pre hsh h (e # es) \<longleftrightarrow> pre e = h \<and> chain pre hsh (hsh e) es"

definition chain_end :: "('e \<Rightarrow> 'h) \<Rightarrow> 'h \<Rightarrow> 'e list \<Rightarrow> 'h" where
  "chain_end hsh h es = (if es = [] then h else hsh (last es))"

lemma chain_end_simps [simp]:
  "chain_end hsh h [] = h" "chain_end hsh h (es @ [e]) = hsh e"
  "chain_end hsh h (e # es) = chain_end hsh (hsh e) es"
  by (simp_all add: chain_end_def)

lemma chain_append [simp]:
  "chain pre hsh h (es @ fs) \<longleftrightarrow> chain pre hsh h es \<and> chain pre hsh (chain_end hsh h es) fs"
  by (induction es arbitrary: h) auto

lemma chain_take: "chain pre hsh h es \<Longrightarrow> chain pre hsh h (take n es)"
  by (metis append_take_drop_id chain_append)

text \<open>Every link is the start or the hash of an entry.\<close>

lemma chain_pre: "chain pre hsh h es \<Longrightarrow> e \<in> set es \<Longrightarrow> pre e = h \<or> pre e \<in> range hsh"
  by (induction es arbitrary: h) auto

lemma chain_end_range: "chain_end hsh h es = h \<or> chain_end hsh h es \<in> range hsh"
  by (simp add: chain_end_def)

text \<open>Two entries with different canonical forms and the same hash.\<close>

definition collides :: "('e \<Rightarrow> 'm) \<Rightarrow> ('m \<Rightarrow> 'h) \<Rightarrow> 'e \<Rightarrow> 'e \<Rightarrow> bool" where
  "collides canon H a b \<longleftrightarrow> canon a \<noteq> canon b \<and> H (canon a) = H (canon b)"

locale chained_log =
  fixes canon :: "'e \<Rightarrow> 'm"
    and H :: "'m \<Rightarrow> 'h"
    and pre :: "'e \<Rightarrow> 'h"
    and start :: 'h
  assumes start_no_hash: "H m \<noteq> start"
    and canon_covers_pre:
      "pre a \<in> insert start (range H) \<Longrightarrow> pre b \<in> insert start (range H) \<Longrightarrow>
       canon a = canon b \<Longrightarrow> pre a = pre b"
begin

lemma links_hashed:
  "chain pre (\<lambda>e. H (canon e)) start (es @ [e]) \<Longrightarrow> pre e \<in> insert start (range H)"
  using chain_end_range [of "\<lambda>e. H (canon e)" start es] by auto

lemma agree_or_collide_rev:
  "chain pre (\<lambda>e. H (canon e)) start (rev xs) \<Longrightarrow> chain pre (\<lambda>e. H (canon e)) start (rev ys) \<Longrightarrow>
   chain_end (\<lambda>e. H (canon e)) start (rev xs) = chain_end (\<lambda>e. H (canon e)) start (rev ys) \<Longrightarrow>
   map canon xs = map canon ys \<or>
   (\<exists>i < min (length xs) (length ys). collides canon H (xs ! i) (ys ! i))"
proof (induction xs arbitrary: ys)
  case Nil
  then show ?case using start_no_hash by (cases ys) (auto dest: sym)
next
  case (Cons x xs)
  then obtain y zs where ys: "ys = y # zs"
    using start_no_hash by (cases ys) auto
  show ?case
  proof (cases "canon x = canon y")
    case False
    with Cons.prems have "collides canon H ((x # xs) ! 0) (ys ! 0)"
      by (simp add: collides_def ys)
    then show ?thesis by (intro disjI2 exI [of _ 0]) (simp add: ys)
  next
    case True
    have "pre x \<in> insert start (range H)" "pre y \<in> insert start (range H)"
      using Cons.prems links_hashed [of "rev xs" x] links_hashed [of "rev zs" y] by (auto simp: ys)
    with True have "pre x = pre y" by (auto intro: canon_covers_pre)
    then have "map canon xs = map canon zs \<or>
        (\<exists>i < min (length xs) (length zs). collides canon H (xs ! i) (zs ! i))"
      using Cons.prems by (intro Cons.IH) (auto simp: ys)
    then show ?thesis
    proof
      assume "\<exists>i < min (length xs) (length zs). collides canon H (xs ! i) (zs ! i)"
      then obtain i where "i < min (length xs) (length zs)" "collides canon H (xs ! i) (zs ! i)" by blast
      then have "Suc i < min (length (x # xs)) (length ys) \<and> collides canon H ((x # xs) ! Suc i) (ys ! Suc i)"
        by (simp add: ys)
      then show ?thesis by blast
    qed (use True ys in simp)
  qed
qed

theorem agree_or_collide:
  assumes "chain pre (\<lambda>e. H (canon e)) start xs" and "chain pre (\<lambda>e. H (canon e)) start ys"
    and "chain_end (\<lambda>e. H (canon e)) start xs = chain_end (\<lambda>e. H (canon e)) start ys"
  shows "map canon xs = map canon ys \<or>
     (\<exists>i < min (length xs) (length ys). collides canon H (rev xs ! i) (rev ys ! i))"
proof -
  have "map canon (rev xs) = map canon (rev ys) \<or>
     (\<exists>i < min (length (rev xs)) (length (rev ys)). collides canon H (rev xs ! i) (rev ys ! i))"
    by (rule agree_or_collide_rev) (use assms in simp_all)
  then show ?thesis by (simp add: rev_map [symmetric])
qed

end

end
