(* ===== verification/Journal.thy ===== *)
theory Journal
  imports Main
begin

text \<open>
  Three interfaces of an append-only log. \<open>record_stream\<close>: records written one after the other
  into a file are read back as a list. \<open>journal\<close>: an operation that appends to a log held in
  some state. Its law says what one append does when it succeeds and that an append which is
  refused has changed nothing the log shows; the lemma \<open>append_all\<close> lifts it to any sequence of
  appends. \<open>audited\<close>: an operation every run of which leaves its entries in a log, some number
  of them; the lemma \<open>trail\<close> lifts it to any sequence of runs. A journal is a special case.
\<close>

locale record_stream =
  fixes enc :: "'a \<Rightarrow> 'c list"
    and dec :: "'c list \<Rightarrow> 'a list option"
    and ok :: "'a \<Rightarrow> bool"
  assumes dec_nil: "dec [] = Some []"
    and dec_enc: "ok a \<Longrightarrow> dec (enc a @ r) = map_option (\<lambda>as. a # as) (dec r)"
begin

lemma dec_concat:
  "\<forall>a\<in>set xs. ok a \<Longrightarrow> dec (concat (map enc xs) @ r) = map_option (\<lambda>ys. xs @ ys) (dec r)"
  by (induction xs; cases "dec r") (simp_all add: dec_enc)

lemma dec_records: "\<forall>a\<in>set xs. ok a \<Longrightarrow> dec (concat (map enc xs)) = Some xs"
  using dec_concat [of xs "[]"] by (simp add: dec_nil)

lemma records_inject:
  "\<forall>a\<in>set xs. ok a \<Longrightarrow> \<forall>a\<in>set ys. ok a \<Longrightarrow> concat (map enc xs) = concat (map enc ys) \<Longrightarrow> xs = ys"
  by (metis dec_records option.inject)

end

fun append_all :: "('q \<Rightarrow> 'l \<Rightarrow> 's \<Rightarrow> 'x option \<times> 'l \<times> 's) \<Rightarrow> 'q list \<Rightarrow> 'l \<Rightarrow> 's \<Rightarrow> 'x option \<times> 'l \<times> 's"
where
  "append_all app [] l s = (None, l, s)"
| "append_all app (q # qs) l s =
     (case app q l s of (Some e, l', s') \<Rightarrow> (Some e, l', s') | (None, l', s') \<Rightarrow> append_all app qs l' s')"

locale journal =
  fixes app :: "'q \<Rightarrow> 'l \<Rightarrow> 's \<Rightarrow> 'x option \<times> 'l \<times> 's"
    and shows_log :: "'l \<Rightarrow> 's \<Rightarrow> 'e list \<Rightarrow> bool"
    and ok :: "'q \<Rightarrow> bool"
    and records :: "'q \<Rightarrow> 'e \<Rightarrow> bool"
  assumes app_ok:
    "shows_log l s es \<Longrightarrow> ok q \<Longrightarrow>
     \<exists>e l' s'. app q l s = (None, l', s') \<and> records q e \<and> shows_log l' s' (es @ [e])"
begin

lemma app_all:
  "shows_log l s es \<Longrightarrow> \<forall>q\<in>set qs. ok q \<Longrightarrow>
   \<exists>fs l' s'. append_all app qs l s = (None, l', s') \<and> list_all2 records qs fs \<and> shows_log l' s' (es @ fs)"
proof (induction qs arbitrary: l s es)
  case Nil
  then show ?case by auto
next
  case (Cons q qs)
  then obtain e l1 s1 where 1: "app q l s = (None, l1, s1)" "records q e" "shows_log l1 s1 (es @ [e])"
    using app_ok by (metis list.set_intros(1))
  from Cons.IH [OF 1(3)] Cons.prems obtain fs l2 s2 where
    "append_all app qs l1 s1 = (None, l2, s2)" "list_all2 records qs fs" "shows_log l2 s2 ((es @ [e]) @ fs)"
    by auto
  with 1 show ?case by (intro exI [of _ "e # fs"]) auto
qed

end

fun run_all :: "('q \<Rightarrow> 'd \<Rightarrow> 's \<Rightarrow> 'r \<times> 'd \<times> 's) \<Rightarrow> 'q list \<Rightarrow> 'd \<Rightarrow> 's \<Rightarrow> 'r list \<times> 'd \<times> 's" where
  "run_all run [] d s = ([], d, s)"
| "run_all run (q # qs) d s =
     (case run q d s of (r, d1, s1) \<Rightarrow> case run_all run qs d1 s1 of (rs, d2, s2) \<Rightarrow> (r # rs, d2, s2))"

locale audited =
  fixes run :: "'q \<Rightarrow> 'd \<Rightarrow> 's \<Rightarrow> 'r \<times> 'd \<times> 's"
    and shows_log :: "'d \<Rightarrow> 's \<Rightarrow> 'e list \<Rightarrow> bool"
    and ok :: "'q \<Rightarrow> 'd \<Rightarrow> bool"
    and entries :: "'q \<Rightarrow> 'd \<Rightarrow> 'r \<Rightarrow> 'e list \<Rightarrow> bool"
  assumes run_ok:
    "shows_log d s es \<Longrightarrow> ok q d \<Longrightarrow>
     \<exists>r d' s' fs. run q d s = (r, d', s') \<and> entries q d r fs \<and> shows_log d' s' (es @ fs)"
    and run_static: "run q d s = (r, d', s') \<Longrightarrow> ok q' d' = ok q' d \<and> entries q' d' = entries q' d"
begin

lemma trail:
  "shows_log d s es \<Longrightarrow> \<forall>q\<in>set qs. ok q d \<Longrightarrow>
   \<exists>rs d' s' fss. run_all run qs d s = (rs, d', s') \<and> length rs = length qs \<and> length fss = length qs \<and>
     (\<forall>i < length qs. entries (qs ! i) d (rs ! i) (fss ! i)) \<and> shows_log d' s' (es @ concat fss)"
proof (induction qs arbitrary: d s es)
  case Nil
  then show ?case by auto
next
  case (Cons q qs)
  then obtain r d1 s1 fs where 1: "run q d s = (r, d1, s1)" "entries q d r fs" "shows_log d1 s1 (es @ fs)"
    using run_ok by (metis list.set_intros(1))
  have static: "ok q' d1 = ok q' d" "entries q' d1 = entries q' d" for q' using run_static [OF 1(1)] by auto
  then obtain rs d2 s2 fss where 2: "run_all run qs d1 s1 = (rs, d2, s2)" "length rs = length qs" "length fss = length qs"
      "\<forall>i < length qs. entries (qs ! i) d (rs ! i) (fss ! i)" "shows_log d2 s2 ((es @ fs) @ concat fss)"
    using Cons.IH [OF 1(3)] Cons.prems by auto
  have "\<forall>i < length (q # qs). entries ((q # qs) ! i) d ((r # rs) ! i) ((fs # fss) ! i)"
    using 1(2) 2(4) by (simp add: All_less_Suc2)
  with 1 2 show ?case by (intro exI [of _ "r # rs"] exI [of _ d2] exI [of _ s2] exI [of _ "fs # fss"]) simp
qed

end

sublocale journal \<subseteq> audited app shows_log "\<lambda>q l. ok q" "\<lambda>q l r fs. r = None \<and> (\<exists>e. fs = [e] \<and> records q e)"
proof
  fix d s es q
  assume "shows_log d s es" "ok q"
  from app_ok [OF this] show "\<exists>r d' s' fs. app q d s = (r, d', s') \<and>
      (r = None \<and> (\<exists>e. fs = [e] \<and> records q e)) \<and> shows_log d' s' (es @ fs)" by blast
qed simp

end
