(* ===== verification/Audit_Log.thy ===== *)
theory Audit_Log
  imports Go_OS Sha256_Hex Hash_Chain Journal
begin

text \<open>
  The package \<^verbatim>\<open>internal/audit\<close> (\<^verbatim>\<open>log.go\<close>): the append-only, hash-chained audit log, from the
  canonical bytes that are hashed to the bytes in the file.
\<close>

section \<open>Events and their hash\<close>

definition genesisHash :: string where
  "genesisHash = ''sha256:genesis''"

record event =
  TS :: gotime
  Seq :: int64
  ActorID :: string
  SessionID :: string
  DeviceID :: string
  Verb :: string
  ObjectRef :: string
  Decision :: string
  ReasonCode :: string
  Result :: string
  Meta :: "gomap option"
  PrevHash :: string
  Hash :: string

definition zero_event :: event where
  "zero_event = \<lparr>TS = zero_time, Seq = 0, ActorID = [], SessionID = [], DeviceID = [], Verb = [],
     ObjectRef = [], Decision = [], ReasonCode = [], Result = [], Meta = None, PrevHash = [], Hash = []\<rparr>"

definition AllowDecision :: string where
  "AllowDecision = ''allow''"

definition DenyDecision :: string where
  "DenyDecision = ''deny''"

definition ResultSuccess :: string where
  "ResultSuccess = ''success''"

definition ResultFailure :: string where
  "ResultFailure = ''failure''"

text \<open>The bytes that \<^verbatim>\<open>fmt.Fprintf\<close> writes into the digest.\<close>

definition canonical :: "event \<Rightarrow> string" where
  "canonical e =
     fmt_d (Seq e) @ newline # ActorID e @ newline # SessionID e @ newline # DeviceID e @
     newline # Verb e @ newline # ObjectRef e @ newline # Decision e @ newline # ReasonCode e @
     newline # Result e @ newline # PrevHash e"

definition computeHash :: "event \<Rightarrow> string" where
  "computeHash e = sha256_hex (canonical e)"

section \<open>Events as JSON lines\<close>

definition str_member :: "string \<Rightarrow> string \<Rightarrow> string \<times> jtree" where
  "str_member name v = (name, TStr (json_quote v))"

definition event_members :: "event \<Rightarrow> jtree \<Rightarrow> (string \<times> jtree) list" where
  "event_members e ts =
     [(''ts'', ts), (''seq'', TNum (fmt_d (Seq e))), str_member ''actor_id'' (ActorID e),
      str_member ''session_id'' (SessionID e), str_member ''device_id'' (DeviceID e),
      str_member ''verb'' (Verb e), str_member ''object_ref'' (ObjectRef e),
      str_member ''decision'' (Decision e)] @
     (if ReasonCode e = [] then [] else [str_member ''reason_code'' (ReasonCode e)]) @
     [str_member ''result'' (Result e)] @
     (if Meta e = None \<or> Meta e = Some [] then [] else [(''meta'', tree_of_map (Meta e))]) @
     [str_member ''prev_hash'' (PrevHash e), str_member ''hash'' (Hash e)]"

definition marshal_event :: "event \<Rightarrow> string option" where
  "marshal_event e = map_option (\<lambda>ts. print_tree False 0 (TObj (event_members e ts))) (marshal_time (TS e))"

definition set_event_field :: "string \<Rightarrow> jtree \<Rightarrow> event \<Rightarrow> event option" where
  "set_event_field key t e =
     (if field_is ''ts'' key then map_option (\<lambda>v. e\<lparr>TS := v\<rparr>) (decode_time t (TS e))
      else if field_is ''seq'' key then map_option (\<lambda>v. e\<lparr>Seq := v\<rparr>) (decode_int64 t (Seq e))
      else if field_is ''actor_id'' key then map_option (\<lambda>v. e\<lparr>ActorID := v\<rparr>) (decode_string t (ActorID e))
      else if field_is ''session_id'' key then map_option (\<lambda>v. e\<lparr>SessionID := v\<rparr>) (decode_string t (SessionID e))
      else if field_is ''device_id'' key then map_option (\<lambda>v. e\<lparr>DeviceID := v\<rparr>) (decode_string t (DeviceID e))
      else if field_is ''verb'' key then map_option (\<lambda>v. e\<lparr>Verb := v\<rparr>) (decode_string t (Verb e))
      else if field_is ''object_ref'' key then map_option (\<lambda>v. e\<lparr>ObjectRef := v\<rparr>) (decode_string t (ObjectRef e))
      else if field_is ''decision'' key then map_option (\<lambda>v. e\<lparr>Decision := v\<rparr>) (decode_string t (Decision e))
      else if field_is ''reason_code'' key then map_option (\<lambda>v. e\<lparr>ReasonCode := v\<rparr>) (decode_string t (ReasonCode e))
      else if field_is ''result'' key then map_option (\<lambda>v. e\<lparr>Result := v\<rparr>) (decode_string t (Result e))
      else if field_is ''meta'' key then map_option (\<lambda>v. e\<lparr>Meta := v\<rparr>) (decode_map t (Meta e))
      else if field_is ''prev_hash'' key then map_option (\<lambda>v. e\<lparr>PrevHash := v\<rparr>) (decode_string t (PrevHash e))
      else if field_is ''hash'' key then map_option (\<lambda>v. e\<lparr>Hash := v\<rparr>) (decode_string t (Hash e))
      else Some e)"

definition decode_event :: "jtree \<Rightarrow> event option" where
  "decode_event t = decode_struct set_event_field zero_event t"

section \<open>Reading a log file\<close>

record bytesReaderT =
  rdata :: string
  rpos :: nat

definition bytesReader :: "string \<Rightarrow> bytesReaderT" where
  "bytesReader data = \<lparr>rdata = data, rpos = 0\<rparr>"

text \<open>\<^verbatim>\<open>Read(p)\<close>, the buffer given by its length: the bytes copied into it, or the error.\<close>

definition bytesReader_Read :: "nat \<Rightarrow> bytesReaderT \<Rightarrow> (go_error + string) \<times> bytesReaderT" where
  "bytesReader_Read n r =
     (if length (rdata r) \<le> rpos r then (Inl (ErrorString ''EOF''), r)
      else let chunk = take n (drop (rpos r) (rdata r)) in
        (Inr chunk, r\<lparr>rpos := rpos r + length chunk\<rparr>))"

text \<open>
  The decoder's \<^verbatim>\<open>refill\<close> loop: what it gets from the reader until the reader returns an error,
  the buffer holding at least \<open>Suc n\<close> bytes.
\<close>

function drain :: "nat \<Rightarrow> bytesReaderT \<Rightarrow> string" where
  "drain n r = (case bytesReader_Read (Suc n) r of (Inl _, _) \<Rightarrow> [] | (Inr chunk, r') \<Rightarrow> chunk @ drain n r')"
  by pat_completeness auto
termination
  by (relation "measure (\<lambda>(n, r). length (rdata r) - rpos r)")
    (auto simp: bytesReader_Read_def Let_def min_def split: if_splits)

declare drain.simps [simp del]

text \<open>
  \<^verbatim>\<open>dec.More()\<close> peeks at the next byte that is no white space: at the end of the input, at a
  closing bracket and at a closing brace it is false.
\<close>

definition decoder_More :: "string \<Rightarrow> bool" where
  "decoder_More s \<longleftrightarrow>
     skip_ws s \<noteq> [] \<and> hd (skip_ws s) \<noteq> CHR '']'' \<and> hd (skip_ws s) \<noteq> CHR ''}''"

text \<open>
  \<^verbatim>\<open>dec.Decode(&e)\<close>: one value into a zero event. A literal is complete only when a byte follows
  it, because the reader's end is not \<^verbatim>\<open>io.EOF\<close>; of the literals only \<^verbatim>\<open>null\<close> can be decoded.
\<close>

definition decoder_Decode :: "string \<Rightarrow> (event \<times> string) option" where
  "decoder_Decode s =
     (case json_value s of None \<Rightarrow> None
      | Some (t, r) \<Rightarrow> if t = TNull \<and> r = [] then None
                      else map_option (\<lambda>e. (e, r)) (decode_event t))"

lemma decoder_Decode_length: "decoder_Decode s = Some (e, r) \<Longrightarrow> length r < length s"
  by (auto simp: decoder_Decode_def dest: json_value_length split: option.splits if_splits)

function decode_events :: "string \<Rightarrow> event list option" where
  "decode_events s =
     (if decoder_More s then
        (case decoder_Decode s of None \<Rightarrow> None
         | Some (e, r) \<Rightarrow> map_option (\<lambda>es. e # es) (decode_events r))
      else Some [])"
  by pat_completeness auto
termination
  by (relation "measure length") (auto dest: decoder_Decode_length)

declare decode_events.simps [simp del]

definition ReadFile :: "string \<Rightarrow> os \<Rightarrow> (go_error + event list) \<times> os" where
  "ReadFile path s =
     (case os_ReadFile path s of
        (Inl err, s1) \<Rightarrow> if errors_Is_NotExist err then (Inr [], s1) else (Inl err, s1)
      | (Inr data, s1) \<Rightarrow>
          (case decode_events (drain 511 (bytesReader data)) of
             None \<Rightarrow> (Inl (WrapError ''audit: decode event: '' JsonError []), s1)
           | Some events \<Rightarrow> (Inr events, s1)))"

section \<open>Verifying the chain\<close>

definition hash_mismatch :: "event \<Rightarrow> go_error" where
  "hash_mismatch e = ErrTampered (Seq e)
     (''hash mismatch: stored='' @ Hash e @ '' computed='' @ computeHash e)"

definition prev_mismatch :: "event \<Rightarrow> event \<Rightarrow> go_error" where
  "prev_mismatch p e = ErrTampered (Seq e)
     (''prev_hash mismatch: got='' @ PrevHash e @ '' expected='' @ Hash p)"

text \<open>The loop; the first argument is \<^verbatim>\<open>events[i-1]\<close>, absent for \<^verbatim>\<open>i = 0\<close>.\<close>

fun verify_loop :: "event option \<Rightarrow> event list \<Rightarrow> go_error option" where
  "verify_loop prev [] = None"
| "verify_loop prev (e # es) =
     (if computeHash e \<noteq> Hash e then Some (hash_mismatch e)
      else case prev of
        None \<Rightarrow> verify_loop (Some e) es
      | Some p \<Rightarrow> if PrevHash e \<noteq> Hash p then Some (prev_mismatch p e) else verify_loop (Some e) es)"

definition VerifyEvents :: "event list \<Rightarrow> go_error option" where
  "VerifyEvents events =
     (case events of [] \<Rightarrow> None
      | e0 # _ \<Rightarrow>
        if PrevHash e0 \<noteq> genesisHash
        then Some (ErrTampered (Seq e0) ''first event prev_hash is not genesis'')
        else verify_loop None events)"

definition VerifyChain :: "string \<Rightarrow> os \<Rightarrow> go_error option \<times> os" where
  "VerifyChain path s =
     (case ReadFile path s of
        (Inl err, s1) \<Rightarrow> (Some err, s1)
      | (Inr events, s1) \<Rightarrow> (VerifyEvents events, s1))"

section \<open>The logger\<close>

text \<open>
  The methods hold the logger's mutex from their first to their last step, so each is one
  step of the model. The file handle is the path it was opened with.
\<close>

record logger =
  lf :: string
  lseq :: int64
  lastHash :: string

definition Open :: "string \<Rightarrow> os \<Rightarrow> (go_error + logger) \<times> os" where
  "Open path s =
     (case os_MkdirAll (filepath_Dir path) s of
        (Some err, s1) \<Rightarrow> (Inl (WrapError ''audit: create dir: '' err []), s1)
      | (None, s1) \<Rightarrow>
        (case os_OpenAppend path s1 of
           (Some err, s2) \<Rightarrow> (Inl (WrapError ''audit: open log: '' err []), s2)
         | (None, s2) \<Rightarrow>
           (let l = \<lparr>lf = path, lseq = 0, lastHash = genesisHash\<rparr> in
            case ReadFile path s2 of
              (Inl err, s3) \<Rightarrow>
                (Inl (WrapError ''audit: read existing events: '' err []), snd (file_Close path s3))
            | (Inr events, s3) \<Rightarrow>
                (Inr (if events = [] then l
                      else l\<lparr>lseq := Seq (last events) + 1, lastHash := Hash (last events)\<rparr>), s3))))"

definition Log :: "event \<Rightarrow> logger \<Rightarrow> os \<Rightarrow> go_error option \<times> logger \<times> os" where
  "Log e l s =
     (case time_Now s of (now, s1) \<Rightarrow>
      let e1 = e\<lparr>Seq := lseq l, TS := now, PrevHash := lastHash l\<rparr>;
          e2 = e1\<lparr>Hash := computeHash e1\<rparr>
      in case marshal_event e2 of
           None \<Rightarrow> (Some (WrapError ''audit: marshal event: '' JsonError []), l, s1)
         | Some data \<Rightarrow>
           (case file_Write (lf l) (data @ [newline]) s1 of
              (Some err, s2) \<Rightarrow> (Some (WrapError ''audit: write event: '' err []), l, s2)
            | (None, s2) \<Rightarrow>
              (case file_Sync (lf l) s2 of
                 (Some err, s3) \<Rightarrow> (Some (WrapError ''audit: sync: '' err []), l, s3)
               | (None, s3) \<Rightarrow> (None, l\<lparr>lseq := lseq l + 1, lastHash := Hash e2\<rparr>, s3))))"

definition allow_event :: "string \<Rightarrow> string \<Rightarrow> string \<Rightarrow> string \<Rightarrow> string \<Rightarrow> string \<Rightarrow> gomap option \<Rightarrow> event" where
  "allow_event actorID sessionID deviceID verb objectRef result meta =
     zero_event\<lparr>ActorID := actorID, SessionID := sessionID, DeviceID := deviceID, Verb := verb,
       ObjectRef := objectRef, Decision := AllowDecision, Result := result, Meta := meta\<rparr>"

definition Allow ::
  "string \<Rightarrow> string \<Rightarrow> string \<Rightarrow> string \<Rightarrow> string \<Rightarrow> string \<Rightarrow> gomap option \<Rightarrow>
   logger \<Rightarrow> os \<Rightarrow> go_error option \<times> logger \<times> os" where
  "Allow actorID sessionID deviceID verb objectRef result meta l s =
     Log (allow_event actorID sessionID deviceID verb objectRef result meta) l s"

definition deny_event :: "string \<Rightarrow> string \<Rightarrow> string \<Rightarrow> string \<Rightarrow> string \<Rightarrow> string \<Rightarrow> gomap option \<Rightarrow> event" where
  "deny_event actorID sessionID deviceID verb objectRef reasonCode meta =
     zero_event\<lparr>ActorID := actorID, SessionID := sessionID, DeviceID := deviceID, Verb := verb,
       ObjectRef := objectRef, Decision := DenyDecision, ReasonCode := reasonCode,
       Result := ResultFailure, Meta := meta\<rparr>"

definition Deny ::
  "string \<Rightarrow> string \<Rightarrow> string \<Rightarrow> string \<Rightarrow> string \<Rightarrow> string \<Rightarrow> gomap option \<Rightarrow>
   logger \<Rightarrow> os \<Rightarrow> go_error option \<times> logger \<times> os" where
  "Deny actorID sessionID deviceID verb objectRef reasonCode meta l s =
     Log (deny_event actorID sessionID deviceID verb objectRef reasonCode meta) l s"

definition Close :: "logger \<Rightarrow> os \<Rightarrow> go_error option \<times> os" where
  "Close l s =
     (case file_Sync (lf l) s of
        (Some err, s1) \<Rightarrow> (Some err, s1)
      | (None, s1) \<Rightarrow> file_Close (lf l) s1)"

section \<open>Reading back what was written\<close>

lemma drain_reader: "drain n r = drop (rpos r) (rdata r)"
proof (induction n r rule: drain.induct)
  case (1 n r)
  show ?case
  proof (cases "length (rdata r) \<le> rpos r")
    case True
    then show ?thesis by (simp add: drain.simps [of n r] bytesReader_Read_def)
  next
    case False
    let ?chunk = "take (Suc n) (drop (rpos r) (rdata r))"
    let ?r' = "r\<lparr>rpos := rpos r + length ?chunk\<rparr>"
    have "bytesReader_Read (Suc n) r = (Inr ?chunk, ?r')"
      using False by (simp add: bytesReader_Read_def Let_def)
    moreover from this have "drain n ?r' = drop (rpos ?r') (rdata ?r')"
      using "1.IH" by auto
    moreover have "drop (rpos r + length ?chunk) (rdata r) = drop (Suc n) (drop (rpos r) (rdata r))"
      by (auto simp: min_def add.commute)
    then have "?chunk @ drop (rpos r + length ?chunk) (rdata r) = drop (rpos r) (rdata r)"
      by (simp only: append_take_drop_id)
    ultimately show ?thesis by (simp add: drain.simps [of n r])
  qed
qed

lemma drain_bytesReader [simp]: "drain n (bytesReader data) = data"
  by (simp add: drain_reader bytesReader_def)

lemma event_field_names:
  "fold_name ''ts'' = ''TS''" "fold_name ''seq'' = ''SEQ''" "fold_name ''actor_id'' = ''ACTOR_ID''"
  "fold_name ''session_id'' = ''SESSION_ID''" "fold_name ''device_id'' = ''DEVICE_ID''"
  "fold_name ''verb'' = ''VERB''" "fold_name ''object_ref'' = ''OBJECT_REF''"
  "fold_name ''decision'' = ''DECISION''" "fold_name ''reason_code'' = ''REASON_CODE''"
  "fold_name ''result'' = ''RESULT''" "fold_name ''meta'' = ''META''"
  "fold_name ''prev_hash'' = ''PREV_HASH''" "fold_name ''hash'' = ''HASH''"
  by code_simp+

lemma event_field_raw:
  "unquote ''ts'' = ''ts''" "unquote ''seq'' = ''seq''" "unquote ''actor_id'' = ''actor_id''"
  "unquote ''session_id'' = ''session_id''" "unquote ''device_id'' = ''device_id''"
  "unquote ''verb'' = ''verb''" "unquote ''object_ref'' = ''object_ref''"
  "unquote ''decision'' = ''decision''" "unquote ''reason_code'' = ''reason_code''"
  "unquote ''result'' = ''result''" "unquote ''meta'' = ''meta''"
  "unquote ''prev_hash'' = ''prev_hash''" "unquote ''hash'' = ''hash''"
  by (rule unquote_plain, simp)+

lemma set_event_field_simps:
  "set_event_field ''ts'' t e = map_option (\<lambda>v. e\<lparr>TS := v\<rparr>) (decode_time t (TS e))"
  "set_event_field ''seq'' t e = map_option (\<lambda>v. e\<lparr>Seq := v\<rparr>) (decode_int64 t (Seq e))"
  "set_event_field ''actor_id'' t e = map_option (\<lambda>v. e\<lparr>ActorID := v\<rparr>) (decode_string t (ActorID e))"
  "set_event_field ''session_id'' t e = map_option (\<lambda>v. e\<lparr>SessionID := v\<rparr>) (decode_string t (SessionID e))"
  "set_event_field ''device_id'' t e = map_option (\<lambda>v. e\<lparr>DeviceID := v\<rparr>) (decode_string t (DeviceID e))"
  "set_event_field ''verb'' t e = map_option (\<lambda>v. e\<lparr>Verb := v\<rparr>) (decode_string t (Verb e))"
  "set_event_field ''object_ref'' t e = map_option (\<lambda>v. e\<lparr>ObjectRef := v\<rparr>) (decode_string t (ObjectRef e))"
  "set_event_field ''decision'' t e = map_option (\<lambda>v. e\<lparr>Decision := v\<rparr>) (decode_string t (Decision e))"
  "set_event_field ''reason_code'' t e = map_option (\<lambda>v. e\<lparr>ReasonCode := v\<rparr>) (decode_string t (ReasonCode e))"
  "set_event_field ''result'' t e = map_option (\<lambda>v. e\<lparr>Result := v\<rparr>) (decode_string t (Result e))"
  "set_event_field ''meta'' t e = map_option (\<lambda>v. e\<lparr>Meta := v\<rparr>) (decode_map t (Meta e))"
  "set_event_field ''prev_hash'' t e = map_option (\<lambda>v. e\<lparr>PrevHash := v\<rparr>) (decode_string t (PrevHash e))"
  "set_event_field ''hash'' t e = map_option (\<lambda>v. e\<lparr>Hash := v\<rparr>) (decode_string t (Hash e))"
  by (simp_all add: set_event_field_def field_is_def event_field_names)

text \<open>
  What the decoder needs of an event to read its line back, and what it reads: the strings
  with U+FFFD in place of invalid UTF-8. An event that is storable is read back unchanged.
\<close>

definition readable :: "event \<Rightarrow> bool" where
  "readable e \<longleftrightarrow> valid_time (TS e) \<and> Meta e \<noteq> Some [] \<and> norm_map (Meta e) \<and>
     json_depth (tree_of_map (Meta e)) < max_nesting_depth"

definition sanitize :: "event \<Rightarrow> event" where
  "sanitize e = e\<lparr>ActorID := to_valid_utf8 (ActorID e), SessionID := to_valid_utf8 (SessionID e),
     DeviceID := to_valid_utf8 (DeviceID e), Verb := to_valid_utf8 (Verb e),
     ObjectRef := to_valid_utf8 (ObjectRef e), Decision := to_valid_utf8 (Decision e),
     ReasonCode := to_valid_utf8 (ReasonCode e), Result := to_valid_utf8 (Result e),
     PrevHash := to_valid_utf8 (PrevHash e), Hash := to_valid_utf8 (Hash e)\<rparr>"

definition valid_strings :: "event \<Rightarrow> bool" where
  "valid_strings e \<longleftrightarrow> valid_utf8 (ActorID e) \<and> valid_utf8 (SessionID e) \<and>
     valid_utf8 (DeviceID e) \<and> valid_utf8 (Verb e) \<and> valid_utf8 (ObjectRef e) \<and>
     valid_utf8 (Decision e) \<and> valid_utf8 (ReasonCode e) \<and> valid_utf8 (Result e) \<and>
     valid_utf8 (PrevHash e) \<and> valid_utf8 (Hash e)"

definition storable :: "event \<Rightarrow> bool" where
  "storable e \<longleftrightarrow> readable e \<and> valid_strings e"

lemma sanitize_valid: "valid_strings e \<Longrightarrow> sanitize e = e"
  by (simp add: sanitize_def valid_strings_def)

definition event_line :: "event \<Rightarrow> string" where
  "event_line e = print_tree False 0 (TObj (event_members e (TStr (format_RFC3339Nano (TS e))))) @ [newline]"

lemma marshal_event_line: "valid_time (TS e) \<Longrightarrow> \<exists>d. marshal_event e = Some d \<and> d @ [newline] = event_line e"
  by (simp add: marshal_event_def marshal_time_valid event_line_def)

lemma to_valid_utf8_nil [simp]: "to_valid_utf8 [] = []"
  by (simp add: to_valid_utf8_def)

lemma decode_event_members:
  "readable e \<Longrightarrow>
   decode_event (TObj (event_members e (TStr (format_RFC3339Nano (TS e))))) = Some (sanitize e)"
  by (simp add: readable_def decode_event_def decode_struct_def event_members_def str_member_def
      set_event_field_simps event_field_raw zero_event_def decode_map_tree sanitize_def)

lemma raw_ok_names:
  "raw_ok ''ts''" "raw_ok ''seq''" "raw_ok ''actor_id''" "raw_ok ''session_id''" "raw_ok ''device_id''"
  "raw_ok ''verb''" "raw_ok ''object_ref''" "raw_ok ''decision''" "raw_ok ''reason_code''"
  "raw_ok ''result''" "raw_ok ''meta''" "raw_ok ''prev_hash''" "raw_ok ''hash''"
  by (rule raw_ok_plain, simp)+

lemma wf_event_tree:
  "readable e \<Longrightarrow> wf_tree (TObj (event_members e (TStr (format_RFC3339Nano (TS e)))))"
  using wf_tree_of_any [of "AMap (the (Meta e))"]
  by (auto simp: readable_def event_members_def str_member_def raw_ok_names raw_ok_time num_ok_fmt_d
      tree_of_map_def norm_map_def simp del: tree_of_any.simps norm_any.simps split: option.splits)

lemma event_tree_depth:
  "readable e \<Longrightarrow> json_depth (TObj (event_members e (TStr (format_RFC3339Nano (TS e))))) \<le> max_nesting_depth"
  using json_depth_obj_le [of "event_members e (TStr (format_RFC3339Nano (TS e)))" "max_nesting_depth - 1"]
  by (auto simp: readable_def event_members_def str_member_def max_nesting_depth_def simp del: json_depth.simps(2))

lemma decode_events_space: "is_space c \<Longrightarrow> decode_events (c # s) = decode_events s"
  by (subst (1 2) decode_events.simps)
    (simp add: decoder_More_def skip_ws_def decoder_Decode_def json_value_space)

lemma decode_events_line:
  assumes "readable e"
  shows "decode_events (event_line e @ r) = map_option (\<lambda>es. sanitize e # es) (decode_events r)"
proof -
  let ?t = "TObj (event_members e (TStr (format_RFC3339Nano (TS e))))"
  have line: "event_line e @ r = print_tree False 0 ?t @ newline # r"
    by (simp add: event_line_def)
  have "json_value (print_tree False 0 ?t @ newline # r) = Some (?t, newline # r)"
    by (rule json_value_print [OF wf_event_tree [OF assms] event_tree_depth [OF assms] follow_Cons(5)])
  then have "decoder_Decode (event_line e @ r) = Some (sanitize e, newline # r)"
    unfolding line by (simp add: decoder_Decode_def decode_event_members [OF assms])
  moreover have "decoder_More (event_line e @ r)"
    by (simp add: line decoder_More_def event_members_def is_space_def)
  moreover have "decode_events (newline # r) = decode_events r"
    by (rule decode_events_space) (simp add: is_space_def)
  ultimately show ?thesis by (subst decode_events.simps) simp
qed

lemma decode_events_nil: "decode_events [] = Some []"
  by (subst decode_events.simps) (simp add: decoder_More_def skip_ws_def)

interpretation lines: record_stream event_line decode_events storable
  by unfold_locales (simp_all add: decode_events_nil decode_events_line storable_def sanitize_valid)

section \<open>What the verifier accepts\<close>

lemma verify_loop_None:
  "verify_loop prev es = None \<longleftrightarrow>
   (\<forall>e\<in>set es. computeHash e = Hash e) \<and>
   (case prev of None \<Rightarrow> es = [] \<or> chain PrevHash Hash (Hash (hd es)) (tl es)
    | Some p \<Rightarrow> chain PrevHash Hash (Hash p) es)"
  by (induction prev es rule: verify_loop.induct)
    (auto simp: hash_mismatch_def prev_mismatch_def split: option.splits)

lemma VerifyEvents_None:
  "VerifyEvents es = None \<longleftrightarrow>
   chain PrevHash Hash genesisHash es \<and> (\<forall>e\<in>set es. computeHash e = Hash e)"
  by (auto simp: VerifyEvents_def verify_loop_None split: list.splits)

lemma chain_cong: "(\<forall>e\<in>set es. f e = g e) \<Longrightarrow> chain pre f h es = chain pre g h es"
  by (induction es arbitrary: h) auto

lemma VerifyEvents_None_hash:
  "VerifyEvents es = None \<longleftrightarrow>
   chain PrevHash (\<lambda>e. sha256_hex (canonical e)) genesisHash es \<and> (\<forall>e\<in>set es. computeHash e = Hash e)"
  using chain_cong [of es "\<lambda>e. sha256_hex (canonical e)" Hash]
  by (auto simp: VerifyEvents_None computeHash_def)

lemma sha256_hex_not_genesis: "sha256_hex m \<noteq> genesisHash"
proof
  assume "sha256_hex m = genesisHash"
  then have "length (sha256_hex m) = length genesisHash" by simp
  then show False by (simp add: length_sha256_hex genesisHash_def)
qed

lemma canonical_prev:
  "\<exists>x. canonical e = x @ newline # PrevHash e"
proof
  show "canonical e = (fmt_d (Seq e) @ newline # ActorID e @ newline # SessionID e @ newline # DeviceID e @
     newline # Verb e @ newline # ObjectRef e @ newline # Decision e @ newline # ReasonCode e @
     newline # Result e) @ newline # PrevHash e"
    by (simp add: canonical_def)
qed

lemma canonical_covers_prev:
  assumes "PrevHash a \<in> insert genesisHash (range sha256_hex)"
    and "PrevHash b \<in> insert genesisHash (range sha256_hex)"
    and "canonical a = canonical b"
  shows "PrevHash a = PrevHash b"
proof -
  have "newline \<notin> set (PrevHash a)" "newline \<notin> set (PrevHash b)"
    using assms newline_not_in_sha256_hex by (auto simp: genesisHash_def)
  moreover obtain x y where "canonical a = x @ newline # PrevHash a" "canonical b = y @ newline # PrevHash b"
    using canonical_prev by metis
  ultimately show ?thesis using assms(3) split_last_eq by metis
qed

interpretation audit_chain: chained_log canonical sha256_hex PrevHash genesisHash
  by unfold_locales (rule sha256_hex_not_genesis, rule canonical_covers_prev)

section \<open>The logger keeps the chain\<close>

text \<open>
  A log as honest appends leave it: the file holds exactly the lines of the events, numbered
  from 0 and chained, and the logger knows its end.
\<close>

definition numbered :: "event list \<Rightarrow> bool" where
  "numbered es \<longleftrightarrow> (\<forall>i < length es. Seq (es ! i) = word_of_nat i)"

definition honest_log :: "event list \<Rightarrow> bool" where
  "honest_log es \<longleftrightarrow> (\<forall>e\<in>set es. storable e) \<and> numbered es \<and> VerifyEvents es = None"

definition log_state :: "logger \<Rightarrow> os \<Rightarrow> event list \<Rightarrow> bool" where
  "log_state l s es \<longleftrightarrow> quiet s \<and> \<not> dir_exists s (lf l) \<and>
     file_at s (lf l) = Some (concat (map event_line es)) \<and> honest_log es \<and>
     lastHash l = chain_end Hash genesisHash es \<and> lseq l = word_of_nat (length es)"

text \<open>What a caller of \<^verbatim>\<open>Log\<close> may pass, and the event that records it.\<close>

definition loggable :: "event \<Rightarrow> bool" where
  "loggable e \<longleftrightarrow> valid_utf8 (ActorID e) \<and> valid_utf8 (SessionID e) \<and> valid_utf8 (DeviceID e) \<and>
     valid_utf8 (Verb e) \<and> valid_utf8 (ObjectRef e) \<and> valid_utf8 (Decision e) \<and>
     valid_utf8 (ReasonCode e) \<and> valid_utf8 (Result e) \<and>
     Meta e \<noteq> Some [] \<and> norm_map (Meta e) \<and> json_depth (tree_of_map (Meta e)) < max_nesting_depth"

definition same_entry :: "event \<Rightarrow> event \<Rightarrow> bool" where
  "same_entry q e \<longleftrightarrow> ActorID e = ActorID q \<and> SessionID e = SessionID q \<and> DeviceID e = DeviceID q \<and>
     Verb e = Verb q \<and> ObjectRef e = ObjectRef q \<and> Decision e = Decision q \<and>
     ReasonCode e = ReasonCode q \<and> Result e = Result q \<and> Meta e = Meta q"

text \<open>The event that \<^verbatim>\<open>Log\<close> writes.\<close>

definition stamped :: "event \<Rightarrow> logger \<Rightarrow> os \<Rightarrow> event" where
  "stamped e l s =
     (let e1 = e\<lparr>Seq := lseq l, TS := clock s (ticks s), PrevHash := lastHash l\<rparr>
      in e1\<lparr>Hash := computeHash e1\<rparr>)"

lemma stamped_simps [simp]:
  "Seq (stamped e l s) = lseq l" "TS (stamped e l s) = clock s (ticks s)"
  "PrevHash (stamped e l s) = lastHash l" "Meta (stamped e l s) = Meta e"
  "ActorID (stamped e l s) = ActorID e" "SessionID (stamped e l s) = SessionID e"
  "DeviceID (stamped e l s) = DeviceID e" "Verb (stamped e l s) = Verb e"
  "ObjectRef (stamped e l s) = ObjectRef e" "Decision (stamped e l s) = Decision e"
  "ReasonCode (stamped e l s) = ReasonCode e" "Result (stamped e l s) = Result e"
  by (simp_all add: stamped_def Let_def)

lemma canonical_hash_update [simp]: "canonical (e\<lparr>Hash := h\<rparr>) = canonical e"
  by (simp add: canonical_def)

lemma computeHash_stamped [simp]: "computeHash (stamped e l s) = Hash (stamped e l s)"
  by (simp add: stamped_def Let_def computeHash_def)

lemma same_entry_stamped [simp]: "same_entry e (stamped e l s)"
  by (simp add: same_entry_def)

lemma Hash_stamped: "Hash (stamped e l s) = sha256_hex (canonical (stamped e l s))"
  using computeHash_stamped [of e l s] by (simp add: computeHash_def)

lemma honest_end_valid: "honest_log es \<Longrightarrow> valid_utf8 (chain_end Hash genesisHash es)"
proof (cases "es = []")
  case True
  then show ?thesis by (simp add: genesisHash_def valid_utf8_ascii)
next
  case False
  assume "honest_log es"
  with False have "computeHash (last es) = Hash (last es)"
    by (auto simp: honest_log_def VerifyEvents_None)
  with False show ?thesis by (metis chain_end_def computeHash_def valid_utf8_sha256_hex)
qed

lemma storable_stamped:
  assumes "log_state l s es" and "loggable q"
  shows "storable (stamped q l s)"
proof -
  have "valid_utf8 (lastHash l)" using assms(1) honest_end_valid by (auto simp: log_state_def)
  moreover have "valid_utf8 (Hash (stamped q l s))"
    unfolding Hash_stamped by (rule valid_utf8_sha256_hex)
  ultimately show ?thesis
    using assms by (simp add: storable_def readable_def valid_strings_def loggable_def log_state_def quiet_def)
qed

lemma Log_eq:
  assumes "faults s = []" and "valid_time (clock s (ticks s))" and "file_at s (lf l) = Some old"
  shows "Log q l s =
    (None, l\<lparr>lseq := lseq l + 1, lastHash := Hash (stamped q l s)\<rparr>,
     set_file (lf l) (old @ event_line (stamped q l s)) (s\<lparr>ticks := Suc (ticks s)\<rparr>))"
proof -
  let ?s = "s\<lparr>ticks := Suc (ticks s)\<rparr>"
  obtain d where d: "marshal_event (stamped q l s) = Some d" "d @ [newline] = event_line (stamped q l s)"
    using marshal_event_line [of "stamped q l s"] assms(2) by auto
  have "file_Write (lf l) (d @ [newline]) ?s = (None, set_file (lf l) (old @ d @ [newline]) ?s)"
    using assms by (intro file_Write_ok) simp_all
  then show ?thesis
    using assms d by (simp add: Log_def time_Now_def Let_def stamped_def)
qed

lemma numbered_snoc: "numbered es \<Longrightarrow> Seq e = word_of_nat (length es) \<Longrightarrow> numbered (es @ [e])"
  by (auto simp: numbered_def nth_append less_Suc_eq)

lemma VerifyEvents_snoc:
  "VerifyEvents es = None \<Longrightarrow> PrevHash e = chain_end Hash genesisHash es \<Longrightarrow> computeHash e = Hash e \<Longrightarrow>
   VerifyEvents (es @ [e]) = None"
  by (simp add: VerifyEvents_None)

lemma honest_snoc:
  "honest_log es \<Longrightarrow> storable e \<Longrightarrow> Seq e = word_of_nat (length es) \<Longrightarrow>
   PrevHash e = chain_end Hash genesisHash es \<Longrightarrow> computeHash e = Hash e \<Longrightarrow> honest_log (es @ [e])"
  by (auto simp: honest_log_def numbered_snoc VerifyEvents_snoc)

lemma Log_step:
  assumes "log_state l s es" and "loggable q"
  shows "\<exists>l' s'. Log q l s = (None, l', s') \<and> log_state l' s' (es @ [stamped q l s]) \<and> lf l' = lf l"
proof -
  have st: "storable (stamped q l s)" using assms by (rule storable_stamped)
  have eq: "Log q l s = (None, l\<lparr>lseq := lseq l + 1, lastHash := Hash (stamped q l s)\<rparr>,
     set_file (lf l) (concat (map event_line es) @ event_line (stamped q l s)) (s\<lparr>ticks := Suc (ticks s)\<rparr>))"
    using assms(1) by (intro Log_eq) (auto simp: log_state_def quiet_def)
  have "honest_log (es @ [stamped q l s])"
    using assms(1) st by (intro honest_snoc) (auto simp: log_state_def)
  then show ?thesis
    using assms(1) by (simp add: eq log_state_def add.commute)
qed

interpretation audit_journal: journal Log log_state loggable same_entry
proof
  fix l s es q
  assume "log_state l s es" "loggable q"
  from Log_step [OF this] show
    "\<exists>e l' s'. Log q l s = (None, l', s') \<and> same_entry q e \<and> log_state l' s' (es @ [e])"
    by (meson same_entry_stamped)
qed

section \<open>Opening a log\<close>

lemma ReadFile_lines:
  assumes "faults s = []" and "\<not> dir_exists s p" and "file_at s p = Some (concat (map event_line es))"
    and "\<forall>e\<in>set es. storable e"
  shows "ReadFile p s = (Inr es, s)"
  using assms by (simp add: ReadFile_def os_ReadFile_ok lines.dec_records)

definition resume :: "string \<Rightarrow> event list \<Rightarrow> logger" where
  "resume path es = \<lparr>lf = path, lseq = (if es = [] then 0 else Seq (last es) + 1),
     lastHash = chain_end Hash genesisHash es\<rparr>"

lemma Open_eq:
  assumes "quiet s" and "openable path s" and "contents s path = concat (map event_line es)"
    and "\<forall>e\<in>set es. storable e"
  shows "Open path s = (Inr (resume path es), set_file path (concat (map event_line es)) (made_parent path s))"
proof -
  let ?s = "set_file path (concat (map event_line es)) (made_parent path s)"
  have "ReadFile path ?s = (Inr es, ?s)"
    using assms by (intro ReadFile_lines) (simp_all add: quiet_def)
  then show ?thesis
    using assms by (simp add: Open_def MkdirAll_parent OpenAppend_parent resume_def chain_end_def)
qed

lemma numbered_last: "numbered es \<Longrightarrow> es \<noteq> [] \<Longrightarrow> Seq (last es) + 1 = word_of_nat (length es)"
  by (cases es rule: rev_cases) (auto simp: numbered_def nth_append add.commute)

lemma Open_state:
  assumes "quiet s" and "openable path s" and "contents s path = concat (map event_line es)"
    and "honest_log es"
  shows "\<exists>l s'. Open path s = (Inr l, s') \<and> log_state l s' es \<and> lf l = path"
proof -
  have "\<forall>e\<in>set es. storable e" using assms(4) by (simp add: honest_log_def)
  from Open_eq [OF assms(1-3) this] show ?thesis
    using assms numbered_last [of es] by (auto simp: log_state_def resume_def honest_log_def)
qed

lemma VerifyChain_log_state: "log_state l s es \<Longrightarrow> VerifyChain (lf l) s = (None, s)"
  by (simp add: VerifyChain_def ReadFile_lines log_state_def honest_log_def quiet_def)

lemma ReadFile_log_state: "log_state l s es \<Longrightarrow> ReadFile (lf l) s = (Inr es, s)"
  by (simp add: ReadFile_lines log_state_def honest_log_def quiet_def)

lemma Log_lf: "Log q l s = (r, l', s') \<Longrightarrow> lf l' = lf l"
  by (auto simp: Log_def Let_def split: prod.splits option.splits)

lemma append_all_lf: "append_all Log qs l s = (r, l', s') \<Longrightarrow> lf l' = lf l"
proof (induction qs arbitrary: l s)
  case (Cons q qs)
  then show ?case by (auto dest: Log_lf split: prod.splits option.splits)
qed simp

section \<open>Properties\<close>

subsection \<open>Honest use\<close>

text \<open>
  C1. Opening a log, new or with events from earlier runs, and logging any sequence of
  entries leaves a file that verifies and from which \<^verbatim>\<open>ReadFile\<close> returns the earlier events
  followed by one event for each entry, in order, numbered without gaps.
\<close>

theorem log_session_verifies:
  assumes "quiet s" and "openable path s" and "contents s path = concat (map event_line old)"
    and "honest_log old" and "\<forall>q\<in>set qs. loggable q"
  shows "\<exists>l s1 l' s2 new. Open path s = (Inr l, s1) \<and> append_all Log qs l s1 = (None, l', s2) \<and>
     list_all2 same_entry qs new \<and> ReadFile path s2 = (Inr (old @ new), s2) \<and>
     VerifyChain path s2 = (None, s2) \<and> numbered (old @ new)"
proof -
  obtain l s1 where 1: "Open path s = (Inr l, s1)" "log_state l s1 old" "lf l = path"
    using Open_state [OF assms(1-4)] by blast
  obtain new l' s2 where 2: "append_all Log qs l s1 = (None, l', s2)" "list_all2 same_entry qs new"
      "log_state l' s2 (old @ new)"
    using audit_journal.app_all [OF 1(2) assms(5)] by blast
  have "lf l' = path" using append_all_lf [OF 2(1)] 1(3) by simp
  with 1 2 show ?thesis
    using ReadFile_log_state [OF 2(3)] VerifyChain_log_state [OF 2(3)]
    by (auto simp: log_state_def honest_log_def)
qed

definition demo_entry :: event where
  "demo_entry = allow_event ''eo'' ''s1'' ''host'' ''posture.set'' ''posture'' ResultSuccess
     (Some [(''from'', AStr ''NORMAL''), (''to'', AStr ''FOCUS'')])"

lemma loggable_demo: "loggable demo_entry"
  by (simp add: loggable_def demo_entry_def allow_event_def zero_event_def valid_utf8_ascii
      norm_map_def AllowDecision_def ResultSuccess_def tree_of_map_def max_nesting_depth_def)

lemma openable_demo: "openable ''var/audit.jsonl'' fresh_os" "contents fresh_os ''var/audit.jsonl'' = []"
  by (code_simp, simp add: contents_def file_at_def fresh_os_def)

lemma honest_nil: "honest_log []"
  by (simp add: honest_log_def numbered_def VerifyEvents_def)

theorem log_session_verifies_witness:
  "\<exists>l s1 l' s2 new. Open ''var/audit.jsonl'' fresh_os = (Inr l, s1) \<and>
     append_all Log [demo_entry, demo_entry] l s1 = (None, l', s2) \<and>
     list_all2 same_entry [demo_entry, demo_entry] new \<and>
     ReadFile ''var/audit.jsonl'' s2 = (Inr ([] @ new), s2) \<and>
     VerifyChain ''var/audit.jsonl'' s2 = (None, s2) \<and> numbered ([] @ new)"
  by (rule log_session_verifies) (simp_all add: openable_demo honest_nil loggable_demo)

section \<open>How reading ends\<close>

lemma decoder_Decode_two: "decoder_Decode s = Some (e, r) \<Longrightarrow> length r + 2 \<le> length s"
  by (auto simp: decoder_Decode_def json_value_def parse_json_def decode_event_def decode_struct_def
      dest!: parse_value_two split: option.splits if_splits jtree.splits)

text \<open>An iteration of the loop in \<^verbatim>\<open>ReadFile\<close>: from what is left to read to what is left then.\<close>

definition read_step :: "string \<Rightarrow> string \<Rightarrow> bool" where
  "read_step s r \<longleftrightarrow> decoder_More s \<and> (\<exists>e. decoder_Decode s = Some (e, r))"

lemma read_steps: "(read_step ^^ k) s r \<Longrightarrow> length r + 2 * k \<le> length s"
proof (induction k arbitrary: r)
  case (Suc k)
  then obtain u where u: "(read_step ^^ k) s u" "read_step u r" by auto
  from u(2) have "length r + 2 \<le> length u" by (auto simp: read_step_def dest: decoder_Decode_two)
  with Suc.IH [OF u(1)] show ?case by simp
qed simp

lemma read_stops:
  "\<exists>k r. (read_step ^^ k) s r \<and> (\<nexists>u. read_step r u) \<and>
     map_option length (decode_events s) = (if decoder_More r then None else Some k)"
proof (induction s rule: decode_events.induct)
  case (1 s)
  show ?case
  proof (cases "\<exists>u. read_step s u")
    case True
    then obtain e u where u: "decoder_More s" "decoder_Decode s = Some (e, u)" "read_step s u" by (auto simp: read_step_def)
    from "1.IH" [OF u(1,2) refl] obtain k r where k: "(read_step ^^ k) u r" "\<nexists>v. read_step r v"
        "map_option length (decode_events u) = (if decoder_More r then None else Some k)" by auto
    have "(read_step ^^ Suc k) s r" using u(3) k(1) by (rule relpowp_Suc_I2)
    moreover have "map_option length (decode_events s) = (if decoder_More r then None else Some (Suc k))"
      using k(3) u by (subst decode_events.simps) (auto simp: option.map_comp comp_def split: if_splits)
    ultimately show ?thesis using k(2) by blast
  next
    case False
    then have "map_option length (decode_events s) = (if decoder_More s then None else Some 0)"
      by (subst decode_events.simps) (auto simp: read_step_def split: option.splits)
    then show ?thesis using False by (intro exI [of _ 0] exI [of _ s]) simp
  qed
qed

text \<open>
  C27. Reading a log ends, whatever bytes the file holds: the reader delivers every byte of it, and
  the loop stops after at most one event for every two bytes, with an error if the decoder expects
  more and otherwise with one event per iteration.
\<close>

theorem reading_ends:
  "drain n (bytesReader data) = data \<and>
   (\<exists>k r. 2 * k \<le> length data \<and> (read_step ^^ k) data r \<and> (\<nexists>u. read_step r u) \<and>
      map_option length (decode_events data) = (if decoder_More r then None else Some k))"
proof -
  obtain k r where k: "(read_step ^^ k) data r" "\<nexists>u. read_step r u"
      "map_option length (decode_events data) = (if decoder_More r then None else Some k)"
    using read_stops by blast
  moreover have "2 * k \<le> length data" using read_steps [OF k(1)] by simp
  ultimately show ?thesis by auto
qed

end
