(* ===== verification/Audit_Tamper.thy ===== *)
theory Audit_Tamper
  imports Audit_Log
begin

text \<open>
  What verifying an audit log establishes and what it does not: tamper evidence up to
  collisions of SHA-256, where the verifier reports a fault, and the changes that no
  verification can see.
\<close>

section \<open>Tamper evidence\<close>

text \<open>What the hash covers: all of an event but its time stamp and its metadata.\<close>

definition covered :: "event \<Rightarrow> event" where
  "covered e = e\<lparr>TS := zero_time, Meta := None\<rparr>"

definition newline_free :: "event \<Rightarrow> bool" where
  "newline_free e \<longleftrightarrow> newline \<notin> set (ActorID e) \<and> newline \<notin> set (SessionID e) \<and> newline \<notin> set (DeviceID e) \<and>
     newline \<notin> set (Verb e) \<and> newline \<notin> set (ObjectRef e) \<and> newline \<notin> set (Decision e) \<and>
     newline \<notin> set (ReasonCode e) \<and> newline \<notin> set (Result e)"

lemma canonical_inject:
  assumes "newline_free a" and "newline_free b" and "canonical a = canonical b"
  shows "covered a = covered (b\<lparr>Hash := Hash a\<rparr>)"
  using assms newline_not_in_fmt_d
  by (cases a; cases b) (auto simp: newline_free_def canonical_def covered_def split_first_eq)

text \<open>The hash that stands for a whole log, the one of its last event.\<close>

definition head_hash :: "event list \<Rightarrow> string" where
  "head_hash es = chain_end Hash genesisHash es"

lemma head_hash_computed:
  "VerifyEvents es = None \<Longrightarrow> head_hash es = chain_end (\<lambda>e. sha256_hex (canonical e)) genesisHash es"
  by (auto simp: head_hash_def chain_end_def VerifyEvents_None computeHash_def)

lemma same_canonical_or_collision:
  assumes "VerifyEvents es = None" and "VerifyEvents fs = None" and "head_hash es = head_hash fs"
  shows "map canonical es = map canonical fs \<or>
     (\<exists>a\<in>set es. \<exists>b\<in>set fs. sha256_collision (canonical a) (canonical b))"
proof -
  have "map canonical es = map canonical fs \<or>
     (\<exists>i < min (length es) (length fs). collides canonical sha256_hex (rev es ! i) (rev fs ! i))"
    using assms by (intro audit_chain.agree_or_collide)
      (auto simp: VerifyEvents_None_hash head_hash_computed [symmetric])
  then show ?thesis
  proof
    assume "\<exists>i < min (length es) (length fs). collides canonical sha256_hex (rev es ! i) (rev fs ! i)"
    then obtain i where i: "i < length es" "i < length fs" "collides canonical sha256_hex (rev es ! i) (rev fs ! i)"
      by auto
    then have "rev es ! i \<in> set es" "rev fs ! i \<in> set fs" by (metis length_rev nth_mem set_rev)+
    with i(3) show ?thesis by (auto simp: collides_def sha256_collision_def sha256_hex_inject)
  qed simp
qed

lemma same_log_or_collision:
  assumes "VerifyEvents es = None" and "VerifyEvents fs = None" and "head_hash es = head_hash fs"
    and "\<forall>e\<in>set es. newline_free e" and "\<forall>e\<in>set fs. newline_free e"
  shows "map covered es = map covered fs \<or>
     (\<exists>a\<in>set es. \<exists>b\<in>set fs. sha256_collision (canonical a) (canonical b))"
  using same_canonical_or_collision [OF assms(1-3)]
proof
  assume eq: "map canonical es = map canonical fs"
  have "covered (es ! i) = covered (fs ! i)" if "i < length es" for i
  proof -
    have mem: "es ! i \<in> set es" "fs ! i \<in> set fs" and "canonical (es ! i) = canonical (fs ! i)"
      using that map_eq_imp_length_eq [OF eq] eq by (auto simp: list_eq_iff_nth_eq)
    moreover from this have "Hash (es ! i) = Hash (fs ! i)"
      using assms(1,2) by (metis VerifyEvents_None computeHash_def)
    moreover have "(fs ! i)\<lparr>Hash := Hash (fs ! i)\<rparr> = fs ! i" by simp
    ultimately show ?thesis
      using assms(4,5) canonical_inject [of "es ! i" "fs ! i"] by (metis (no_types))
  qed
  then have "map covered es = map covered fs"
    using map_eq_imp_length_eq [OF eq] by (intro nth_equalityI) auto
  then show ?thesis ..
qed simp

text \<open>
  C6. Tamper evidence. Two logs that both pass \<^verbatim>\<open>VerifyEvents\<close> and end in the same hash hold the
  same events, field by field except for \<^verbatim>\<open>ts\<close> and \<^verbatim>\<open>meta\<close>, unless two of their events exhibit a
  collision of SHA-256. Nothing is assumed of SHA-256; the fields must be free of newlines,
  the separator of the hashed text.
\<close>

theorem verified_logs_agree_or_collide:
  assumes "VerifyEvents es = None" and "VerifyEvents fs = None" and "head_hash es = head_hash fs"
    and "\<forall>e\<in>set es. newline_free e" and "\<forall>e\<in>set fs. newline_free e"
  shows "map covered es = map covered fs \<or>
     (\<exists>a\<in>set es. \<exists>b\<in>set fs. sha256_collision (canonical a) (canonical b))"
  using assms by (rule same_log_or_collision)

definition demo_event :: event where
  "demo_event = (let e = demo_entry\<lparr>PrevHash := genesisHash\<rparr> in e\<lparr>Hash := computeHash e\<rparr>)"

lemma demo_event_ok:
  "VerifyEvents [demo_event] = None" "VerifyEvents [demo_event\<lparr>TS := t\<rparr>] = None"
  "newline_free demo_event" "newline_free (demo_event\<lparr>TS := t\<rparr>)"
  by (simp_all add: VerifyEvents_def demo_event_def demo_entry_def Let_def computeHash_def canonical_def
      allow_event_def zero_event_def newline_free_def AllowDecision_def ResultSuccess_def)

theorem verified_logs_agree_or_collide_witness:
  "map covered [demo_event] = map covered [demo_event\<lparr>TS := epoch\<rparr>] \<or>
   (\<exists>a\<in>set [demo_event]. \<exists>b\<in>set [demo_event\<lparr>TS := epoch\<rparr>]. sha256_collision (canonical a) (canonical b))"
  by (rule verified_logs_agree_or_collide) (simp_all add: demo_event_ok head_hash_def)

text \<open>An edit in place: one event of a verified log is replaced by another.\<close>

lemma head_hash_update:
  "i < length es \<Longrightarrow> Suc i < length es \<or> Hash e = Hash (es ! i) \<Longrightarrow> head_hash (es[i := e]) = head_hash es"
  by (cases "Suc i = length es") (auto simp: head_hash_def chain_end_def last_conv_nth nth_list_update)

lemma covered_update_eq:
  "i < length es \<Longrightarrow> map covered (es[i := e]) = map covered es \<Longrightarrow> covered e = covered (es ! i)"
  by (metis length_list_update nth_list_update_eq nth_map)



section \<open>Where the verifier reports\<close>

definition prev_expected :: "event list \<Rightarrow> nat \<Rightarrow> string" where
  "prev_expected es i = (if i = 0 then genesisHash else Hash (es ! (i - 1)))"

definition broken :: "event list \<Rightarrow> nat \<Rightarrow> bool" where
  "broken es i \<longleftrightarrow> computeHash (es ! i) \<noteq> Hash (es ! i) \<or> PrevHash (es ! i) \<noteq> prev_expected es i"

definition broken_after :: "event \<Rightarrow> event list \<Rightarrow> nat \<Rightarrow> bool" where
  "broken_after p es i \<longleftrightarrow> computeHash (es ! i) \<noteq> Hash (es ! i) \<or>
     PrevHash (es ! i) \<noteq> Hash ((p # es) ! i)"

lemma verify_loop_after:
  "case verify_loop (Some p) es of
     None \<Rightarrow> \<forall>i < length es. \<not> broken_after p es i
   | Some err \<Rightarrow> \<exists>i < length es. (\<exists>r. err = ErrTampered (Seq (es ! i)) r) \<and> broken_after p es i \<and>
       (\<forall>j < i. \<not> broken_after p es j)"
proof (induction es arbitrary: p)
  case (Cons e es)
  show ?case
  proof (cases "broken_after p (e # es) 0")
    case True
    then show ?thesis
      by (auto simp: broken_after_def hash_mismatch_def prev_mismatch_def)
  next
    case False
    have Suc: "broken_after p (e # es) (Suc i) = broken_after e es i" for i
      by (simp add: broken_after_def)
    from False have step: "verify_loop (Some p) (e # es) = verify_loop (Some e) es"
      by (simp add: broken_after_def)
    show ?thesis
    proof (cases "verify_loop (Some e) es")
      case None
      with Cons.IH [of e] False step show ?thesis by (simp add: All_less_Suc2 Suc)
    next
      case (Some err)
      then obtain i where "i < length es" "\<exists>r. err = ErrTampered (Seq (es ! i)) r"
          "broken_after e es i" "\<forall>j < i. \<not> broken_after e es j"
        using Cons.IH [of e] by auto
      then have "Suc i < length (e # es) \<and> (\<exists>r. err = ErrTampered (Seq ((e # es) ! Suc i)) r) \<and>
          broken_after p (e # es) (Suc i) \<and> (\<forall>j < Suc i. \<not> broken_after p (e # es) j)"
        using False by (simp add: Suc All_less_Suc2)
      then show ?thesis unfolding step Some option.case by blast
    qed
  qed
qed simp

lemma broken_Cons:
  "PrevHash e = genesisHash \<Longrightarrow> computeHash e = Hash e \<Longrightarrow>
   broken (e # es) i \<longleftrightarrow> (\<exists>k. i = Suc k \<and> broken_after e es k)"
  by (cases i) (simp_all add: broken_def prev_expected_def broken_after_def)

text \<open>
  C23. \<^verbatim>\<open>VerifyEvents\<close> accepts exactly the lists in which every stored hash is the recomputed one,
  the first event links to the genesis hash and every other event to the hash before it; when
  it rejects, the error names the sequence number of the first event that breaks this.
\<close>

theorem VerifyEvents_first_broken:
  "case VerifyEvents es of
     None \<Rightarrow> \<forall>i < length es. \<not> broken es i
   | Some err \<Rightarrow> \<exists>i < length es. (\<exists>r. err = ErrTampered (Seq (es ! i)) r) \<and> broken es i \<and>
       (\<forall>j < i. \<not> broken es j)"
proof (cases es)
  case (Cons e es')
  show ?thesis
  proof (cases "PrevHash e = genesisHash \<and> computeHash e = Hash e")
    case True
    then have "VerifyEvents es = verify_loop (Some e) es'"
      by (simp add: Cons VerifyEvents_def)
    with True verify_loop_after [where p = e and es = es'] show ?thesis
      by (fastforce simp: Cons broken_Cons split: option.splits)
  next
    case False
    then have "broken es 0" by (auto simp: Cons broken_def prev_expected_def)
    with False show ?thesis
      by (auto simp: Cons VerifyEvents_def hash_mismatch_def)
  qed
qed (simp add: VerifyEvents_def)

theorem VerifyEvents_first_broken_witness:
  "VerifyEvents [demo_event, demo_event] = Some (prev_mismatch demo_event demo_event) \<and>
   (\<exists>i < 2. (\<exists>r. prev_mismatch demo_event demo_event = ErrTampered (Seq ([demo_event, demo_event] ! i)) r) \<and>
      broken [demo_event, demo_event] i \<and> (\<forall>j < i. \<not> broken [demo_event, demo_event] j))"
proof -
  have ok: "PrevHash demo_event = genesisHash" "computeHash demo_event = Hash demo_event"
    using demo_event_ok(1) by (auto simp: VerifyEvents_None)
  then have "Hash demo_event \<noteq> genesisHash"
    using sha256_hex_not_genesis by (metis computeHash_def)
  with ok have v: "VerifyEvents [demo_event, demo_event] = Some (prev_mismatch demo_event demo_event)"
    by (simp add: VerifyEvents_def)
  show ?thesis
    using VerifyEvents_first_broken [of "[demo_event, demo_event]"] by (simp add: v numeral_2_eq_2)
qed

section \<open>What verification cannot see\<close>

text \<open>The verifier looks at an event only through these four.\<close>

definition same_to_verifier :: "event \<Rightarrow> event \<Rightarrow> bool" where
  "same_to_verifier a b \<longleftrightarrow> canonical a = canonical b \<and> Seq a = Seq b \<and> PrevHash a = PrevHash b \<and> Hash a = Hash b"

lemma verify_loop_cong:
  "list_all2 same_to_verifier es fs \<Longrightarrow> rel_option same_to_verifier p q \<Longrightarrow> verify_loop p es = verify_loop q fs"
proof (induction es fs arbitrary: p q rule: list_all2_induct)
  case (Cons e es f fs)
  have rec: "verify_loop (Some e) es = verify_loop (Some f) fs"
    using Cons by (intro Cons.IH) simp
  show ?case
    using Cons.hyps Cons.prems rec
    by (cases p; cases q) (auto simp: same_to_verifier_def computeHash_def hash_mismatch_def prev_mismatch_def)
qed simp

lemma VerifyEvents_cong:
  "list_all2 same_to_verifier es fs \<Longrightarrow> VerifyEvents es = VerifyEvents fs"
  using verify_loop_cong [of es fs None None]
  by (cases es; cases fs) (auto simp: VerifyEvents_def same_to_verifier_def)

text \<open>
  C39. The hash does not cover \<^verbatim>\<open>ts\<close> and \<^verbatim>\<open>meta\<close>: whatever time stamps and metadata are put into the
  events of a log, the verdict of \<^verbatim>\<open>VerifyEvents\<close> stays the same.
\<close>

theorem time_and_meta_not_covered:
  "VerifyEvents (map (\<lambda>e. e\<lparr>TS := t e, Meta := m e\<rparr>) es) = VerifyEvents es"
  by (rule VerifyEvents_cong)
    (simp add: list_all2_map1 same_to_verifier_def canonical_def list.rel_refl)

text \<open>
  A newline inside a field makes the hashed text ambiguous: the part of an actor after a
  newline can be moved into the session, and the verdict stays the same.
\<close>

theorem newline_moves_between_fields:
  assumes "ActorID e = actor @ newline # rest"
  shows "VerifyEvents (before @ e\<lparr>ActorID := actor, SessionID := rest @ newline # SessionID e\<rparr> # after) =
    VerifyEvents (before @ e # after)"
  by (rule VerifyEvents_cong)
    (simp add: assms list_all2_append same_to_verifier_def canonical_def list.rel_refl)

theorem newline_moves_between_fields_witness:
  "VerifyEvents ([] @ (zero_event\<lparr>ActorID := ''eo'' @ newline # ''x''\<rparr>)
      \<lparr>ActorID := ''eo'', SessionID := ''x'' @ newline # SessionID (zero_event\<lparr>ActorID := ''eo'' @ newline # ''x''\<rparr>)\<rparr> # []) =
   VerifyEvents ([] @ zero_event\<lparr>ActorID := ''eo'' @ newline # ''x''\<rparr> # [])"
  by (rule newline_moves_between_fields) simp

text \<open>
  Removing events from the end is not detected: every prefix of a verified log verifies.
\<close>

theorem truncation_not_detected:
  assumes "VerifyEvents es = None"
  shows "VerifyEvents (take n es) = None"
  using assms by (auto simp: VerifyEvents_None chain_take dest: in_set_takeD)

theorem truncation_not_detected_witness: "VerifyEvents (take 0 [demo_event]) = None"
  by (rule truncation_not_detected) (rule demo_event_ok)

text \<open>
  A closing brace or bracket after the events ends the reader's loop: what follows is read by
  nobody.
\<close>

lemma decode_events_stop: "decode_events (CHR ''}'' # r) = Some []"
  by (subst decode_events.simps) (simp add: decoder_More_def is_space_def)

lemma ReadFile_stop:
  assumes "faults s = []" and "\<not> dir_exists s p"
    and "file_at s p = Some (concat (map event_line es) @ CHR ''}'' # rest)" and "\<forall>e\<in>set es. storable e"
  shows "ReadFile p s = (Inr es, s)"
  using assms by (simp add: ReadFile_def os_ReadFile_ok lines.dec_concat decode_events_stop)

text \<open>
  C40. With one closing brace after its events a log still opens, takes new entries without an
  error, and verifies; but the entries logged from then on are not among the events read back.
\<close>

theorem stray_brace_hides_new_events:
  assumes "quiet s" and "openable path s" and "honest_log es"
    and "contents s path = concat (map event_line es) @ CHR ''}'' # rest"
  shows "\<exists>l s1 l' s2. Open path s = (Inr l, s1) \<and> Log q l s1 = (None, l', s2) \<and>
     ReadFile path s2 = (Inr es, s2) \<and> VerifyChain path s2 = (None, s2)"
proof -
  let ?d = "concat (map event_line es) @ CHR ''}'' # rest"
  let ?s1 = "set_file path ?d (made_parent path s)"
  have st: "\<forall>e\<in>set es. storable e" and v: "VerifyEvents es = None" using assms(3) by (auto simp: honest_log_def)
  have "ReadFile path ?s1 = (Inr es, ?s1)"
    using assms st by (intro ReadFile_stop) (simp_all add: quiet_def)
  then have 1: "Open path s = (Inr (resume path es), ?s1)"
    using assms by (simp add: Open_def MkdirAll_parent OpenAppend_parent resume_def chain_end_def)
  let ?e = "stamped q (resume path es) ?s1"
  let ?s2 = "set_file path (?d @ event_line ?e) (?s1\<lparr>ticks := Suc (ticks ?s1)\<rparr>)"
  have 2: "Log q (resume path es) ?s1 =
      (None, resume path es\<lparr>lseq := lseq (resume path es) + 1, lastHash := Hash ?e\<rparr>, ?s2)"
    using assms(1) Log_eq [of ?s1 "resume path es" ?d q] by (simp add: quiet_def resume_def)
  have 3: "ReadFile path ?s2 = (Inr es, ?s2)"
    using assms(1,2) st by (intro ReadFile_stop) (simp_all add: quiet_def)
  with 1 2 v show ?thesis by (auto simp: VerifyChain_def)
qed

theorem stray_brace_hides_new_events_witness:
  "\<exists>l s1 l' s2. Open ''var/audit.jsonl'' (fresh_os\<lparr>files := [(''var/audit.jsonl'', ''}'')]\<rparr>) = (Inr l, s1) \<and>
     Log demo_entry l s1 = (None, l', s2) \<and>
     ReadFile ''var/audit.jsonl'' s2 = (Inr [], s2) \<and> VerifyChain ''var/audit.jsonl'' s2 = (None, s2)"
proof (rule stray_brace_hides_new_events)
  show "openable ''var/audit.jsonl'' (fresh_os\<lparr>files := [(''var/audit.jsonl'', ''}'')]\<rparr>)" by code_simp
  show "contents (fresh_os\<lparr>files := [(''var/audit.jsonl'', ''}'')]\<rparr>) ''var/audit.jsonl'' =
      concat (map event_line []) @ CHR ''}'' # []" by code_simp
qed (simp_all add: honest_nil)

end
