(* ===== verification/Audit_Faults.thy ===== *)
theory Audit_Faults
  imports Audit_Tamper
begin

text \<open>
  The audit log when things go wrong: a call of the operating system that fails, an argument
  that is not UTF-8, a second process that appends to the same file.
\<close>

section \<open>An entry that fails\<close>

text \<open>
  C22. \<^verbatim>\<open>Log\<close> under every fault of the environment: it reports success only if the event's whole line
  is at the end of the file and the logger has moved on to the next number and the event's
  hash; when it reports an error, the logger is unchanged and the file has kept what it held,
  followed by some part of the line.
\<close>

theorem Log_outcome:
  assumes "file_at s (lf l) = Some old"
  shows "case Log q l s of
      (None, l', s') \<Rightarrow>
        file_at s' (lf l) = Some (old @ event_line (stamped q l s)) \<and>
        l' = l\<lparr>lseq := lseq l + 1, lastHash := Hash (stamped q l s)\<rparr>
    | (Some err, l', s') \<Rightarrow>
        l' = l \<and> (\<exists>n. file_at s' (lf l) = Some (old @ take n (event_line (stamped q l s))))"
proof -
  let ?e = "stamped q l s"
  have e: "?e = (let e1 = q\<lparr>Seq := lseq l, TS := clock s (ticks s), PrevHash := lastHash l\<rparr>
      in e1\<lparr>Hash := computeHash e1\<rparr>)" by (simp add: stamped_def)
  show ?thesis
  proof (cases "marshal_event ?e")
    case None
    then have "Log q l s = (Some (WrapError ''audit: marshal event: '' JsonError []), l, s\<lparr>ticks := Suc (ticks s)\<rparr>)"
      by (simp add: Log_def time_Now_def e Let_def)
    with assms show ?thesis by (auto intro: exI [of _ 0])
  next
    case (Some d)
    then have d: "d @ [newline] = event_line ?e"
      by (auto simp: marshal_event_def marshal_time_def event_line_def split: if_splits)
    have "\<exists>n. xs = take n xs" for xs :: string by (metis take_all order_refl)
    then show ?thesis
      using assms Some d
      by (auto simp: Log_def time_Now_def e Let_def file_Write_def file_Sync_def
          dest!: take_fault_frame split: prod.splits option.splits intro: exI)
  qed
qed

definition demo_logger :: logger where
  "demo_logger = \<lparr>lf = ''a'', lseq = 0, lastHash = genesisHash\<rparr>"

definition demo_os :: os where
  "demo_os = fresh_os\<lparr>files := [(''a'', [])]\<rparr>"

lemma file_at_demo: "file_at demo_os (lf demo_logger) = Some []"
  by code_simp

theorem Log_outcome_witness:
  "case Log demo_entry demo_logger demo_os of
      (None, l', s') \<Rightarrow>
        file_at s' (lf demo_logger) = Some ([] @ event_line (stamped demo_entry demo_logger demo_os)) \<and>
        l' = demo_logger\<lparr>lseq := lseq demo_logger + 1, lastHash := Hash (stamped demo_entry demo_logger demo_os)\<rparr>
    | (Some err, l', s') \<Rightarrow>
        l' = demo_logger \<and>
        (\<exists>n. file_at s' (lf demo_logger) = Some ([] @ take n (event_line (stamped demo_entry demo_logger demo_os))))"
  by (rule Log_outcome [OF file_at_demo])

section \<open>Two events that follow the same one\<close>

lemma verify_loop_append:
  "verify_loop p (es @ fs) =
   (case verify_loop p es of Some err \<Rightarrow> Some err
    | None \<Rightarrow> verify_loop (if es = [] then p else Some (last es)) fs)"
proof (induction p es rule: verify_loop.induct)
  case (2 p e es)
  then show ?case by (cases p) (auto split: option.splits)
qed simp

lemma VerifyEvents_fork:
  assumes "VerifyEvents (es @ [a]) = None" and "computeHash b = Hash b" and "PrevHash b \<noteq> Hash a"
  shows "VerifyEvents (es @ [a, b]) = Some (prev_mismatch a b)"
proof -
  have start: "es @ [a] = hd (es @ [a]) # tl (es @ [a])" by (cases es) simp_all
  have loop: "verify_loop None (es @ [a]) = None" "PrevHash (hd (es @ [a])) = genesisHash"
    using assms(1) start by (auto simp: VerifyEvents_def split: list.splits if_splits)
  then have "verify_loop None ((es @ [a]) @ [b]) = Some (prev_mismatch a b)"
    unfolding verify_loop_append using assms(2,3) by simp
  with loop show ?thesis
    by (cases es) (auto simp: VerifyEvents_def)
qed

lemma VerifyChain_fork:
  assumes "faults s = []" and "\<not> dir_exists s p" and "honest_log (es @ [a])" and "storable b"
    and "file_at s p = Some (concat (map event_line (es @ [a])) @ event_line b)"
    and "computeHash b = Hash b" and "PrevHash b \<noteq> Hash a"
  shows "VerifyChain p s = (Some (prev_mismatch a b), s)"
proof -
  have "ReadFile p s = (Inr (es @ [a, b]), s)"
    using assms by (intro ReadFile_lines) (auto simp: honest_log_def)
  with assms show ?thesis by (simp add: VerifyChain_def VerifyEvents_fork honest_log_def)
qed

lemma log_state_faults: "log_state l (s\<lparr>faults := []\<rparr>) es \<Longrightarrow> valid_time (clock s n)"
  by (simp add: log_state_def quiet_def)

lemma stamped_frame [simp]:
  "stamped q l (s\<lparr>faults := f\<rparr>) = stamped q l s" "stamped q l (set_file p d s) = stamped q l s"
  by (simp_all add: stamped_def)

lemma Log_sync_fault:
  assumes "faults s = [None, Some f]" and "valid_time (clock s (ticks s))" and "file_at s (lf l) = Some old"
  shows "Log q l s =
    (Some (WrapError ''audit: sync: '' (PathError ''sync'' (lf l) (Errno (fault_text f))) []), l,
     set_file (lf l) (old @ event_line (stamped q l s)) (s\<lparr>faults := [], ticks := Suc (ticks s)\<rparr>))"
proof -
  obtain d where d: "marshal_event (stamped q l s) = Some d" "d @ [newline] = event_line (stamped q l s)"
    using marshal_event_line [of "stamped q l s"] assms(2) by auto
  then show ?thesis
    using assms
    by (simp add: Log_def time_Now_def Let_def stamped_def file_Write_def file_Sync_def take_fault_def
        set_file_def file_at_def)
qed

text \<open>
  C36. A failed \<^verbatim>\<open>Sync\<close> leaves the event in the file but not in the logger. The next entry that is
  logged without error repeats the sequence number and the link, and from then on the honest
  log is reported as tampered (unless the first event's hash is the link itself, a fixed point
  of SHA-256).
\<close>

theorem sync_failure_breaks_chain:
  assumes "log_state l (s\<lparr>faults := []\<rparr>) es" and "faults s = [None, Some f]"
    and "loggable q1" and "loggable q2" and "Hash (stamped q1 l s) \<noteq> lastHash l"
  shows "\<exists>err s1 l2 s2 a b. Log q1 l s = (Some err, l, s1) \<and> Log q2 l s1 = (None, l2, s2) \<and>
     Seq a = Seq b \<and> VerifyChain (lf l) s2 = (Some (prev_mismatch a b), s2)"
proof -
  let ?t = "s\<lparr>faults := []\<rparr>" and ?d = "concat (map event_line es)"
  let ?a = "stamped q1 l s"
  let ?s1 = "set_file (lf l) (?d @ event_line ?a) (s\<lparr>faults := [], ticks := Suc (ticks s)\<rparr>)"
  let ?b = "stamped q2 l ?s1"
  let ?s2 = "set_file (lf l) ((?d @ event_line ?a) @ event_line ?b) (?s1\<lparr>ticks := Suc (ticks ?s1)\<rparr>)"
  have st: "log_state l ?t es" using assms(1) .
  have at: "file_at s (lf l) = Some ?d" and dir: "\<not> dir_exists s (lf l)" using st by (auto simp: log_state_def)
  have 1: "\<exists>err. Log q1 l s = (Some err, l, ?s1)"
    using Log_sync_fault [OF assms(2) log_state_faults [OF st] at] by simp
  have 2: "\<exists>l2. Log q2 l ?s1 = (None, l2, ?s2)"
    using Log_eq [of ?s1 l "?d @ event_line ?a" q2] log_state_faults [OF st] by simp
  have "honest_log (es @ [?a])"
    using Log_step [OF st assms(3)] by (auto simp: log_state_def)
  moreover have "storable ?b"
    using storable_stamped [of l "?t\<lparr>ticks := Suc (ticks s)\<rparr>" es q2] st assms(4) by (simp add: log_state_def)
  ultimately have 3: "VerifyChain (lf l) ?s2 = (Some (prev_mismatch ?a ?b), ?s2)"
    using dir assms(5) by (intro VerifyChain_fork [of _ _ es]) auto
  have "Seq ?a = Seq ?b" by simp
  with 1 2 3 show ?thesis by blast
qed

lemma log_state_demo: "log_state demo_logger demo_os []"
  using file_at_demo
  by (simp add: log_state_def honest_nil demo_logger_def demo_os_def quiet_def valid_epoch)
    (simp add: fresh_os_def valid_epoch dir_exists_def filepath_Clean_def rooted_def)

lemma Hash_stamped_not_genesis: "Hash (stamped q l s) \<noteq> genesisHash"
  unfolding Hash_stamped by (rule sha256_hex_not_genesis)

theorem sync_failure_breaks_chain_witness:
  "\<exists>err s1 l2 s2 a b. Log demo_entry demo_logger (demo_os\<lparr>faults := [None, Some (Fault ''disk full'' 0)]\<rparr>) =
       (Some err, demo_logger, s1) \<and>
     Log demo_entry demo_logger s1 = (None, l2, s2) \<and> Seq a = Seq b \<and>
     VerifyChain (lf demo_logger) s2 = (Some (prev_mismatch a b), s2)"
proof (rule sync_failure_breaks_chain)
  have "demo_os\<lparr>faults := []\<rparr> = demo_os" by (simp add: demo_os_def fresh_os_def)
  then show "log_state demo_logger (demo_os\<lparr>faults := [None, Some (Fault ''disk full'' 0)], faults := []\<rparr>) []"
    using log_state_demo by simp
  show "Hash (stamped demo_entry demo_logger (demo_os\<lparr>faults := [None, Some (Fault ''disk full'' 0)]\<rparr>)) \<noteq>
      lastHash demo_logger"
    using Hash_stamped_not_genesis by (simp add: demo_logger_def)
qed (simp_all add: loggable_demo)

section \<open>Two loggers on one file\<close>

text \<open>
  C37. Two processes that open the same log before either writes, and then each append one entry,
  get no error, but the log no longer verifies: the mutex orders the appends of one logger only,
  and the second logger's event carries the number and the link of the first's.
\<close>

theorem two_loggers_break_chain:
  assumes "quiet s" and "openable path s" and "contents s path = concat (map event_line es)"
    and "honest_log es" and "loggable q1" and "loggable q2"
    and "Hash (stamped q1 (resume path es) s) \<noteq> lastHash (resume path es)"
  shows "\<exists>l1 s1 l2 s2 l1' s3 l2' s4 a b. Open path s = (Inr l1, s1) \<and> Open path s1 = (Inr l2, s2) \<and>
     Log q1 l1 s2 = (None, l1', s3) \<and> Log q2 l2 s3 = (None, l2', s4) \<and> Seq a = Seq b \<and>
     VerifyChain path s4 = (Some (prev_mismatch a b), s4)"
proof -
  let ?d = "concat (map event_line es)" and ?l = "resume path es"
  have stor: "\<forall>e\<in>set es. storable e" using assms(4) by (simp add: honest_log_def)
  obtain s1 where 1: "Open path s = (Inr ?l, s1)" "s1 = set_file path ?d (made_parent path s)"
    using Open_eq [OF assms(1-3) stor] by simp
  have "openable path s1"
    using assms(2) by (simp add: 1(2))
  then obtain s2 where 2: "Open path s1 = (Inr ?l, s2)" "s2 = set_file path ?d (made_parent path s1)"
    using Open_eq [of s1 path es] assms(1) stor by (simp add: 1(2) contents_def)
  have st: "log_state ?l s2 es"
    using Open_state [of s1 path es] 2(1) \<open>openable path s1\<close> assms(1,4) by (auto simp: 1(2) contents_def)
  let ?a = "stamped q1 ?l s2"
  obtain l1' s3 where 3: "Log q1 ?l s2 = (None, l1', s3)" "log_state l1' s3 (es @ [?a])" "lf l1' = lf ?l"
    using Log_step [OF st assms(5)] by blast
  let ?b = "stamped q2 ?l s3"
  have path: "lf ?l = path" by (simp add: resume_def)
  have at: "file_at s3 path = Some (concat (map event_line (es @ [?a])))" and q: "quiet s3" and dir: "\<not> dir_exists s3 path"
    and honest: "honest_log (es @ [?a])"
    using 3 path by (auto simp: log_state_def)
  let ?s4 = "set_file path (concat (map event_line (es @ [?a])) @ event_line ?b) (s3\<lparr>ticks := Suc (ticks s3)\<rparr>)"
  have 4: "\<exists>l2'. Log q2 ?l s3 = (None, l2', ?s4)"
    using Log_eq [of s3 ?l _ q2] at q path by (simp add: quiet_def)
  have "storable ?b"
    using storable_stamped [OF st assms(6)] q st by (simp add: storable_def readable_def valid_strings_def
        Hash_stamped valid_utf8_sha256_hex quiet_def)
  moreover have "?a = stamped q1 ?l s" by (simp add: 2(2) 1(2) stamped_def)
  then have "Hash ?a \<noteq> lastHash ?l" using assms(7) by simp
  ultimately have "VerifyChain path ?s4 = (Some (prev_mismatch ?a ?b), ?s4)"
    using honest q dir by (intro VerifyChain_fork [of _ _ es]) (auto simp: quiet_def)
  moreover have "Seq ?a = Seq ?b" by simp
  ultimately show ?thesis using 1(1) 2(1) 3(1) 4 by blast
qed

theorem two_loggers_break_chain_witness:
  "\<exists>l1 s1 l2 s2 l1' s3 l2' s4 a b. Open ''var/audit.jsonl'' fresh_os = (Inr l1, s1) \<and>
     Open ''var/audit.jsonl'' s1 = (Inr l2, s2) \<and>
     Log demo_entry l1 s2 = (None, l1', s3) \<and> Log demo_entry l2 s3 = (None, l2', s4) \<and> Seq a = Seq b \<and>
     VerifyChain ''var/audit.jsonl'' s4 = (Some (prev_mismatch a b), s4)"
proof (rule two_loggers_break_chain)
  show "Hash (stamped demo_entry (resume ''var/audit.jsonl'' []) fresh_os) \<noteq> lastHash (resume ''var/audit.jsonl'' [])"
    using Hash_stamped_not_genesis by (simp add: resume_def)
qed (simp_all add: openable_demo honest_nil loggable_demo)

section \<open>Arguments that are not UTF-8\<close>

lemma length_to_valid_utf8:
  "length s \<le> length (to_valid_utf8 s)" "length (to_valid_utf8 s) = length s \<Longrightarrow> valid_utf8 s"
  using length_fix_runes [of "runes s"] runes_cases [of _ s]
  by (auto simp: to_valid_utf8_def concat_runes valid_utf8_def)

lemma canonical_sanitize_longer:
  assumes "\<not> valid_utf8 (ObjectRef e)"
  shows "length (canonical e) < length (canonical (sanitize e))"
proof -
  have "length (ObjectRef e) < length (to_valid_utf8 (ObjectRef e))"
    using length_to_valid_utf8 [of "ObjectRef e"] assms by (metis le_neq_implies_less)
  then show ?thesis
    using length_to_valid_utf8(1) [of "ActorID e"] length_to_valid_utf8(1) [of "SessionID e"]
      length_to_valid_utf8(1) [of "DeviceID e"] length_to_valid_utf8(1) [of "Verb e"]
      length_to_valid_utf8(1) [of "Decision e"] length_to_valid_utf8(1) [of "ReasonCode e"]
      length_to_valid_utf8(1) [of "Result e"] length_to_valid_utf8(1) [of "PrevHash e"]
    by (simp add: canonical_def sanitize_def)
qed

text \<open>
  C38. The hash is computed over the caller's bytes, the file holds them with U+FFFD in place of
  what is not UTF-8. An entry whose object is not valid UTF-8 is logged without error, and the
  log then fails verification (or the two texts are a collision of SHA-256).
\<close>

theorem invalid_utf8_breaks_chain:
  assumes "log_state l s es" and "\<not> valid_utf8 (ObjectRef q)"
    and "Meta q \<noteq> Some []" and "norm_map (Meta q)" and "json_depth (tree_of_map (Meta q)) < max_nesting_depth"
  shows "\<exists>l' s' e. Log q l s = (None, l', s') \<and> ReadFile (lf l) s' = (Inr (es @ [sanitize e]), s') \<and>
     same_entry q e \<and> (fst (VerifyChain (lf l) s') \<noteq> None \<or> sha256_collision (canonical (sanitize e)) (canonical e))"
proof -
  let ?e = "stamped q l s"
  let ?s' = "set_file (lf l) (concat (map event_line es) @ event_line ?e) (s\<lparr>ticks := Suc (ticks s)\<rparr>)"
  have st: "quiet s" "\<not> dir_exists s (lf l)" "file_at s (lf l) = Some (concat (map event_line es))"
    "\<forall>e\<in>set es. storable e" using assms(1) by (auto simp: log_state_def honest_log_def)
  have 1: "\<exists>l'. Log q l s = (None, l', ?s')" using Log_eq [of s l _ q] st by (simp add: quiet_def)
  have "readable ?e" using assms st(1) by (simp add: readable_def quiet_def)
  from decode_events_line [OF this, of "[]"] have 2: "ReadFile (lf l) ?s' = (Inr (es @ [sanitize ?e]), ?s')"
    using st by (simp add: ReadFile_def os_ReadFile_ok quiet_def lines.dec_concat decode_events_nil)
  have hash: "Hash (sanitize ?e) = Hash ?e"
    by (simp add: sanitize_def Hash_stamped valid_utf8_sha256_hex)
  have "VerifyEvents (es @ [sanitize ?e]) = None \<longrightarrow> sha256_collision (canonical (sanitize ?e)) (canonical ?e)"
    using canonical_sanitize_longer [of ?e] assms(2) hash
    by (auto simp: VerifyEvents_None sha256_collision_def sha256_hex_inject [symmetric] computeHash_def Hash_stamped)
  then have "fst (VerifyChain (lf l) ?s') \<noteq> None \<or> sha256_collision (canonical (sanitize ?e)) (canonical ?e)"
    using 2 by (auto simp: VerifyChain_def)
  with 1 2 show ?thesis using same_entry_stamped [of q l s] by blast
qed

theorem invalid_utf8_breaks_chain_witness:
  "\<exists>l' s' e. Log (demo_entry\<lparr>ObjectRef := [CHR 0xFF]\<rparr>) demo_logger demo_os = (None, l', s') \<and>
     ReadFile (lf demo_logger) s' = (Inr ([] @ [sanitize e]), s') \<and>
     same_entry (demo_entry\<lparr>ObjectRef := [CHR 0xFF]\<rparr>) e \<and>
     (fst (VerifyChain (lf demo_logger) s') \<noteq> None \<or> sha256_collision (canonical (sanitize e)) (canonical e))"
proof (rule invalid_utf8_breaks_chain [OF log_state_demo])
  show "\<not> valid_utf8 (ObjectRef (demo_entry\<lparr>ObjectRef := [CHR 0xFF]\<rparr>))"
    by (simp add: valid_utf8_def runes.simps rune_len_singleton valid_rune_def)
qed (use loggable_demo in \<open>simp_all add: loggable_def\<close>)

end
