(* ===== verification/Rbac.thy ===== *)
theory Rbac
  imports Go_Base "HOL-Library.AList"
begin

text \<open>
  The roles and capabilities of \<^verbatim>\<open>internal/policy/rbac.go\<close>. A Go map literal is an association
  list in source order; looking up an absent key of a \<^verbatim>\<open>map[string]bool\<close> gives \<^term>\<open>False\<close>.
\<close>

section \<open>Roles and capabilities\<close>

definition RoleOperator :: string where "RoleOperator = ''operator''"
definition RoleAdmin :: string where "RoleAdmin = ''admin''"
definition RoleAuditor :: string where "RoleAuditor = ''auditor''"

definition CapSessionOpen :: string where "CapSessionOpen = ''cap.session.open''"
definition CapPostureSet :: string where "CapPostureSet = ''cap.posture.set''"
definition CapPostureAdmin :: string where "CapPostureAdmin = ''cap.posture.admin''"
definition CapExec :: string where "CapExec = ''cap.exec''"
definition CapNet :: string where "CapNet = ''cap.net''"
definition CapDomainStart :: string where "CapDomainStart = ''cap.domain.start''"
definition CapDomainStop :: string where "CapDomainStop = ''cap.domain.stop''"
definition CapSSHConnect :: string where "CapSSHConnect = ''cap.ssh.connect''"
definition CapSSHManageHosts :: string where "CapSSHManageHosts = ''cap.ssh.manage_hosts''"
definition CapSSHManageKeys :: string where "CapSSHManageKeys = ''cap.ssh.manage_keys''"
definition CapPolicyWrite :: string where "CapPolicyWrite = ''cap.policy.write''"
definition CapAuditRead :: string where "CapAuditRead = ''cap.audit.read''"
definition CapExport :: string where "CapExport = ''cap.export''"
definition CapFsGrant :: string where "CapFsGrant = ''cap.fs.grant''"
definition CapFsRevoke :: string where "CapFsRevoke = ''cap.fs.revoke''"

lemmas role_defs = RoleOperator_def RoleAdmin_def RoleAuditor_def
lemmas cap_defs = CapSessionOpen_def CapPostureSet_def CapPostureAdmin_def CapExec_def CapNet_def
  CapDomainStart_def CapDomainStop_def CapSSHConnect_def CapSSHManageHosts_def CapSSHManageKeys_def
  CapPolicyWrite_def CapAuditRead_def CapExport_def CapFsGrant_def CapFsRevoke_def

definition roleCaps :: "(string \<times> (string \<times> bool) list) list" where
  "roleCaps =
     [(RoleOperator,
        [(CapSessionOpen, True), (CapPostureSet, True), (CapExec, True), (CapNet, True),
         (CapDomainStart, True), (CapDomainStop, True), (CapSSHConnect, True)]),
      (RoleAdmin,
        [(CapSessionOpen, True), (CapPostureSet, True), (CapPostureAdmin, True), (CapExec, True),
         (CapNet, True), (CapDomainStart, True), (CapDomainStop, True), (CapSSHConnect, True),
         (CapSSHManageHosts, True), (CapSSHManageKeys, True), (CapPolicyWrite, True),
         (CapAuditRead, True), (CapExport, True), (CapFsGrant, True), (CapFsRevoke, True)]),
      (RoleAuditor,
        [(CapAuditRead, True), (CapExport, True)])]"

definition HasCapability :: "string \<Rightarrow> string \<Rightarrow> bool" where
  "HasCapability role cap =
     (case map_of roleCaps role of
        None \<Rightarrow> False
      | Some caps \<Rightarrow> (case map_of caps cap of None \<Rightarrow> False | Some b \<Rightarrow> b))"

definition CapsForRole :: "string \<Rightarrow> (string \<times> bool) list" where
  "CapsForRole role =
     fold (\<lambda>(k, v) caps. AList.update k v caps)
       (case map_of roleCaps role of None \<Rightarrow> [] | Some caps \<Rightarrow> caps) []"

definition ValidRole :: "string \<Rightarrow> bool" where
  "ValidRole role \<longleftrightarrow> map_of roleCaps role \<noteq> None"

definition AllRoles :: "string list" where
  "AllRoles = [RoleOperator, RoleAdmin, RoleAuditor]"

section \<open>Lemmas\<close>

lemma ValidRole_iff: "ValidRole r \<longleftrightarrow> r \<in> set AllRoles"
  by (simp add: ValidRole_def roleCaps_def AllRoles_def)

lemma HasCapability_valid: "HasCapability r c \<Longrightarrow> ValidRole r"
  by (simp add: HasCapability_def ValidRole_def split: option.splits)

lemma HasCapability_operator:
  "HasCapability RoleOperator c \<longleftrightarrow>
   c \<in> {CapSessionOpen, CapPostureSet, CapExec, CapNet, CapDomainStart, CapDomainStop, CapSSHConnect}"
  by (simp add: HasCapability_def roleCaps_def role_defs cap_defs)

lemma HasCapability_admin:
  "HasCapability RoleAdmin c \<longleftrightarrow>
   c \<in> {CapSessionOpen, CapPostureSet, CapPostureAdmin, CapExec, CapNet, CapDomainStart, CapDomainStop,
        CapSSHConnect, CapSSHManageHosts, CapSSHManageKeys, CapPolicyWrite, CapAuditRead, CapExport,
        CapFsGrant, CapFsRevoke}"
  by (simp add: HasCapability_def roleCaps_def role_defs cap_defs)

lemma HasCapability_auditor: "HasCapability RoleAuditor c \<longleftrightarrow> c \<in> {CapAuditRead, CapExport}"
  by (simp add: HasCapability_def roleCaps_def role_defs cap_defs)

lemma HasCapability_roles:
  "HasCapability r c \<longleftrightarrow>
     r = RoleOperator \<and> HasCapability RoleOperator c \<or> r = RoleAdmin \<and> HasCapability RoleAdmin c \<or>
     r = RoleAuditor \<and> HasCapability RoleAuditor c"
  using HasCapability_valid [of r c] by (auto simp: ValidRole_iff AllRoles_def)

section \<open>Properties\<close>

text \<open>
  C33. The role table separates duties: the administrator can do all that an operator or an
  auditor can, the operator and the auditor share nothing, and changing policy, keys, hosts,
  file access or the incident posture is the administrator's alone. A role that is not in the
  table can do nothing.
\<close>

theorem role_separation:
  "(HasCapability RoleOperator c \<or> HasCapability RoleAuditor c \<longrightarrow> HasCapability RoleAdmin c) \<and>
   \<not> (HasCapability RoleOperator c \<and> HasCapability RoleAuditor c) \<and>
   (c \<in> {CapPolicyWrite, CapPostureAdmin, CapSSHManageHosts, CapSSHManageKeys, CapFsGrant, CapFsRevoke} \<longrightarrow>
      (HasCapability r c \<longleftrightarrow> r = RoleAdmin)) \<and>
   (r \<notin> set AllRoles \<longrightarrow> \<not> HasCapability r c)"
proof (intro conjI)
  show "HasCapability RoleOperator c \<or> HasCapability RoleAuditor c \<longrightarrow> HasCapability RoleAdmin c"
    by (auto simp: HasCapability_operator HasCapability_auditor HasCapability_admin)
  show "\<not> (HasCapability RoleOperator c \<and> HasCapability RoleAuditor c)"
    by (auto simp: HasCapability_operator HasCapability_auditor cap_defs)
  show "c \<in> {CapPolicyWrite, CapPostureAdmin, CapSSHManageHosts, CapSSHManageKeys, CapFsGrant, CapFsRevoke} \<longrightarrow>
      (HasCapability r c \<longleftrightarrow> r = RoleAdmin)"
    by (subst HasCapability_roles)
      (auto simp: HasCapability_operator HasCapability_auditor HasCapability_admin cap_defs)
  show "r \<notin> set AllRoles \<longrightarrow> \<not> HasCapability r c"
    using HasCapability_valid ValidRole_iff by blast
qed

theorem role_separation_witness:
  "HasCapability RoleAdmin CapFsGrant \<and> \<not> HasCapability RoleOperator CapFsGrant \<and>
   \<not> HasCapability ''root'' CapFsGrant"
  using role_separation [of CapFsGrant RoleAdmin] role_separation [of CapFsGrant RoleOperator]
    role_separation [of CapFsGrant "''root''"]
  by (simp add: AllRoles_def role_defs)

lemma map_of_fold_update:
  "distinct (map fst kvs) \<Longrightarrow>
   map_of (fold (\<lambda>(k, v) m. AList.update k v m) kvs m) c =
     (case map_of kvs c of None \<Rightarrow> map_of m c | Some v \<Rightarrow> Some v)"
  by (induction kvs arbitrary: m) (auto simp: update_conv' map_of_eq_None_iff split: option.splits dest: map_of_SomeD intro: rev_image_eqI)

text \<open>
  The copies that \<^verbatim>\<open>CapsForRole\<close> hands out say the same as \<^verbatim>\<open>HasCapability\<close>, for every role and
  capability, and \<^verbatim>\<open>ValidRole\<close> accepts exactly the roles of \<^verbatim>\<open>AllRoles\<close>.
\<close>

theorem CapsForRole_agrees:
  "(map_of (CapsForRole r) c = Some True \<longleftrightarrow> HasCapability r c) \<and> (ValidRole r \<longleftrightarrow> r \<in> set AllRoles)"
proof -
  have "distinct (map fst caps)" if "map_of roleCaps r = Some caps" for caps
    using that by (auto simp: roleCaps_def cap_defs split: if_splits)
  then show ?thesis
    by (auto simp: CapsForRole_def HasCapability_def ValidRole_iff map_of_fold_update split: option.splits)
qed

end
