(* ===== verification/Guarded_Machine.thy ===== *)
theory Guarded_Machine
  imports Main
begin

text \<open>
  The interface of a guarded state machine: an operation that takes a request, a machine and
  the world it runs in, and either moves the machine along an edge of a fixed graph or leaves
  its state alone. Lifted to sequences of requests: the machine follows a path of the graph,
  keeps every property that the edges keep, and never leaves a state without edges.
\<close>

fun run_requests :: "('r \<Rightarrow> 'm \<Rightarrow> 'w \<Rightarrow> bool \<times> 'm \<times> 'w) \<Rightarrow> 'r list \<Rightarrow> 'm \<Rightarrow> 'w \<Rightarrow> bool list \<times> 'm \<times> 'w" where
  "run_requests step [] m w = ([], m, w)"
| "run_requests step (r # rs) m w =
     (case step r m w of (ok, m1, w1) \<Rightarrow>
      case run_requests step rs m1 w1 of (oks, m2, w2) \<Rightarrow> (ok # oks, m2, w2))"

locale guarded_machine =
  fixes step :: "'r \<Rightarrow> 'm \<Rightarrow> 'w \<Rightarrow> bool \<times> 'm \<times> 'w"
    and cur :: "'m \<Rightarrow> 's"
    and edge :: "'s \<Rightarrow> 's \<Rightarrow> bool"
  assumes step_moves: "step r m w = (True, m', w') \<Longrightarrow> edge (cur m) (cur m')"
    and step_stays: "step r m w = (False, m', w') \<Longrightarrow> cur m' = cur m"
begin

lemma run_path: "run_requests step rs m w = (oks, m', w') \<Longrightarrow> edge\<^sup>*\<^sup>* (cur m) (cur m')"
proof (induction rs arbitrary: m w oks)
  case (Cons r rs)
  obtain ok m1 w1 where 1: "step r m w = (ok, m1, w1)" by (cases "step r m w")
  obtain oks' where "run_requests step rs m1 w1 = (oks', m', w')"
    using Cons.prems 1 by (auto split: prod.splits)
  then have "edge\<^sup>*\<^sup>* (cur m1) (cur m')" by (rule Cons.IH)
  moreover have "edge\<^sup>*\<^sup>* (cur m) (cur m1)"
    using 1 step_moves [of r m w m1 w1] step_stays [of r m w m1 w1] by (cases ok) auto
  ultimately show ?case by (rule rtranclp_trans [rotated])
qed simp

lemma run_keeps:
  assumes "run_requests step rs m w = (oks, m', w')" and "P (cur m)"
    and "\<And>x y. edge x y \<Longrightarrow> P x \<Longrightarrow> P y"
  shows "P (cur m')"
  using run_path [OF assms(1)] assms(2,3) by (induction rule: rtranclp_induct) auto

lemma run_final:
  assumes "run_requests step rs m w = (oks, m', w')" and "\<And>y. \<not> edge (cur m) y"
  shows "cur m' = cur m" and "True \<notin> set oks"
proof -
  show "cur m' = cur m" using run_path [OF assms(1)] assms(2) by (metis converse_rtranclpE)
  show "True \<notin> set oks"
    using assms
  proof (induction rs arbitrary: m w oks)
    case (Cons r rs)
    obtain ok m1 w1 where 1: "step r m w = (ok, m1, w1)" by (cases "step r m w")
    obtain oks' where 2: "run_requests step rs m1 w1 = (oks', m', w')" "oks = ok # oks'"
      using Cons.prems(1) 1 by (auto split: prod.splits)
    have "\<not> ok" using 1 Cons.prems(2) step_moves [of r m w m1 w1] by (cases ok) auto
    then have "cur m1 = cur m" using 1 step_stays [of r m w m1 w1] by simp
    with Cons.prems(2) have "True \<notin> set oks'" by (intro Cons.IH [OF 2(1)]) simp
    with 2 \<open>\<not> ok\<close> show ?case by simp
  qed simp
qed

end

end
