(* ===== verification/Posture.thy ===== *)
theory Posture
  imports Go_OS Guarded_Machine
begin

text \<open>
  The posture state machine of \<^verbatim>\<open>internal/posture/machine.go\<close>: its tables, the machine with its
  state file, and, as the specification it is compared with, the transition table of
  \<^verbatim>\<open>docs/POSTURE.md\<close>.
\<close>

section \<open>States and tables\<close>

definition Normal :: string where "Normal = ''NORMAL''"
definition Siege :: string where "Siege = ''SIEGE''"
definition Mercy :: string where "Mercy = ''MERCY''"
definition Incident :: string where "Incident = ''INCIDENT''"
definition Game :: string where "Game = ''GAME''"
definition Exited :: string where "Exited = ''EXITED''"

lemmas state_defs = Normal_def Siege_def Mercy_def Incident_def Game_def Exited_def

datatype verdict = PassThrough | ForceOff | ForceOn | PinnedOnly | GameDomainOnly

definition postureCapOverrides :: "(string \<times> (string \<times> verdict) list) list" where
  "postureCapOverrides =
     [(Normal, []),
      (Siege, [(''cap.net'', ForceOff), (''cap.domain.start'', PinnedOnly)]),
      (Mercy, [(''cap.exec'', PinnedOnly), (''cap.domain.start'', PinnedOnly)]),
      (Incident, [(''cap.net'', ForceOff), (''cap.exec'', ForceOff), (''cap.domain.start'', ForceOff),
        (''cap.export'', ForceOn)]),
      (Game, [(''cap.net'', ForceOff), (''cap.domain.start'', GameDomainOnly), (''cap.exec'', GameDomainOnly)]),
      (Exited, [])]"

definition transitions :: "(string \<times> (string \<times> bool) list) list" where
  "transitions =
     [(Normal, [(Siege, True), (Mercy, True), (Game, True), (Incident, True), (Exited, True)]),
      (Siege, [(Normal, True), (Game, True), (Exited, True)]),
      (Mercy, [(Normal, True), (Siege, True), (Game, True), (Exited, True)]),
      (Incident, [(Normal, True), (Exited, True)]),
      (Game, [(Normal, True), (Exited, True)])]"

text \<open>\<^verbatim>\<open>transitions[from][to]\<close>: an absent row is the nil map, an absent entry is false.\<close>

definition permitted :: "string \<Rightarrow> string \<Rightarrow> bool" where
  "permitted from to =
     (case map_of transitions from of None \<Rightarrow> False
      | Some row \<Rightarrow> (case map_of row to of None \<Rightarrow> False | Some b \<Rightarrow> b))"

definition isValidState :: "string \<Rightarrow> bool" where
  "isValidState s \<longleftrightarrow> s \<in> set [Normal, Siege, Mercy, Incident, Game, Exited]"

section \<open>The state file\<close>

record persistence =
  PPosture :: string
  EnteredAt :: gotime
  EnteredBy :: string
  PSessionID :: string

definition zero_persistence :: persistence where
  "zero_persistence = \<lparr>PPosture = [], EnteredAt = zero_time, EnteredBy = [], PSessionID = []\<rparr>"

definition persistence_members :: "persistence \<Rightarrow> jtree \<Rightarrow> (string \<times> jtree) list" where
  "persistence_members p ts =
     [(''posture'', TStr (json_quote (PPosture p))), (''entered_at'', ts),
      (''entered_by'', TStr (json_quote (EnteredBy p))), (''session_id'', TStr (json_quote (PSessionID p)))]"

definition marshal_persistence :: "persistence \<Rightarrow> string option" where
  "marshal_persistence p =
     map_option (\<lambda>ts. print_tree True 0 (TObj (persistence_members p ts))) (marshal_time (EnteredAt p))"

definition set_persistence_field :: "string \<Rightarrow> jtree \<Rightarrow> persistence \<Rightarrow> persistence option" where
  "set_persistence_field key t p =
     (if field_is ''posture'' key then map_option (\<lambda>v. p\<lparr>PPosture := v\<rparr>) (decode_string t (PPosture p))
      else if field_is ''entered_at'' key then map_option (\<lambda>v. p\<lparr>EnteredAt := v\<rparr>) (decode_time t (EnteredAt p))
      else if field_is ''entered_by'' key then map_option (\<lambda>v. p\<lparr>EnteredBy := v\<rparr>) (decode_string t (EnteredBy p))
      else if field_is ''session_id'' key then map_option (\<lambda>v. p\<lparr>PSessionID := v\<rparr>) (decode_string t (PSessionID p))
      else Some p)"

definition unmarshal_persistence :: "string \<Rightarrow> persistence option" where
  "unmarshal_persistence data =
     (case json_Unmarshal data of None \<Rightarrow> None
      | Some t \<Rightarrow> decode_struct set_persistence_field zero_persistence t)"

section \<open>The machine\<close>

text \<open>The methods hold the lock from first to last, so each is one step.\<close>

record machine =
  current :: string
  mpath :: string

definition posture_New :: "string \<Rightarrow> os \<Rightarrow> (go_error + machine) \<times> os" where
  "posture_New p s =
     (let m = \<lparr>current = Normal, mpath = p\<rparr> in
      case os_ReadFile p s of
        (Inl err, s1) \<Rightarrow>
          if errors_Is_NotExist err then (Inr m, s1)
          else (Inl (WrapError ''posture: read state: '' err []), s1)
      | (Inr data, s1) \<Rightarrow>
          (case unmarshal_persistence data of
             None \<Rightarrow> (Inl (WrapError ''posture: parse state: '' JsonError []), s1)
           | Some st \<Rightarrow> (Inr (if isValidState (PPosture st) then m\<lparr>current := PPosture st\<rparr> else m), s1)))"

definition Current :: "machine \<Rightarrow> string" where
  "Current m = current m"

definition persist :: "string \<Rightarrow> string \<Rightarrow> machine \<Rightarrow> os \<Rightarrow> go_error option \<times> os" where
  "persist actorID sessionID m s =
     (case time_Now s of (now, s1) \<Rightarrow>
      case marshal_persistence
             \<lparr>PPosture = current m, EnteredAt = now, EnteredBy = actorID, PSessionID = sessionID\<rparr> of
        None \<Rightarrow> (Some JsonError, s1)
      | Some data \<Rightarrow> os_WriteFile (mpath m) data s1)"

definition Transition ::
  "string \<Rightarrow> string \<Rightarrow> string \<Rightarrow> machine \<Rightarrow> os \<Rightarrow> (string \<times> go_error option) \<times> machine \<times> os" where
  "Transition to actorID sessionID m s =
     (let old = current m in
      if current m = Exited then ((old, Some (ErrorString ''system exited'')), m, s)
      else
        let to = (if current m = Game \<and> to = Game then Normal else to) in
        if \<not> permitted (current m) to
        then ((old, Some (ErrInvalidTransition (current m) to)), m, s)
        else
          let m1 = m\<lparr>current := to\<rparr> in
          case persist actorID sessionID m1 s of
            (Some err, s1) \<Rightarrow>
              ((old, Some (WrapError ''posture: persist: '' err [])), m1\<lparr>current := old\<rparr>, s1)
          | (None, s1) \<Rightarrow> ((old, None), m1, s1))"

definition CapabilityVerdict :: "string \<Rightarrow> machine \<Rightarrow> verdict" where
  "CapabilityVerdict cap m =
     (case map_of postureCapOverrides (current m) of
        None \<Rightarrow> PassThrough
      | Some overrides \<Rightarrow> (case map_of overrides cap of None \<Rightarrow> PassThrough | Some v \<Rightarrow> v))"

section \<open>Reading back the state file\<close>

lemma persistence_names:
  "fold_name ''posture'' = ''POSTURE''" "fold_name ''entered_at'' = ''ENTERED_AT''"
  "fold_name ''entered_by'' = ''ENTERED_BY''" "fold_name ''session_id'' = ''SESSION_ID''"
  by code_simp+

lemma set_persistence_simps:
  "set_persistence_field ''posture'' t p = map_option (\<lambda>v. p\<lparr>PPosture := v\<rparr>) (decode_string t (PPosture p))"
  "set_persistence_field ''entered_at'' t p = map_option (\<lambda>v. p\<lparr>EnteredAt := v\<rparr>) (decode_time t (EnteredAt p))"
  "set_persistence_field ''entered_by'' t p = map_option (\<lambda>v. p\<lparr>EnteredBy := v\<rparr>) (decode_string t (EnteredBy p))"
  "set_persistence_field ''session_id'' t p = map_option (\<lambda>v. p\<lparr>PSessionID := v\<rparr>) (decode_string t (PSessionID p))"
  by (simp_all add: set_persistence_field_def field_is_def persistence_names)

lemma persistence_raw:
  "unquote ''posture'' = ''posture''" "unquote ''entered_at'' = ''entered_at''"
  "unquote ''entered_by'' = ''entered_by''" "unquote ''session_id'' = ''session_id''"
  "raw_ok ''posture''" "raw_ok ''entered_at''" "raw_ok ''entered_by''" "raw_ok ''session_id''"
  by (rule unquote_plain, simp)+ (rule raw_ok_plain, simp)+

definition sanitize_persistence :: "persistence \<Rightarrow> persistence" where
  "sanitize_persistence p = p\<lparr>PPosture := to_valid_utf8 (PPosture p), EnteredBy := to_valid_utf8 (EnteredBy p),
     PSessionID := to_valid_utf8 (PSessionID p)\<rparr>"

lemma unmarshal_marshal [codec]:
  assumes "valid_time (EnteredAt p)" and "marshal_persistence p = Some data"
  shows "unmarshal_persistence data = Some (sanitize_persistence p)"
proof -
  let ?t = "TObj (persistence_members p (TStr (format_RFC3339Nano (EnteredAt p))))"
  have data: "data = print_tree True 0 ?t"
    using assms by (simp add: marshal_persistence_def marshal_time_valid)
  have wf: "wf_tree ?t"
    using assms(1) by (simp add: persistence_members_def persistence_raw raw_ok_time)
  have depth: "json_depth ?t \<le> max_nesting_depth"
    by (simp add: persistence_members_def max_nesting_depth_def)
  have "json_Unmarshal data = Some ?t" unfolding data by (rule json_Unmarshal_print [OF wf depth])
  then show ?thesis
    using assms(1)
    by (simp add: unmarshal_persistence_def decode_struct_def persistence_members_def persistence_raw
        set_persistence_simps zero_persistence_def sanitize_persistence_def)
qed

lemma valid_state_ascii: "isValidState st \<Longrightarrow> to_valid_utf8 st = st"
  by (auto simp: isValidState_def state_defs valid_utf8_ascii)

section \<open>The machine as a guarded machine\<close>

lemma permitted_iff:
  "permitted x y \<longleftrightarrow> (x, y) \<in> {(Normal, Siege), (Normal, Mercy), (Normal, Game), (Normal, Incident), (Normal, Exited),
     (Siege, Normal), (Siege, Game), (Siege, Exited), (Mercy, Normal), (Mercy, Siege), (Mercy, Game),
     (Mercy, Exited), (Incident, Normal), (Incident, Exited), (Game, Normal), (Game, Exited)}"
  by (simp add: permitted_def transitions_def state_defs)

lemma permitted_valid: "permitted x y \<Longrightarrow> isValidState x \<and> isValidState y"
  by (auto simp: permitted_iff isValidState_def)

lemma not_permitted_exited: "\<not> permitted Exited y"
  by (simp add: permitted_iff state_defs)

text \<open>A request is the target with the actor and the session; it succeeds when no error comes back.\<close>

type_synonym request = "string \<times> string \<times> string"

definition transition_step :: "request \<Rightarrow> machine \<Rightarrow> os \<Rightarrow> bool \<times> machine \<times> os" where
  "transition_step r m s =
     (case r of (to, actorID, sessionID) \<Rightarrow>
      case Transition to actorID sessionID m s of (res, m', s') \<Rightarrow> (snd res = None, m', s'))"

lemma Transition_ok:
  "Transition to a sid m s = ((old, None), m', s') \<Longrightarrow>
   old = current m \<and> permitted (current m) (current m') \<and> mpath m' = mpath m \<and>
   current m' = (if current m = Game \<and> to = Game then Normal else to)"
  by (auto simp: Transition_def Let_def split: if_splits prod.splits option.splits)

lemma Transition_error:
  "Transition to a sid m s = ((old, Some err), m', s') \<Longrightarrow> old = current m \<and> m' = m"
  by (auto simp: Transition_def Let_def split: if_splits prod.splits option.splits)

interpretation posture_machine: guarded_machine transition_step current permitted
proof
  show "transition_step r m w = (True, m', w') \<Longrightarrow> permitted (current m) (current m')" for r m w m' w'
    by (auto simp: transition_step_def split: prod.splits dest!: Transition_ok)
  show "transition_step r m w = (False, m', w') \<Longrightarrow> current m' = current m" for r m w m' w'
    by (auto simp: transition_step_def split: prod.splits dest: Transition_error)
qed

section \<open>The specification\<close>

text \<open>The transition table of \<^verbatim>\<open>docs/POSTURE.md\<close>; every transition it does not list is denied.\<close>

datatype posture = NORMAL | SIEGE | MERCY | INCIDENT | GAME | EXITED

datatype posture_verb = V_SIEGE | V_MERCY | V_GAME | V_INCIDENT | V_RESUME | V_EXIT

inductive doc_step :: "posture \<Rightarrow> posture_verb \<Rightarrow> posture \<Rightarrow> bool" where
  normal_siege: "doc_step NORMAL V_SIEGE SIEGE"
| normal_mercy: "doc_step NORMAL V_MERCY MERCY"
| normal_game: "doc_step NORMAL V_GAME GAME"
| normal_incident: "doc_step NORMAL V_INCIDENT INCIDENT"
| normal_exit: "doc_step NORMAL V_EXIT EXITED"
| siege_resume: "doc_step SIEGE V_RESUME NORMAL"
| siege_game: "doc_step SIEGE V_GAME GAME"
| siege_exit: "doc_step SIEGE V_EXIT EXITED"
| mercy_resume: "doc_step MERCY V_RESUME NORMAL"
| mercy_siege: "doc_step MERCY V_SIEGE SIEGE"
| mercy_game: "doc_step MERCY V_GAME GAME"
| mercy_exit: "doc_step MERCY V_EXIT EXITED"
| incident_resume: "doc_step INCIDENT V_RESUME NORMAL"
| incident_exit: "doc_step INCIDENT V_EXIT EXITED"
| game_game: "doc_step GAME V_GAME NORMAL"
| game_exit: "doc_step GAME V_EXIT EXITED"

inductive_cases doc_step_normal: "doc_step NORMAL v q"
inductive_cases doc_step_siege: "doc_step SIEGE v q"
inductive_cases doc_step_mercy: "doc_step MERCY v q"
inductive_cases doc_step_incident: "doc_step INCIDENT v q"
inductive_cases doc_step_game: "doc_step GAME v q"
inductive_cases doc_step_exited: "doc_step EXITED v q"

inductive_simps doc_step_iff: "doc_step p v q"

primrec posture_name :: "posture \<Rightarrow> string" where
  "posture_name NORMAL = Normal"
| "posture_name SIEGE = Siege"
| "posture_name MERCY = Mercy"
| "posture_name INCIDENT = Incident"
| "posture_name GAME = Game"
| "posture_name EXITED = Exited"

text \<open>The target state that asks the machine for a verb of the table.\<close>

primrec verb_target :: "posture_verb \<Rightarrow> string" where
  "verb_target V_SIEGE = Siege"
| "verb_target V_MERCY = Mercy"
| "verb_target V_GAME = Game"
| "verb_target V_INCIDENT = Incident"
| "verb_target V_RESUME = Normal"
| "verb_target V_EXIT = Exited"

lemma posture_name_inject [simp]: "posture_name p = posture_name q \<longleftrightarrow> p = q"
  by (cases p; cases q) (simp_all add: state_defs)

text \<open>The state file can be written: its directory is there and no call fails.\<close>

definition writable :: "string \<Rightarrow> os \<Rightarrow> bool" where
  "writable p s \<longleftrightarrow> quiet s \<and> \<not> dir_exists s p \<and> dir_exists s (filepath_Dir p)"

lemma WriteFile_writable: "writable p s \<Longrightarrow> os_WriteFile p d s = (None, set_file p d s)"
  by (simp add: writable_def os_WriteFile_def os_OpenTrunc_def open_file_def quiet_def file_Write_def
      file_Close_def Let_def)

lemma writable_frame [simp]:
  "writable p (set_file q d s) = writable p s" "writable p (s\<lparr>ticks := n\<rparr>) = writable p s"
  by (simp_all add: writable_def)

definition state_record :: "string \<Rightarrow> string \<Rightarrow> string \<Rightarrow> os \<Rightarrow> persistence" where
  "state_record st a sid s =
     \<lparr>PPosture = st, EnteredAt = clock s (ticks s), EnteredBy = a, PSessionID = sid\<rparr>"

lemma Transition_writes:
  assumes "writable (mpath m) s" and "current m \<noteq> Exited"
    and "to' = (if current m = Game \<and> to = Game then Normal else to)" and "permitted (current m) to'"
  shows "\<exists>d. marshal_persistence (state_record to' a sid s) = Some d \<and>
     Transition to a sid m s =
       ((current m, None), m\<lparr>current := to'\<rparr>, set_file (mpath m) d (s\<lparr>ticks := Suc (ticks s)\<rparr>))"
proof -
  have "valid_time (clock s (ticks s))" using assms(1) by (simp add: writable_def quiet_def)
  then obtain d where d: "marshal_persistence (state_record to' a sid s) = Some d"
    by (simp add: marshal_persistence_def state_record_def marshal_time_valid)
  then show ?thesis
    using assms by (simp add: Transition_def Let_def persist_def time_Now_def state_record_def WriteFile_writable)
qed

lemma doc_step_code:
  "(\<exists>q. doc_step p v q \<and> posture_name q = t) \<longleftrightarrow>
   p \<noteq> EXITED \<and> t = (if p = GAME \<and> v = V_GAME then Normal else verb_target v) \<and>
   permitted (posture_name p) t \<and> \<not> (p = GAME \<and> v = V_RESUME)"
  by (cases p; cases v) (auto simp: doc_step_iff permitted_iff state_defs)

section \<open>Properties\<close>

text \<open>
  C4. The machine implements the documented table. From a posture of the table, a request for a
  verb succeeds exactly when the table has a row for it, and then the machine is in the row's
  target state; the one exception is a request for NORMAL in GAME, which the table does not
  list and the code allows. When there is no row the error names the two states (or says that
  the system has exited) and nothing changes.
\<close>

theorem Transition_refines_table:
  assumes "current m = posture_name p" and "writable (mpath m) s"
  shows "case Transition (verb_target v) a sid m s of ((old, err), m', s') \<Rightarrow>
    old = posture_name p \<and> mpath m' = mpath m \<and>
    (err = None \<longleftrightarrow> (\<exists>q. doc_step p v q) \<or> p = GAME \<and> v = V_RESUME) \<and>
    (\<forall>q. doc_step p v q \<longrightarrow> current m' = posture_name q) \<and>
    (err \<noteq> None \<longrightarrow> m' = m \<and> s' = s \<and>
       err = Some (if p = EXITED then ErrorString ''system exited''
                   else ErrInvalidTransition (posture_name p) (verb_target v)))"
proof -
  let ?t = "if p = GAME \<and> v = V_GAME then Normal else verb_target v"
  have t: "?t = (if current m = Game \<and> verb_target v = Game then Normal else verb_target v)"
    using assms(1) by (cases p; cases v) (simp_all add: state_defs)
  have row: "permitted (posture_name p) ?t \<longleftrightarrow> (\<exists>q. doc_step p v q) \<or> p = GAME \<and> v = V_RESUME"
    by (cases p; cases v) (auto simp: doc_step_iff permitted_iff state_defs)
  have tgt: "doc_step p v q \<Longrightarrow> posture_name q = ?t" for q using doc_step_code by blast
  have ex: "current m = Exited \<longleftrightarrow> p = EXITED" using assms(1) by (cases p) (simp_all add: state_defs)
  show ?thesis
  proof (cases "p \<noteq> EXITED \<and> permitted (posture_name p) ?t")
    case True
    then obtain d where
      "Transition (verb_target v) a sid m s =
        ((current m, None), m\<lparr>current := ?t\<rparr>, set_file (mpath m) d (s\<lparr>ticks := Suc (ticks s)\<rparr>))"
      using Transition_writes [OF assms(2) _ t, of a sid] assms(1) ex by auto
    with True row tgt assms(1) show ?thesis by auto
  next
    case False
    have "\<not> (p = GAME \<and> v = V_GAME)" if "p \<noteq> EXITED"
      using False that row game_game by blast
    with False ex t assms(1) have
      "Transition (verb_target v) a sid m s =
        ((current m, Some (if p = EXITED then ErrorString ''system exited''
            else ErrInvalidTransition (posture_name p) (verb_target v))), m, s)"
      by (auto simp: Transition_def Let_def)
    moreover have "\<not> ((\<exists>q. doc_step p v q) \<or> p = GAME \<and> v = V_RESUME)"
      using False row by (auto elim: doc_step_exited)
    ultimately show ?thesis using assms(1) by auto
  qed
qed

definition demo_machine :: "string \<Rightarrow> machine" where
  "demo_machine st = \<lparr>current = st, mpath = ''posture.json''\<rparr>"

lemma writable_demo: "writable ''posture.json'' fresh_os"
proof -
  have "\<not> dir_exists fresh_os ''posture.json''" "dir_exists fresh_os (filepath_Dir ''posture.json'')" by code_simp+
  then show ?thesis by (simp add: writable_def)
qed

theorem Transition_refines_table_witness:
  "case Transition (verb_target V_INCIDENT) ''eo'' ''s1'' (demo_machine Normal) fresh_os of ((old, err), m', s') \<Rightarrow>
    old = posture_name NORMAL \<and> mpath m' = mpath (demo_machine Normal) \<and>
    (err = None \<longleftrightarrow> (\<exists>q. doc_step NORMAL V_INCIDENT q) \<or> NORMAL = GAME \<and> V_INCIDENT = V_RESUME) \<and>
    (\<forall>q. doc_step NORMAL V_INCIDENT q \<longrightarrow> current m' = posture_name q) \<and>
    (err \<noteq> None \<longrightarrow> m' = demo_machine Normal \<and> s' = fresh_os \<and>
       err = Some (if NORMAL = EXITED then ErrorString ''system exited''
                   else ErrInvalidTransition (posture_name NORMAL) (verb_target V_INCIDENT)))"
  by (rule Transition_refines_table) (simp_all add: demo_machine_def writable_demo)

lemma posture_New_valid: "posture_New p s = (Inr m, s') \<Longrightarrow> isValidState (current m) \<and> mpath m = p"
  by (auto simp: posture_New_def Let_def isValidState_def split: prod.splits sum.splits option.splits if_splits)

text \<open>
  C11. Whatever the state file holds, whatever is requested and whichever calls of the operating
  system fail, a machine that was created is in one of the six states, follows only edges of the
  transition table, and once it has exited it stays so and refuses every request.
\<close>

theorem posture_run_safe:
  assumes "posture_New p s0 = (Inr m, s1)" and "run_requests transition_step rs m s = (oks, m', s')"
  shows "isValidState (current m') \<and> permitted\<^sup>*\<^sup>* (current m) (current m') \<and>
    (current m = Exited \<longrightarrow> current m' = Exited \<and> True \<notin> set oks)"
proof (intro conjI impI)
  show "isValidState (current m')"
    using posture_machine.run_keeps [OF assms(2), of isValidState] posture_New_valid [OF assms(1)] permitted_valid
    by blast
  show "permitted\<^sup>*\<^sup>* (current m) (current m')" by (rule posture_machine.run_path [OF assms(2)])
  assume "current m = Exited"
  then show "current m' = Exited" "True \<notin> set oks"
    using posture_machine.run_final [OF assms(2)] not_permitted_exited by auto
qed

lemma New_absent: "quiet s \<Longrightarrow> \<not> dir_exists s p \<Longrightarrow> file_at s p = None \<Longrightarrow> \<not> below_file s p \<Longrightarrow>
  posture_New p s = (Inr \<lparr>current = Normal, mpath = p\<rparr>, s)"
  by (simp add: posture_New_def os_ReadFile_def quiet_def)

lemma New_demo: "posture_New ''posture.json'' fresh_os = (Inr (demo_machine Normal), fresh_os)"
  using writable_demo by (simp add: New_absent writable_def demo_machine_def)

theorem posture_run_safe_witness:
  "\<exists>oks m' s'. run_requests transition_step [(Siege, ''eo'', ''s1''), (Mercy, ''eo'', ''s1'')] (demo_machine Normal) fresh_os = (oks, m', s') \<and>
    isValidState (current m') \<and> permitted\<^sup>*\<^sup>* Normal (current m')"
proof -
  obtain oks m' s' where r: "run_requests transition_step [(Siege, ''eo'', ''s1''), (Mercy, ''eo'', ''s1'')]
      (demo_machine Normal) fresh_os = (oks, m', s')"
    using prod_cases3 by blast
  then show ?thesis using posture_run_safe [OF New_demo r] by (auto simp: demo_machine_def)
qed

section \<open>Persistence\<close>

text \<open>What the state file says, if it can be read.\<close>

definition stored_posture :: "string \<Rightarrow> os \<Rightarrow> string option" where
  "stored_posture p s =
     (case file_at s p of None \<Rightarrow> None | Some d \<Rightarrow> map_option PPosture (unmarshal_persistence d))"

lemma New_stored:
  assumes "faults s = []" and "\<not> dir_exists s p" and "stored_posture p s = Some st" and "isValidState st"
  shows "posture_New p s = (Inr \<lparr>current = st, mpath = p\<rparr>, s)"
  using assms by (auto simp: posture_New_def stored_posture_def os_ReadFile_def Let_def split: option.splits)

lemma WriteFile_ok:
  assumes "os_WriteFile p d s = (None, s')"
  shows "file_at s' p = Some d \<and> \<not> dir_exists s' p"
  using assms
  by (auto simp: os_WriteFile_def os_OpenTrunc_def open_file_def file_Write_def file_Close_def Let_def
      split: prod.splits option.splits if_splits dest!: take_fault_frame)

lemma Transition_stores:
  assumes "Transition to a sid m s = ((old, None), m', s')" and "valid_time (clock s (ticks s))"
  shows "stored_posture (mpath m) s' = Some (current m') \<and> \<not> dir_exists s' (mpath m)"
proof -
  let ?p = "state_record (current m') a sid s"
  obtain d where d: "marshal_persistence ?p = Some d"
    using assms(2) by (simp add: marshal_persistence_def state_record_def marshal_time_valid)
  with assms(1) have "os_WriteFile (mpath m) d (s\<lparr>ticks := Suc (ticks s)\<rparr>) = (None, s')"
    by (auto simp: Transition_def Let_def persist_def time_Now_def state_record_def
        split: if_splits prod.splits option.splits)
  moreover have "unmarshal_persistence d = Some (sanitize_persistence ?p)"
    by (rule unmarshal_marshal [OF _ d]) (simp add: state_record_def assms(2))
  moreover have "to_valid_utf8 (current m') = current m'"
    using Transition_ok [OF assms(1)] permitted_valid valid_state_ascii by blast
  ultimately show ?thesis
    using WriteFile_ok [of "mpath m" d _ s']
    by (auto simp: stored_posture_def sanitize_persistence_def state_record_def)
qed

text \<open>
  C10. The posture survives a restart: after a transition that reported success, under whatever
  faults it was made, the next process that can read the state file starts in the new posture.
\<close>

theorem posture_survives_restart:
  assumes "Transition to a sid m s = ((old, None), m', s')" and "valid_time (clock s (ticks s))"
    and "faults s' = []"
  shows "posture_New (mpath m) s' = (Inr m', s')"
proof -
  note ok = Transition_ok [OF assms(1)] and st = Transition_stores [OF assms(1,2)]
  have "posture_New (mpath m) s' = (Inr \<lparr>current = current m', mpath = mpath m\<rparr>, s')"
    using New_stored [OF assms(3)] ok st permitted_valid by blast
  then show ?thesis using ok by (cases m') simp
qed

theorem posture_survives_restart_witness:
  "\<exists>m' s'. Transition Incident ''eo'' ''s1'' (demo_machine Normal) fresh_os = ((Normal, None), m', s') \<and>
     current m' = Incident \<and> posture_New (mpath (demo_machine Normal)) s' = (Inr m', s')"
proof -
  obtain d where t: "Transition Incident ''eo'' ''s1'' (demo_machine Normal) fresh_os =
      ((current (demo_machine Normal), None), (demo_machine Normal)\<lparr>current := Incident\<rparr>,
       set_file ''posture.json'' d (fresh_os\<lparr>ticks := Suc (ticks fresh_os)\<rparr>))"
    using Transition_writes [of "demo_machine Normal" fresh_os Incident Incident "''eo''" "''s1''"] writable_demo
    by (auto simp: demo_machine_def state_defs permitted_iff)
  have "quiet fresh_os" by simp
  then show ?thesis
    using posture_survives_restart [OF t] t by (auto simp: quiet_def demo_machine_def)
qed

text \<open>A life of the system: one process after the other, each with its requests.\<close>

fun run_sessions :: "string \<Rightarrow> request list list \<Rightarrow> os \<Rightarrow> bool list \<times> os" where
  "run_sessions p [] s = ([], s)"
| "run_sessions p (rs # rss) s =
     (case posture_New p s of
        (Inl err, s1) \<Rightarrow> run_sessions p rss s1
      | (Inr m, s1) \<Rightarrow>
          (case run_requests transition_step rs m s1 of (oks, m', s2) \<Rightarrow>
           case run_sessions p rss s2 of (oks', s3) \<Rightarrow> (oks @ oks', s3)))"

lemma exited_requests:
  "current m = Exited \<Longrightarrow> run_requests transition_step rs m s = (replicate (length rs) False, m, s)"
  by (induction rs) (auto simp: transition_step_def Transition_def split: prod.splits)

text \<open>
  C31. \<^verbatim>\<open>EXITED\<close> is final across restarts: once it is in the state file, no request of any later
  process succeeds and the file is never written again.
\<close>

theorem exited_is_final:
  assumes "faults s = []" and "\<not> dir_exists s p" and "stored_posture p s = Some Exited"
  shows "run_sessions p rss s = (replicate (length (concat rss)) False, s)"
proof (induction rss)
  case (Cons rs rss)
  have "posture_New p s = (Inr \<lparr>current = Exited, mpath = p\<rparr>, s)"
    using assms by (intro New_stored) (simp_all add: isValidState_def)
  then show ?case using Cons exited_requests [of "\<lparr>current = Exited, mpath = p\<rparr>" rs s]
    by (simp add: replicate_add)
qed simp

definition exited_file :: string where
  "exited_file = ''{'' @ [dquote] @ ''posture'' @ [dquote] @ '':'' @ [dquote] @ ''EXITED'' @ [dquote] @ ''}''"

theorem exited_is_final_witness:
  "run_sessions ''posture.json'' [[(Normal, ''eo'', ''s1'')], [(Siege, ''eo'', ''s2'')]]
     (fresh_os\<lparr>files := [(''posture.json'', exited_file)]\<rparr>) =
   (replicate (length (concat [[(Normal, ''eo'', ''s1'')], [(Siege, ''eo'', ''s2'')]])) False,
    fresh_os\<lparr>files := [(''posture.json'', exited_file)]\<rparr>)"
proof (rule exited_is_final)
  show "faults (fresh_os\<lparr>files := [(''posture.json'', exited_file)]\<rparr>) = []" by (simp add: fresh_os_def)
  show "\<not> dir_exists (fresh_os\<lparr>files := [(''posture.json'', exited_file)]\<rparr>) ''posture.json''" by code_simp
  show "stored_posture ''posture.json'' (fresh_os\<lparr>files := [(''posture.json'', exited_file)]\<rparr>) = Some Exited" by code_simp
qed

text \<open>
  The revert after a failed write restores only the memory. When the write of the state file
  fails after the file was opened (and so truncated), the machine reports the error and is in
  its old posture, but the file is empty and no later process can start from it, not even back
  in the old posture.
\<close>

theorem failed_write_loses_state:
  assumes "writable (mpath m) (s\<lparr>faults := []\<rparr>)" and "faults s = [None, Some (Fault why 0)]"
    and "current m \<noteq> Exited" and "to' = (if current m = Game \<and> to = Game then Normal else to)"
    and "permitted (current m) to'"
  shows "\<exists>err s'. Transition to a sid m s = ((current m, Some err), m, s') \<and> file_at s' (mpath m) = Some [] \<and>
     posture_New (mpath m) s' = (Inl (WrapError ''posture: parse state: '' JsonError []), s')"
proof -
  have v: "valid_time (clock s (ticks s))" "\<not> dir_exists s (mpath m)" "dir_exists s (filepath_Dir (mpath m))"
    using assms(1) by (auto simp: writable_def quiet_def)
  then obtain d where d: "marshal_persistence (state_record to' a sid s) = Some d"
    by (simp add: marshal_persistence_def state_record_def marshal_time_valid)
  let ?s' = "set_file (mpath m) [] (s\<lparr>ticks := Suc (ticks s), faults := []\<rparr>)"
  have "os_WriteFile (mpath m) d (s\<lparr>ticks := Suc (ticks s)\<rparr>) =
      (Some (PathError ''write'' (mpath m) (Errno why)), ?s')"
    using v assms(2)
    by (simp add: os_WriteFile_def os_OpenTrunc_def open_file_def file_Write_def file_Close_def take_fault_def
        Let_def set_file_def update_last dir_exists_def file_at_def update_conv')
  then have 1: "\<exists>err. Transition to a sid m s = ((current m, Some err), m, ?s')"
    using assms(3-5) d by (simp add: Transition_def Let_def persist_def time_Now_def state_record_def)
  have "unmarshal_persistence [] = None" by code_simp
  then have "posture_New (mpath m) ?s' = (Inl (WrapError ''posture: parse state: '' JsonError []), ?s')"
    using v by (simp add: posture_New_def os_ReadFile_def)
  with 1 show ?thesis by auto
qed

theorem failed_write_loses_state_witness:
  "\<exists>err s'. Transition Normal ''eo'' ''s1'' (demo_machine Incident) (fresh_os\<lparr>faults := [None, Some (Fault ''disk full'' 0)]\<rparr>) =
       ((current (demo_machine Incident), Some err), demo_machine Incident, s') \<and>
     file_at s' (mpath (demo_machine Incident)) = Some [] \<and>
     posture_New (mpath (demo_machine Incident)) s' = (Inl (WrapError ''posture: parse state: '' JsonError []), s')"
proof (rule failed_write_loses_state [where to' = Normal])
  have "fresh_os\<lparr>faults := []\<rparr> = fresh_os" by (simp add: fresh_os_def)
  then show "writable (mpath (demo_machine Incident))
      (fresh_os\<lparr>faults := [None, Some (Fault ''disk full'' 0)], faults := []\<rparr>)"
    using writable_demo by (simp add: demo_machine_def)
qed (simp_all add: demo_machine_def state_defs permitted_iff)

section \<open>Reachability\<close>

lemma step_granted:
  assumes "writable (mpath m) s" and "current m \<noteq> Exited" and "to \<noteq> Game \<or> current m \<noteq> Game" and "permitted (current m) to"
  shows "\<exists>s'. transition_step (to, a, sid) m s = (True, m\<lparr>current := to\<rparr>, s') \<and> writable (mpath m) s'"
proof -
  obtain d where "Transition to a sid m s =
      ((current m, None), m\<lparr>current := to\<rparr>, set_file (mpath m) d (s\<lparr>ticks := Suc (ticks s)\<rparr>))"
    using Transition_writes [OF assms(1,2), of to to a sid] assms(3,4) by auto
  then show ?thesis using assms(1) by (simp add: transition_step_def)
qed

lemma normal_hub:
  assumes "isValidState x" and "x \<noteq> Normal"
  shows "permitted Normal x" and "x \<noteq> Exited \<Longrightarrow> permitted x Normal"
  using assms by (auto simp: isValidState_def permitted_iff)

text \<open>
  C32. No posture is a trap but EXITED: on a machine whose state file can be written, from every other
  posture every posture can be reached with at most two requests, all of which succeed.
\<close>

theorem every_posture_reachable:
  assumes "writable (mpath m) s" and "isValidState (current m)" and "current m \<noteq> Exited" and "isValidState q"
  shows "\<exists>rs m' s'. length rs \<le> 2 \<and> run_requests transition_step rs m s = (replicate (length rs) True, m', s') \<and> current m' = q"
proof -
  obtain rs1 s1 where 1: "length rs1 \<le> 1" "run_requests transition_step rs1 m s = (replicate (length rs1) True, m\<lparr>current := Normal\<rparr>, s1)"
      "writable (mpath m) s1"
  proof (cases "current m = Normal")
    case True
    then have "m\<lparr>current := Normal\<rparr> = m" by simp
    then show ?thesis using that [of "[]" s] assms(1) by simp
  next
    case False
    then obtain s1 where "transition_step (Normal, [], []) m s = (True, m\<lparr>current := Normal\<rparr>, s1)" "writable (mpath m) s1"
      using step_granted [OF assms(1,3), of Normal "[]" "[]"] normal_hub(2) [OF assms(2)] assms(3) by (auto simp: state_defs)
    then show ?thesis using that [of "[(Normal, [], [])]" s1] by simp
  qed
  show ?thesis
  proof (cases "q = Normal")
    case True
    then show ?thesis using 1 by (intro exI [of _ rs1] exI [of _ "m\<lparr>current := Normal\<rparr>"] exI [of _ s1]) simp
  next
    case False
    let ?m = "m\<lparr>current := Normal\<rparr>"
    obtain s2 where 2: "transition_step (q, [], []) ?m s1 = (True, ?m\<lparr>current := q\<rparr>, s2)"
      using step_granted [of ?m s1 q "[]" "[]"] 1(3) normal_hub(1) [OF assms(4) False] by (auto simp: state_defs)
    have "run_requests transition_step (rs1 @ [(q, [], [])]) m s = (replicate (length (rs1 @ [(q, [], [])])) True, ?m\<lparr>current := q\<rparr>, s2)"
      using 1(1,2) 2 by (cases rs1) (auto split: prod.splits)
    then show ?thesis
      using 1(1) by (intro exI [of _ "rs1 @ [(q, [], [])]"] exI [of _ "?m\<lparr>current := q\<rparr>"] exI [of _ s2]) simp
  qed
qed

theorem every_posture_reachable_witness:
  "\<exists>rs m' s'. length rs \<le> 2 \<and> run_requests transition_step rs (demo_machine Incident) fresh_os = (replicate (length rs) True, m', s') \<and>
     current m' = Siege"
  by (rule every_posture_reachable) (simp_all add: demo_machine_def writable_demo isValidState_def state_defs)

section \<open>Verdicts\<close>

lemma verdict_net: "CapabilityVerdict ''cap.net'' m = (if current m \<in> {Siege, Incident, Game} then ForceOff else PassThrough)"
  by (simp add: CapabilityVerdict_def postureCapOverrides_def state_defs)

lemma verdict_exited: "current m = Exited \<Longrightarrow> CapabilityVerdict c m = PassThrough"
  by (simp add: CapabilityVerdict_def postureCapOverrides_def state_defs)

text \<open>
  The overrides in the six states: the network is forced off exactly in SIEGE, INCIDENT and
  GAME; execution and the start of domains are restricted in MERCY, INCIDENT and GAME, the latter
  also in SIEGE; only an export in INCIDENT is ever forced on; every other capability is left to
  the roles, in EXITED all of them.
\<close>

theorem verdict_table:
  assumes "isValidState (current m)"
  shows "(CapabilityVerdict ''cap.net'' m = ForceOff \<longleftrightarrow> current m \<in> {Siege, Incident, Game}) \<and>
    (CapabilityVerdict ''cap.exec'' m \<noteq> PassThrough \<longleftrightarrow> current m \<in> {Mercy, Incident, Game}) \<and>
    (CapabilityVerdict ''cap.domain.start'' m \<noteq> PassThrough \<longleftrightarrow> current m \<in> {Siege, Mercy, Incident, Game}) \<and>
    (CapabilityVerdict c m = ForceOn \<longleftrightarrow> c = ''cap.export'' \<and> current m = Incident) \<and>
    (CapabilityVerdict c m \<noteq> PassThrough \<longrightarrow> c \<in> {''cap.net'', ''cap.exec'', ''cap.domain.start'', ''cap.export''}) \<and>
    (current m = Exited \<longrightarrow> CapabilityVerdict c m = PassThrough)"
  using assms
  by (auto simp: isValidState_def CapabilityVerdict_def postureCapOverrides_def state_defs split: if_splits)

theorem verdict_table_witness:
  "CapabilityVerdict ''cap.net'' (demo_machine Siege) = ForceOff \<and>
   CapabilityVerdict ''cap.export'' (demo_machine Incident) = ForceOn \<and>
   CapabilityVerdict ''cap.exec'' (demo_machine Exited) = PassThrough"
  using verdict_table [of "demo_machine Siege" "''cap.net''"] verdict_table [of "demo_machine Incident" "''cap.export''"]
    verdict_table [of "demo_machine Exited" "''cap.exec''"]
  by (simp add: demo_machine_def isValidState_def)

end
