(* ===== verification/Verb.thy ===== *)
theory Verb
  imports Audit_Log Rbac Posture
begin

text \<open>
  The verb dispatcher of \<^verbatim>\<open>internal/verb/dispatch.go\<close>: the single entry point that checks the role,
  checks the posture, writes the audit log and runs the action. A handler is a function that
  may change the world and the map it was given; the dispatcher owns the logger and reads the
  posture machine.
\<close>

section \<open>Dispatcher\<close>

record vcontext =
  VActorID :: string
  VSessionID :: string
  VDeviceID :: string
  VRole :: string

text \<open>
  \<^verbatim>\<open>func(ctx Context, objectRef string, meta map[string]any) error\<close>. The map is a reference: the
  handler returns it as it leaves it. What a nil map refers to cannot be changed, and no
  assignment to the parameter makes the caller's map nil (\<open>map_after\<close>).
\<close>

type_synonym handler = "vcontext \<Rightarrow> string \<Rightarrow> gomap option \<Rightarrow> os \<Rightarrow> go_error option \<times> gomap option \<times> os"

definition map_after :: "gomap option \<Rightarrow> gomap option \<Rightarrow> gomap option" where
  "map_after meta m = (case (meta, m) of (Some _, Some kvs) \<Rightarrow> Some kvs | _ \<Rightarrow> meta)"

lemma map_after_same [simp]: "map_after meta meta = meta"
  by (simp add: map_after_def split: option.splits)

record verbDef =
  capability :: string
  handler :: handler

record dispatcher =
  dlog :: logger
  dposture :: machine
  verbs :: "(string \<times> verbDef) list"

definition verb_New :: "logger \<Rightarrow> machine \<Rightarrow> dispatcher" where
  "verb_New log pm = \<lparr>dlog = log, dposture = pm, verbs = []\<rparr>"

definition Register :: "string \<Rightarrow> string \<Rightarrow> handler \<Rightarrow> dispatcher \<Rightarrow> dispatcher" where
  "Register verbName cap h d = d\<lparr>verbs := AList.update verbName \<lparr>capability = cap, handler = h\<rparr> (verbs d)\<rparr>"

text \<open>\<^verbatim>\<open>_ = d.log.Deny(...)\<close> followed by the \<^verbatim>\<open>ErrDenied\<close>: an error of the audit log is dropped.\<close>

definition deny_with ::
  "vcontext \<Rightarrow> string \<Rightarrow> string \<Rightarrow> gomap option \<Rightarrow> string \<Rightarrow> dispatcher \<Rightarrow> os \<Rightarrow> go_error option \<times> dispatcher \<times> os" where
  "deny_with ctx verbName objectRef meta rc d s =
     (case Deny (VActorID ctx) (VSessionID ctx) (VDeviceID ctx) verbName objectRef rc meta (dlog d) s of
        (_, l, s1) \<Rightarrow> (Some (ErrDenied verbName rc), d\<lparr>dlog := l\<rparr>, s1))"

text \<open>Steps 3 and 4: the event that announces the action, the action, the event with its result.\<close>

definition execute ::
  "vcontext \<Rightarrow> string \<Rightarrow> string \<Rightarrow> gomap option \<Rightarrow> verbDef \<Rightarrow> dispatcher \<Rightarrow> os \<Rightarrow> go_error option \<times> dispatcher \<times> os" where
  "execute ctx verbName objectRef meta def d s =
     (case Allow (VActorID ctx) (VSessionID ctx) (VDeviceID ctx) verbName objectRef ''pending'' meta (dlog d) s of
        (Some logErr, l, s1) \<Rightarrow>
          (Some (WrapError (''verb '' @ verbName @ '': audit failure: '') logErr []), d\<lparr>dlog := l\<rparr>, s1)
      | (None, l, s1) \<Rightarrow>
          (case handler def ctx objectRef meta s1 of
             (Some err, m, s2) \<Rightarrow>
               (case Allow (VActorID ctx) (VSessionID ctx) (VDeviceID ctx) verbName objectRef
                       (''error:'' @ Error err) (map_after meta m) l s2 of
                  (_, l2, s3) \<Rightarrow> (Some err, d\<lparr>dlog := l2\<rparr>, s3))
           | (None, m, s2) \<Rightarrow>
               (case Allow (VActorID ctx) (VSessionID ctx) (VDeviceID ctx) verbName objectRef
                       ResultSuccess (map_after meta m) l s2 of
                  (_, l2, s3) \<Rightarrow> (None, d\<lparr>dlog := l2\<rparr>, s3))))"

definition Dispatch ::
  "vcontext \<Rightarrow> string \<Rightarrow> string \<Rightarrow> gomap option \<Rightarrow> dispatcher \<Rightarrow> os \<Rightarrow> go_error option \<times> dispatcher \<times> os" where
  "Dispatch ctx verbName objectRef meta d s =
     (case map_of (verbs d) verbName of
        None \<Rightarrow> deny_with ctx verbName objectRef meta ''verb.unknown'' d s
      | Some def \<Rightarrow>
          if \<not> HasCapability (VRole ctx) (capability def)
          then deny_with ctx verbName objectRef meta (''rbac.'' @ capability def @ ''.missing'') d s
          else
            (case CapabilityVerdict (capability def) (dposture d) of
               ForceOff \<Rightarrow>
                 deny_with ctx verbName objectRef meta (''posture.'' @ Current (dposture d) @ ''.denied'') d s
             | PinnedOnly \<Rightarrow>
                 deny_with ctx verbName objectRef meta (''posture.'' @ Current (dposture d) @ ''.pinned_only'') d s
             | GameDomainOnly \<Rightarrow>
                 if objectRef \<noteq> ''domain:game''
                 then deny_with ctx verbName objectRef meta
                        (''posture.'' @ Current (dposture d) @ ''.game_domain_only'') d s
                 else execute ctx verbName objectRef meta def d s
             | ForceOn \<Rightarrow> execute ctx verbName objectRef meta def d s
             | PassThrough \<Rightarrow> execute ctx verbName objectRef meta def d s))"

text \<open>\<^verbatim>\<open>errors.As(err, &d)\<close> for \<^verbatim>\<open>d ErrDenied\<close>.\<close>

fun errors_As_ErrDenied :: "go_error \<Rightarrow> bool" where
  "errors_As_ErrDenied (ErrDenied v r) \<longleftrightarrow> True"
| "errors_As_ErrDenied (WrapError pre e post) \<longleftrightarrow> errors_As_ErrDenied e"
| "errors_As_ErrDenied _ \<longleftrightarrow> False"

definition IsDenied :: "go_error option \<Rightarrow> bool" where
  "IsDenied err \<longleftrightarrow> (case err of None \<Rightarrow> False | Some e \<Rightarrow> errors_As_ErrDenied e)"

section \<open>The decision\<close>

text \<open>
  The specification of the decision: the reason for which a request is refused, if it is. It
  looks at the role, the posture, the verb and the object, never at the handler or the world.
\<close>

definition refusal :: "vcontext \<Rightarrow> string \<Rightarrow> string \<Rightarrow> dispatcher \<Rightarrow> string option" where
  "refusal ctx v obj d =
     (case map_of (verbs d) v of
        None \<Rightarrow> Some ''verb.unknown''
      | Some def \<Rightarrow>
          let cap = capability def; vd = CapabilityVerdict cap (dposture d); st = current (dposture d) in
          if \<not> HasCapability (VRole ctx) cap then Some (''rbac.'' @ cap @ ''.missing'')
          else if vd = ForceOff then Some (''posture.'' @ st @ ''.denied'')
          else if vd = PinnedOnly then Some (''posture.'' @ st @ ''.pinned_only'')
          else if vd = GameDomainOnly \<and> obj \<noteq> ''domain:game'' then Some (''posture.'' @ st @ ''.game_domain_only'')
          else None)"

lemma Dispatch_refused:
  "refusal ctx v obj d = Some rc \<Longrightarrow> Dispatch ctx v obj meta d s = deny_with ctx v obj meta rc d s"
  by (cases "map_of (verbs d) v")
    (auto simp: refusal_def Dispatch_def Let_def Current_def split: verdict.splits if_splits)

lemma Dispatch_allowed:
  "refusal ctx v obj d = None \<Longrightarrow>
   \<exists>def. map_of (verbs d) v = Some def \<and> Dispatch ctx v obj meta d s = execute ctx v obj meta def d s"
  by (cases "map_of (verbs d) v")
    (auto simp: refusal_def Dispatch_def Let_def split: verdict.splits if_splits)

lemma Log_errors_not_denied: "Log e l s = (Some err, l', s') \<Longrightarrow> \<not> errors_As_ErrDenied err"
  by (auto simp: Log_def Let_def file_Write_def file_Sync_def split: prod.splits option.splits)

section \<open>The dispatcher keeps the log\<close>

type_synonym vrequest = "vcontext \<times> string \<times> string \<times> gomap option"

definition dispatch_request :: "vrequest \<Rightarrow> dispatcher \<Rightarrow> os \<Rightarrow> go_error option \<times> dispatcher \<times> os" where
  "dispatch_request q d s = (case q of (ctx, v, obj, meta) \<Rightarrow> Dispatch ctx v obj meta d s)"

text \<open>
  What the audit trail relies on: arguments that JSON can hold, and handlers that leave the log
  file and its directory alone, leave a map that JSON can hold and report errors that are valid
  UTF-8.
\<close>

definition meta_ok :: "gomap option \<Rightarrow> bool" where
  "meta_ok m \<longleftrightarrow> m \<noteq> Some [] \<and> norm_map m \<and> json_depth (tree_of_map m) < max_nesting_depth"

definition log_safe :: "string \<Rightarrow> gomap option \<Rightarrow> (os \<Rightarrow> go_error option \<times> gomap option \<times> os) \<Rightarrow> bool" where
  "log_safe p meta h \<longleftrightarrow> (\<forall>s r m s'. quiet s \<longrightarrow> h s = (r, m, s') \<longrightarrow>
     quiet s' \<and> file_at s' p = file_at s p \<and> dir_exists s' p = dir_exists s p \<and>
     (meta_ok meta \<longrightarrow> meta_ok (map_after meta m)) \<and>
     (\<forall>e. r = Some e \<longrightarrow> valid_utf8 (Error e)))"

definition request_ok :: "vrequest \<Rightarrow> dispatcher \<Rightarrow> bool" where
  "request_ok q d \<longleftrightarrow> (case q of (ctx, v, obj, meta) \<Rightarrow>
     valid_utf8 (VActorID ctx) \<and> valid_utf8 (VSessionID ctx) \<and> valid_utf8 (VDeviceID ctx) \<and>
     valid_utf8 v \<and> valid_utf8 obj \<and>
     meta_ok meta \<and>
     (case refusal ctx v obj d of Some rc \<Rightarrow> valid_utf8 rc
      | None \<Rightarrow> (case map_of (verbs d) v of None \<Rightarrow> False
                | Some def \<Rightarrow> log_safe (lf (dlog d)) meta (handler def ctx obj meta))))"

definition result_text :: "go_error option \<Rightarrow> string" where
  "result_text r = (case r of None \<Rightarrow> ResultSuccess | Some err \<Rightarrow> ''error:'' @ Error err)"

definition trail_of :: "vrequest \<Rightarrow> dispatcher \<Rightarrow> go_error option \<Rightarrow> event list \<Rightarrow> bool" where
  "trail_of q d r fs \<longleftrightarrow> (case q of (ctx, v, obj, meta) \<Rightarrow>
     case refusal ctx v obj d of
       Some rc \<Rightarrow> r = Some (ErrDenied v rc) \<and>
         list_all2 same_entry [deny_event (VActorID ctx) (VSessionID ctx) (VDeviceID ctx) v obj rc meta] fs
     | None \<Rightarrow> (\<exists>def w m w'. map_of (verbs d) v = Some def \<and> handler def ctx obj meta w = (r, m, w') \<and>
         list_all2 same_entry
           [allow_event (VActorID ctx) (VSessionID ctx) (VDeviceID ctx) v obj ''pending'' meta,
            allow_event (VActorID ctx) (VSessionID ctx) (VDeviceID ctx) v obj (result_text r) (map_after meta m)] fs))"

definition dispatcher_log :: "dispatcher \<Rightarrow> os \<Rightarrow> event list \<Rightarrow> bool" where
  "dispatcher_log d s es \<longleftrightarrow> log_state (dlog d) s es"

lemma loggable_allow:
  "loggable (allow_event a sid dev v obj res meta) \<longleftrightarrow>
   valid_utf8 a \<and> valid_utf8 sid \<and> valid_utf8 dev \<and> valid_utf8 v \<and> valid_utf8 obj \<and> valid_utf8 res \<and>
   meta_ok meta"
  by (auto simp: loggable_def meta_ok_def allow_event_def zero_event_def AllowDecision_def valid_utf8_ascii)

lemma loggable_deny:
  "loggable (deny_event a sid dev v obj rc meta) \<longleftrightarrow>
   valid_utf8 a \<and> valid_utf8 sid \<and> valid_utf8 dev \<and> valid_utf8 v \<and> valid_utf8 obj \<and> valid_utf8 rc \<and>
   meta_ok meta"
  by (auto simp: loggable_def meta_ok_def deny_event_def zero_event_def DenyDecision_def ResultFailure_def valid_utf8_ascii)

lemma Allow_log:
  assumes "log_state l s es" and "loggable (allow_event a sid dev v obj res meta)"
  shows "\<exists>e l' s'. Allow a sid dev v obj res meta l s = (None, l', s') \<and>
    same_entry (allow_event a sid dev v obj res meta) e \<and> log_state l' s' (es @ [e]) \<and> lf l' = lf l"
  using Log_step [OF assms] same_entry_stamped unfolding Allow_def by blast

lemma Deny_log:
  assumes "log_state l s es" and "loggable (deny_event a sid dev v obj rc meta)"
  shows "\<exists>e l' s'. Deny a sid dev v obj rc meta l s = (None, l', s') \<and>
    same_entry (deny_event a sid dev v obj rc meta) e \<and> log_state l' s' (es @ [e]) \<and> lf l' = lf l"
  using Log_step [OF assms] same_entry_stamped unfolding Deny_def by blast

lemma log_state_frame:
  "log_state l s es \<Longrightarrow> quiet s' \<Longrightarrow> file_at s' (lf l) = file_at s (lf l) \<Longrightarrow>
   dir_exists s' (lf l) = dir_exists s (lf l) \<Longrightarrow> log_state l s' es"
  by (simp add: log_state_def)

lemma valid_result_text:
  "(\<And>e. r = Some e \<Longrightarrow> valid_utf8 (Error e)) \<Longrightarrow> valid_utf8 (result_text r)"
  using valid_utf8_append [of "''error:''"]
  by (auto simp: result_text_def ResultSuccess_def valid_utf8_ascii split: option.splits)

lemma execute_trail:
  assumes "log_state (dlog d) s es" and "log_safe (lf (dlog d)) meta (handler def ctx obj meta)"
    and "loggable (allow_event (VActorID ctx) (VSessionID ctx) (VDeviceID ctx) v obj ''pending'' meta)"
  shows "\<exists>r l' s' a b w m w'. execute ctx v obj meta def d s = (r, d\<lparr>dlog := l'\<rparr>, s') \<and> log_state l' s' (es @ [a, b]) \<and>
    handler def ctx obj meta w = (r, m, w') \<and>
    same_entry (allow_event (VActorID ctx) (VSessionID ctx) (VDeviceID ctx) v obj ''pending'' meta) a \<and>
    same_entry (allow_event (VActorID ctx) (VSessionID ctx) (VDeviceID ctx) v obj (result_text r) (map_after meta m)) b"
proof -
  obtain a l1 s1 where 1: "Allow (VActorID ctx) (VSessionID ctx) (VDeviceID ctx) v obj ''pending'' meta (dlog d) s =
      (None, l1, s1)" "same_entry (allow_event (VActorID ctx) (VSessionID ctx) (VDeviceID ctx) v obj ''pending'' meta) a"
      "log_state l1 s1 (es @ [a])" "lf l1 = lf (dlog d)"
    using Allow_log [OF assms(1,3)] by blast
  obtain r m s2 where h: "handler def ctx obj meta s1 = (r, m, s2)" by (metis prod_cases3)
  have q: "quiet s1" using 1(3) by (simp add: log_state_def)
  have safe: "quiet s2" "file_at s2 (lf l1) = file_at s1 (lf l1)" "dir_exists s2 (lf l1) = dir_exists s1 (lf l1)"
      "meta_ok meta \<longrightarrow> meta_ok (map_after meta m)" "\<And>e. r = Some e \<Longrightarrow> valid_utf8 (Error e)"
    using assms(2) q h 1(4) by (auto simp: log_safe_def)
  have "log_state l1 s2 (es @ [a])" by (rule log_state_frame [OF 1(3) safe(1-3)])
  moreover have "loggable (allow_event (VActorID ctx) (VSessionID ctx) (VDeviceID ctx) v obj (result_text r) (map_after meta m))"
    using assms(3) safe(4) valid_result_text [OF safe(5)] by (simp add: loggable_allow)
  ultimately obtain b l2 s3 where 2: "Allow (VActorID ctx) (VSessionID ctx) (VDeviceID ctx) v obj (result_text r) (map_after meta m) l1 s2 =
      (None, l2, s3)" "same_entry (allow_event (VActorID ctx) (VSessionID ctx) (VDeviceID ctx) v obj (result_text r) (map_after meta m)) b"
      "log_state l2 s3 ((es @ [a]) @ [b])"
    using Allow_log by blast
  have "execute ctx v obj meta def d s = (r, d\<lparr>dlog := l2\<rparr>, s3)"
    using 1(1) h 2(1) by (auto simp: execute_def result_text_def split: option.splits)
  with 1(2) 2(2,3) h show ?thesis by (simp only: append_assoc append.simps) blast
qed

lemma Allow_lf: "Allow a sid dev v obj res meta l s = (r, l', s') \<Longrightarrow> lf l' = lf l"
  unfolding Allow_def by (rule Log_lf)

lemma Deny_lf: "Deny a sid dev v obj rc meta l s = (r, l', s') \<Longrightarrow> lf l' = lf l"
  unfolding Deny_def by (rule Log_lf)

lemma Dispatch_static:
  assumes "Dispatch ctx v obj meta d s = (r, d', s')"
  shows "verbs d' = verbs d \<and> dposture d' = dposture d \<and> lf (dlog d') = lf (dlog d)"
proof (cases "refusal ctx v obj d")
  case (Some rc)
  then show ?thesis
    using assms Dispatch_refused [OF Some] by (auto simp: deny_with_def split: prod.splits dest: Deny_lf)
next
  case None
  then obtain def where "execute ctx v obj meta def d s = (r, d', s')"
    using assms Dispatch_allowed [OF None, of meta s] by auto
  then show ?thesis
    by (auto simp: execute_def split: prod.splits option.splits dest!: Allow_lf)
qed

interpretation dispatch_audit: audited dispatch_request dispatcher_log request_ok trail_of
proof
  fix d s es q
  assume log: "dispatcher_log d s es" and ok: "request_ok q d"
  obtain ctx v obj meta where q: "q = (ctx, v, obj, meta)" by (metis prod_cases4)
  have l: "log_state (dlog d) s es" using log by (simp add: dispatcher_log_def)
  show "\<exists>r d' s' fs. dispatch_request q d s = (r, d', s') \<and> trail_of q d r fs \<and> dispatcher_log d' s' (es @ fs)"
  proof (cases "refusal ctx v obj d")
    case (Some rc)
    have "loggable (deny_event (VActorID ctx) (VSessionID ctx) (VDeviceID ctx) v obj rc meta)"
      using ok by (simp add: q request_ok_def Some loggable_deny)
    from Deny_log [OF l this] show ?thesis
      using Dispatch_refused [OF Some, of meta s]
      by (fastforce simp: q dispatch_request_def deny_with_def trail_of_def Some dispatcher_log_def)
  next
    case None
    then obtain def where def: "map_of (verbs d) v = Some def"
        "Dispatch ctx v obj meta d s = execute ctx v obj meta def d s"
      using Dispatch_allowed by blast
    have "log_safe (lf (dlog d)) meta (handler def ctx obj meta)"
      "loggable (allow_event (VActorID ctx) (VSessionID ctx) (VDeviceID ctx) v obj ''pending'' meta)"
      using ok by (simp_all add: q request_ok_def None def(1) loggable_allow valid_utf8_ascii)
    from execute_trail [OF l this] obtain r l' s' a b w m w' where
      "execute ctx v obj meta def d s = (r, d\<lparr>dlog := l'\<rparr>, s')" "log_state l' s' (es @ [a, b])"
      "handler def ctx obj meta w = (r, m, w')"
      "same_entry (allow_event (VActorID ctx) (VSessionID ctx) (VDeviceID ctx) v obj ''pending'' meta) a"
      "same_entry (allow_event (VActorID ctx) (VSessionID ctx) (VDeviceID ctx) v obj (result_text r) (map_after meta m)) b" by blast
    then show ?thesis
      by (intro exI [of _ r] exI [of _ "d\<lparr>dlog := l'\<rparr>"] exI [of _ s'] exI [of _ "[a, b]"])
        (auto simp: q dispatch_request_def def trail_of_def None dispatcher_log_def)
  qed
next
  fix q d s r d' s' q'
  assume "dispatch_request q d s = (r, d', s')"
  then have st: "verbs d' = verbs d" "dposture d' = dposture d" "lf (dlog d') = lf (dlog d)"
    by (auto simp: dispatch_request_def split: prod.splits dest: Dispatch_static)
  then have "refusal ctx v obj d' = refusal ctx v obj d" for ctx v obj
    by (simp only: refusal_def)
  with st show "request_ok q' d' = request_ok q' d \<and> trail_of q' d' = trail_of q' d"
    by (simp only: request_ok_def trail_of_def fun_eq_iff simp_thms)
qed

section \<open>Properties\<close>

text \<open>Two dispatchers that differ only in the actions behind the verbs.\<close>

definition same_policy :: "dispatcher \<Rightarrow> dispatcher \<Rightarrow> bool" where
  "same_policy d e \<longleftrightarrow> dlog d = dlog e \<and> dposture d = dposture e \<and>
     (\<forall>v. map_option capability (map_of (verbs d) v) = map_option capability (map_of (verbs e) v))"

lemma refusal_same_policy: "same_policy d e \<Longrightarrow> refusal ctx v obj d = refusal ctx v obj e"
proof -
  assume p: "same_policy d e"
  then have "map_option capability (map_of (verbs d) v) = map_option capability (map_of (verbs e) v)"
    by (simp add: same_policy_def)
  with p show ?thesis
    by (cases "map_of (verbs d) v"; cases "map_of (verbs e) v") (simp_all add: refusal_def same_policy_def)
qed

text \<open>
  C2. Complete mediation. When the role or the posture refuses a request, or when the event that
  announces the action cannot be written, the action is not run: the outcome, the log and the
  world are the same whatever the handlers are, and the caller gets an error, which is
  \<^verbatim>\<open>ErrDenied\<close> with the reason in the first case.
\<close>

theorem no_action_without_permission_and_audit:
  assumes "same_policy d e"
    and "refusal ctx v obj d \<noteq> None \<or>
      fst (Allow (VActorID ctx) (VSessionID ctx) (VDeviceID ctx) v obj ''pending'' meta (dlog d) s) \<noteq> None"
  shows "case (Dispatch ctx v obj meta d s, Dispatch ctx v obj meta e s) of ((r, d', s'), (r', e', s'')) \<Rightarrow>
    r = r' \<and> dlog d' = dlog e' \<and> s' = s'' \<and> r \<noteq> None \<and>
    (\<forall>rc. refusal ctx v obj d = Some rc \<longrightarrow> r = Some (ErrDenied v rc))"
proof (cases "refusal ctx v obj d")
  case (Some rc)
  then have "refusal ctx v obj e = Some rc" using refusal_same_policy [OF assms(1)] by simp
  then show ?thesis
    using assms(1) Some Dispatch_refused by (auto simp: deny_with_def same_policy_def split: prod.splits)
next
  case None
  then have "refusal ctx v obj e = None" using refusal_same_policy [OF assms(1)] by simp
  then obtain de ee where "Dispatch ctx v obj meta d s = execute ctx v obj meta de d s"
      "Dispatch ctx v obj meta e s = execute ctx v obj meta ee e s"
    using None Dispatch_allowed by metis
  then show ?thesis
    using assms None by (auto simp: execute_def same_policy_def split: prod.splits option.splits)
qed

definition demo_ctx :: "string \<Rightarrow> vcontext" where
  "demo_ctx role = \<lparr>VActorID = ''eo'', VSessionID = ''s1'', VDeviceID = ''host'', VRole = role\<rparr>"

definition demo_dispatcher :: "string \<Rightarrow> string \<Rightarrow> dispatcher" where
  "demo_dispatcher st cap = Register ''ACT'' cap (\<lambda>ctx obj meta s. (None, meta, s\<lparr>stdout := stdout s @ ''done''\<rparr>))
     (verb_New \<lparr>lf = ''a'', lseq = 0, lastHash = genesisHash\<rparr> (demo_machine st))"

definition inert_dispatcher :: "string \<Rightarrow> string \<Rightarrow> dispatcher" where
  "inert_dispatcher st cap = Register ''ACT'' cap (\<lambda>ctx obj meta s. (None, meta, s))
     (verb_New \<lparr>lf = ''a'', lseq = 0, lastHash = genesisHash\<rparr> (demo_machine st))"

lemma refusal_demo:
  "refusal (demo_ctx role) ''ACT'' obj (demo_dispatcher st cap) =
   (if \<not> HasCapability role cap then Some (''rbac.'' @ cap @ ''.missing'')
    else case CapabilityVerdict cap (demo_machine st) of
        ForceOff \<Rightarrow> Some (''posture.'' @ st @ ''.denied'')
      | PinnedOnly \<Rightarrow> Some (''posture.'' @ st @ ''.pinned_only'')
      | GameDomainOnly \<Rightarrow> (if obj \<noteq> ''domain:game'' then Some (''posture.'' @ st @ ''.game_domain_only'') else None)
      | _ \<Rightarrow> None)"
  by (auto simp: refusal_def demo_dispatcher_def Register_def verb_New_def demo_ctx_def demo_machine_def
      split: verdict.splits)

theorem no_action_without_permission_and_audit_witness:
  "case (Dispatch (demo_ctx RoleAuditor) ''ACT'' ''x'' None (demo_dispatcher Normal CapExec) fresh_os,
         Dispatch (demo_ctx RoleAuditor) ''ACT'' ''x'' None (inert_dispatcher Normal CapExec) fresh_os) of
     ((r, d', s'), (r', e', s'')) \<Rightarrow> r = r' \<and> dlog d' = dlog e' \<and> s' = s'' \<and> r \<noteq> None \<and>
    (\<forall>rc. refusal (demo_ctx RoleAuditor) ''ACT'' ''x'' (demo_dispatcher Normal CapExec) = Some rc \<longrightarrow>
       r = Some (ErrDenied ''ACT'' rc))"
proof (rule no_action_without_permission_and_audit)
  show "same_policy (demo_dispatcher Normal CapExec) (inert_dispatcher Normal CapExec)"
    by (auto simp: same_policy_def demo_dispatcher_def inert_dispatcher_def Register_def verb_New_def)
  have "\<not> HasCapability RoleAuditor CapExec" by (simp add: HasCapability_auditor cap_defs)
  then show "refusal (demo_ctx RoleAuditor) ''ACT'' ''x'' (demo_dispatcher Normal CapExec) \<noteq> None \<or>
      fst (Allow (VActorID (demo_ctx RoleAuditor)) (VSessionID (demo_ctx RoleAuditor)) (VDeviceID (demo_ctx RoleAuditor))
        ''ACT'' ''x'' ''pending'' None (dlog (demo_dispatcher Normal CapExec)) fresh_os) \<noteq> None"
    by (simp add: refusal_demo)
qed

text \<open>
  C5. The audit trail is complete. Any sequence of requests, whatever their outcomes, leaves in
  the log, in order, for each refused request one deny event with the reason, and for each
  permitted one an event written before the action ran and one with the action's result (and the
  map as the action left it); the log
  verifies and reads back as the earlier events followed by these.
\<close>

theorem dispatch_trail_complete:
  assumes "log_state (dlog d) s es" and "\<forall>q\<in>set qs. request_ok q d"
  shows "\<exists>rs d' s' fss. run_all dispatch_request qs d s = (rs, d', s') \<and> length rs = length qs \<and> length fss = length qs \<and>
    (\<forall>i < length qs. trail_of (qs ! i) d (rs ! i) (fss ! i)) \<and>
    ReadFile (lf (dlog d')) s' = (Inr (es @ concat fss), s') \<and> VerifyChain (lf (dlog d')) s' = (None, s')"
proof -
  have "dispatcher_log d s es" using assms(1) by (simp add: dispatcher_log_def)
  from dispatch_audit.trail [OF this assms(2)] obtain rs d' s' fss where
    "run_all dispatch_request qs d s = (rs, d', s')" "length rs = length qs" "length fss = length qs"
    "\<forall>i < length qs. trail_of (qs ! i) d (rs ! i) (fss ! i)" "log_state (dlog d') s' (es @ concat fss)"
    by (auto simp: dispatcher_log_def)
  then show ?thesis using ReadFile_log_state VerifyChain_log_state by blast
qed

lemma demo_log: "log_state (dlog (demo_dispatcher st cap)) (fresh_os\<lparr>files := [(''a'', [])]\<rparr>) []"
proof -
  have "file_at (fresh_os\<lparr>files := [(''a'', [])]\<rparr>) ''a'' = Some []" "\<not> dir_exists (fresh_os\<lparr>files := [(''a'', [])]\<rparr>) ''a''"
    by code_simp+
  then show ?thesis
    by (simp add: log_state_def honest_nil demo_dispatcher_def Register_def verb_New_def)
qed

lemma demo_safe: "log_safe p meta (\<lambda>s. (None, meta, s\<lparr>stdout := f (stdout s)\<rparr>))"
  by (auto simp: log_safe_def file_at_def dir_exists_def)

theorem dispatch_trail_complete_witness:
  "\<exists>rs d' s' fss. run_all dispatch_request [(demo_ctx RoleOperator, ''ACT'', ''x'', None), (demo_ctx RoleAuditor, ''ACT'', ''x'', None)]
      (demo_dispatcher Normal CapExec) (fresh_os\<lparr>files := [(''a'', [])]\<rparr>) = (rs, d', s') \<and>
    ReadFile (lf (dlog d')) s' = (Inr ([] @ concat fss), s') \<and> VerifyChain (lf (dlog d')) s' = (None, s')"
proof -
  let ?d = "demo_dispatcher Normal CapExec"
  have "HasCapability RoleOperator CapExec" "\<not> HasCapability RoleAuditor CapExec"
    by (simp_all add: HasCapability_auditor HasCapability_operator cap_defs)
  moreover have "CapabilityVerdict CapExec (demo_machine Normal) = PassThrough" by code_simp
  ultimately have r: "refusal (demo_ctx RoleOperator) ''ACT'' ''x'' ?d = None"
      "refusal (demo_ctx RoleAuditor) ''ACT'' ''x'' ?d = Some (''rbac.'' @ CapExec @ ''.missing'')"
    by (simp_all add: refusal_demo)
  have "request_ok q ?d" if "q \<in> {(demo_ctx RoleOperator, ''ACT'', ''x'', None), (demo_ctx RoleAuditor, ''ACT'', ''x'', None)}" for q
    using that r demo_safe [of "''a''" None "\<lambda>t. t @ ''done''"]
    by (auto simp: request_ok_def meta_ok_def demo_ctx_def valid_utf8_ascii norm_map_def tree_of_map_def max_nesting_depth_def cap_defs
        demo_dispatcher_def Register_def verb_New_def)
  then show ?thesis
    using dispatch_trail_complete [OF demo_log, of "[(demo_ctx RoleOperator, ''ACT'', ''x'', None), (demo_ctx RoleAuditor, ''ACT'', ''x'', None)]" Normal CapExec]
    by (auto simp: insert_commute)
qed

text \<open>
  C24. Posture overrides every role: in SIEGE, INCIDENT and GAME a verb that needs the network is
  denied, in INCIDENT also one that executes or starts a domain, and in GAME these only pass for
  the game domain; whoever asks, and whatever the handler is.
\<close>

theorem posture_overrides_roles:
  assumes "map_of (verbs d) v = Some def"
    and "(current (dposture d), capability def) \<in>
      {(Siege, CapNet), (Incident, CapNet), (Game, CapNet), (Incident, CapExec), (Incident, CapDomainStart)} \<or>
      (current (dposture d), capability def) \<in> {(Game, CapExec), (Game, CapDomainStart)} \<and> obj \<noteq> ''domain:game''"
  shows "\<exists>rc. fst (Dispatch ctx v obj meta d s) = Some (ErrDenied v rc) \<and>
    rc \<in> {''rbac.'' @ capability def @ ''.missing'', ''posture.'' @ current (dposture d) @ ''.denied'',
          ''posture.'' @ current (dposture d) @ ''.game_domain_only''}"
proof -
  have "CapabilityVerdict (capability def) (dposture d) = ForceOff \<or>
      CapabilityVerdict (capability def) (dposture d) = GameDomainOnly \<and> obj \<noteq> ''domain:game''"
    using assms(2) by (auto simp: CapabilityVerdict_def postureCapOverrides_def state_defs cap_defs)
  then have "\<exists>rc. refusal ctx v obj d = Some rc \<and>
      rc \<in> {''rbac.'' @ capability def @ ''.missing'', ''posture.'' @ current (dposture d) @ ''.denied'',
          ''posture.'' @ current (dposture d) @ ''.game_domain_only''}"
    using assms(1) by (cases "HasCapability (VRole ctx) (capability def)"; elim disjE conjE)
      (simp_all add: refusal_def Let_def)
  then obtain rc where "refusal ctx v obj d = Some rc"
      "rc \<in> {''rbac.'' @ capability def @ ''.missing'', ''posture.'' @ current (dposture d) @ ''.denied'',
          ''posture.'' @ current (dposture d) @ ''.game_domain_only''}" by blast
  moreover from this(1) have "fst (Dispatch ctx v obj meta d s) = Some (ErrDenied v rc)"
    by (simp add: Dispatch_refused deny_with_def split: prod.splits)
  ultimately show ?thesis by blast
qed

theorem posture_overrides_roles_witness:
  "\<exists>rc. fst (Dispatch (demo_ctx RoleAdmin) ''ACT'' ''x'' None (demo_dispatcher Siege CapNet) fresh_os) = Some (ErrDenied ''ACT'' rc) \<and>
    rc \<in> {''rbac.'' @ CapNet @ ''.missing'', ''posture.'' @ Siege @ ''.denied'', ''posture.'' @ Siege @ ''.game_domain_only''}"
  using posture_overrides_roles [of "demo_dispatcher Siege CapNet" "''ACT''"
      "\<lparr>capability = CapNet, handler = \<lambda>ctx obj meta s. (None, meta, s\<lparr>stdout := stdout s @ ''done''\<rparr>)\<rparr>" "''x''" "demo_ctx RoleAdmin" None fresh_os]
  by (simp add: demo_dispatcher_def Register_def verb_New_def demo_machine_def)

text \<open>
  The override \<^verbatim>\<open>ForceOn\<close> grants nothing: the role is checked first, so a role without the
  capability is denied for it in INCIDENT as in every other posture, and the decision under
  \<^verbatim>\<open>ForceOn\<close> is the decision under \<^verbatim>\<open>PassThrough\<close>.
\<close>

theorem force_on_grants_nothing:
  assumes "map_of (verbs d) v = Some def" and "\<not> HasCapability (VRole ctx) (capability def)"
  shows "fst (Dispatch ctx v obj meta d s) = Some (ErrDenied v (''rbac.'' @ capability def @ ''.missing''))"
proof -
  have "refusal ctx v obj d = Some (''rbac.'' @ capability def @ ''.missing'')"
    using assms by (simp add: refusal_def)
  then show ?thesis by (simp add: Dispatch_refused deny_with_def split: prod.splits)
qed

theorem force_on_grants_nothing_witness:
  "CapabilityVerdict CapExport (demo_machine Incident) = ForceOn \<and>
   fst (Dispatch (demo_ctx RoleOperator) ''ACT'' ''x'' None (demo_dispatcher Incident CapExport) fresh_os) =
     Some (ErrDenied ''ACT'' (''rbac.'' @ CapExport @ ''.missing''))"
proof
  show "CapabilityVerdict CapExport (demo_machine Incident) = ForceOn" by code_simp
  show "fst (Dispatch (demo_ctx RoleOperator) ''ACT'' ''x'' None (demo_dispatcher Incident CapExport) fresh_os) =
     Some (ErrDenied ''ACT'' (''rbac.'' @ CapExport @ ''.missing''))"
    using force_on_grants_nothing [of "demo_dispatcher Incident CapExport" "''ACT''"
        "\<lparr>capability = CapExport, handler = \<lambda>ctx obj meta s. (None, meta, s\<lparr>stdout := stdout s @ ''done''\<rparr>)\<rparr>" "demo_ctx RoleOperator" "''x''" None fresh_os]
    by (simp add: demo_dispatcher_def Register_def verb_New_def demo_ctx_def HasCapability_operator cap_defs)
qed

text \<open>
  In the posture EXITED the dispatcher decides as in NORMAL: nothing is blocked, every
  capability of the role is granted.
\<close>

theorem exited_blocks_nothing:
  assumes "current (dposture d) = Exited"
  shows "refusal ctx v obj d = refusal ctx v obj (d\<lparr>dposture := (dposture d)\<lparr>current := Normal\<rparr>\<rparr>) \<and>
    (\<forall>def. map_of (verbs d) v = Some def \<and> HasCapability (VRole ctx) (capability def) \<longrightarrow> refusal ctx v obj d = None)"
proof -
  have "CapabilityVerdict c (dposture d) = PassThrough" for c
    using assms by (rule verdict_exited)
  moreover have "CapabilityVerdict c ((dposture d)\<lparr>current := Normal\<rparr>) = PassThrough" for c
    by (simp add: CapabilityVerdict_def postureCapOverrides_def)
  ultimately show ?thesis by (simp add: refusal_def Let_def split: option.splits)
qed

theorem exited_blocks_nothing_witness:
  "refusal (demo_ctx RoleOperator) ''ACT'' ''x'' (demo_dispatcher Exited CapExec) = None"
proof -
  let ?d = "demo_dispatcher Exited CapExec"
  have "current (dposture ?d) = Exited"
    by (simp add: demo_dispatcher_def Register_def verb_New_def demo_machine_def)
  moreover have "\<exists>def. map_of (verbs ?d) ''ACT'' = Some def \<and> capability def = CapExec"
    by (simp add: demo_dispatcher_def Register_def verb_New_def)
  moreover have "HasCapability (VRole (demo_ctx RoleOperator)) CapExec"
    by (simp add: demo_ctx_def HasCapability_operator)
  ultimately show ?thesis using exited_blocks_nothing [of ?d "demo_ctx RoleOperator" "''ACT''" "''x''"] by auto
qed

text \<open>
  What a caller learns from \<^verbatim>\<open>IsDenied\<close>: a refused request is denied; a permitted one whose
  announcement could not be logged is an error that is not a denial; otherwise the error is the
  handler's own.
\<close>

theorem IsDenied_of_Dispatch:
  "case Dispatch ctx v obj meta d s of (r, d', s') \<Rightarrow>
     case refusal ctx v obj d of
       Some rc \<Rightarrow> IsDenied r
     | None \<Rightarrow>
         (case Allow (VActorID ctx) (VSessionID ctx) (VDeviceID ctx) v obj ''pending'' meta (dlog d) s of
            (Some err, l, s1) \<Rightarrow> r \<noteq> None \<and> \<not> IsDenied r \<and> d' = d\<lparr>dlog := l\<rparr> \<and> s' = s1
          | (None, l, s1) \<Rightarrow> (\<exists>def. map_of (verbs d) v = Some def \<and> r = fst (handler def ctx obj meta s1)))"
proof (cases "refusal ctx v obj d")
  case (Some rc)
  then show ?thesis by (simp add: Dispatch_refused deny_with_def IsDenied_def split: prod.splits)
next
  case None
  then obtain def where def: "map_of (verbs d) v = Some def"
      "Dispatch ctx v obj meta d s = execute ctx v obj meta def d s"
    using Dispatch_allowed by blast
  obtain le l s1 where a: "Allow (VActorID ctx) (VSessionID ctx) (VDeviceID ctx) v obj ''pending'' meta (dlog d) s = (le, l, s1)"
    by (metis prod_cases3)
  show ?thesis
  proof (cases le)
    case (Some err)
    then have "\<not> errors_As_ErrDenied err" using a Log_errors_not_denied unfolding Allow_def by blast
    with None Some a def show ?thesis by (simp add: execute_def IsDenied_def)
  next
    case le: None
    with None a def show ?thesis by (auto simp: execute_def split: prod.splits option.splits)
  qed
qed

text \<open>
  A denial is reported even when it could not be recorded: if the write of the deny event
  fails, the caller still gets \<^verbatim>\<open>ErrDenied\<close> and the log file is as before, without the event.
\<close>

theorem denial_may_go_unrecorded:
  assumes "refusal ctx v obj d = Some rc" and "faults s = Some (Fault why 0) # fs"
    and "file_at s (lf (dlog d)) = Some old" and "valid_time (clock s (ticks s))"
  shows "\<exists>s'. Dispatch ctx v obj meta d s = (Some (ErrDenied v rc), d, s') \<and> file_at s' (lf (dlog d)) = Some old"
proof -
  let ?e = "deny_event (VActorID ctx) (VSessionID ctx) (VDeviceID ctx) v obj rc meta"
  obtain data where "marshal_event (stamped ?e (dlog d) s) = Some data"
    using marshal_event_line [of "stamped ?e (dlog d) s"] assms(4) by auto
  then have "\<exists>err s'. Log ?e (dlog d) s = (Some err, dlog d, s') \<and> file_at s' (lf (dlog d)) = Some old"
    using assms(2,3) by (simp add: Log_def time_Now_def Let_def stamped_def file_Write_def take_fault_def)
  then show ?thesis
    by (auto simp: Dispatch_refused [OF assms(1)] deny_with_def Deny_def)
qed

theorem denial_may_go_unrecorded_witness:
  "\<exists>s'. Dispatch (demo_ctx RoleAuditor) ''ACT'' ''x'' None (demo_dispatcher Normal CapExec)
      (fresh_os\<lparr>files := [(''a'', [])], faults := [Some (Fault ''disk full'' 0)]\<rparr>) =
      (Some (ErrDenied ''ACT'' (''rbac.'' @ CapExec @ ''.missing'')), demo_dispatcher Normal CapExec, s') \<and>
    file_at s' (lf (dlog (demo_dispatcher Normal CapExec))) = Some []"
proof (rule denial_may_go_unrecorded)
  show "refusal (demo_ctx RoleAuditor) ''ACT'' ''x'' (demo_dispatcher Normal CapExec) = Some (''rbac.'' @ CapExec @ ''.missing'')"
    by (simp add: refusal_demo HasCapability_auditor cap_defs)
  show "file_at (fresh_os\<lparr>files := [(''a'', [])], faults := [Some (Fault ''disk full'' 0)]\<rparr>)
      (lf (dlog (demo_dispatcher Normal CapExec))) = Some []" by code_simp
qed (simp_all add: fresh_os_def valid_epoch)

end
