(* ===== verification/Go_Path.thy ===== *)
theory Go_Path
  imports Go_OS
begin

text \<open>
  Facts about \<^verbatim>\<open>filepath.Clean\<close>, \<^verbatim>\<open>Join\<close>, \<^verbatim>\<open>Dir\<close> and \<^verbatim>\<open>Base\<close>: cleaning twice is cleaning once, and
  a file name joined to a directory is a path with that directory and that base name.
\<close>

definition plain_elem :: "string \<Rightarrow> bool" where
  "plain_elem e \<longleftrightarrow> e \<noteq> [] \<and> e \<noteq> ''.'' \<and> e \<noteq> ''..'' \<and> CHR ''/'' \<notin> set e"

text \<open>The elements of a cleaned path: in a relative path some \<^verbatim>\<open>..\<close> first, then plain names.\<close>

definition clean_list :: "bool \<Rightarrow> string list \<Rightarrow> bool" where
  "clean_list root es \<longleftrightarrow>
     (\<exists>n ps. es = replicate n ''..'' @ ps \<and> (\<forall>p\<in>set ps. plain_elem p) \<and> (root \<longrightarrow> n = 0))"

lemma clean_list_nil [simp]: "clean_list root []"
  by (simp add: clean_list_def)

lemma clean_list_snoc_plain: "clean_list root es \<Longrightarrow> plain_elem p \<Longrightarrow> clean_list root (es @ [p])"
proof -
  assume "clean_list root es" and p: "plain_elem p"
  then obtain n ps where "es = replicate n ''..'' @ ps" "\<forall>p\<in>set ps. plain_elem p" "root \<longrightarrow> n = 0"
    by (auto simp: clean_list_def)
  with p show ?thesis unfolding clean_list_def by (intro exI [of _ n] exI [of _ "ps @ [p]"]) auto
qed

lemma clean_list_butlast: "clean_list root (es @ [e]) \<Longrightarrow> e \<noteq> ''..'' \<Longrightarrow> clean_list root es"
proof -
  assume "clean_list root (es @ [e])" "e \<noteq> ''..''"
  then obtain n ps where ps: "es @ [e] = replicate n ''..'' @ ps" "\<forall>p\<in>set ps. plain_elem p" "root \<longrightarrow> n = 0"
    by (auto simp: clean_list_def)
  show ?thesis
  proof (cases ps rule: rev_cases)
    case Nil
    with ps(1) have "e \<in> set (replicate n ''..'')" by (metis append.right_neutral in_set_conv_decomp)
    with \<open>e \<noteq> ''..''\<close> show ?thesis by simp
  next
    case (snoc qs q)
    with ps have "es = replicate n ''..'' @ qs" by simp
    with ps snoc show ?thesis by (auto simp: clean_list_def)
  qed
qed

lemma clean_list_dots: "clean_list False es \<Longrightarrow> es = [] \<or> last es = ''..'' \<Longrightarrow> clean_list False (es @ [''..''])"
proof -
  assume "clean_list False es" and last: "es = [] \<or> last es = ''..''"
  then obtain n ps where ps: "es = replicate n ''..'' @ ps" "\<forall>p\<in>set ps. plain_elem p" by (auto simp: clean_list_def)
  then have "ps = []" using last by (cases ps rule: rev_cases) (auto simp: plain_elem_def)
  then have "es @ [''..''] = replicate (Suc n) ''..'' @ []" using ps by (simp add: replicate_append_same)
  then show ?thesis unfolding clean_list_def by (metis empty_iff empty_set)
qed

lemma clean_elems_clean:
  "\<forall>e\<in>set es. CHR ''/'' \<notin> set e \<Longrightarrow> clean_list root (rev out) \<Longrightarrow> clean_list root (clean_elems root out es)"
proof (induction root out es rule: clean_elems.induct)
  case (2 root out e es)
  have tl: "clean_list root (rev (tl out))" if "out \<noteq> []" "hd out \<noteq> ''..''"
    using that "2.prems"(2) clean_list_butlast by (cases out) auto
  have plain: "clean_list root (rev (e # out))" if "e \<noteq> []" "e \<noteq> ''.''" "e \<noteq> ''..''"
    using that "2.prems" clean_list_snoc_plain by (simp add: plain_elem_def)
  have dots: "clean_list root (rev (''..'' # out))" if "\<not> (out \<noteq> [] \<and> hd out \<noteq> ''..'')" "\<not> root"
    using that "2.prems"(2) clean_list_dots [of "rev out"] by (auto simp: last_rev)
  from 2 tl plain dots show ?case by auto
qed simp

lemma clean_elems_plain:
  "\<forall>p\<in>set ps. plain_elem p \<Longrightarrow> clean_elems root out (ps @ es) = clean_elems root (rev ps @ out) es"
  by (induction ps arbitrary: out) (auto simp: plain_elem_def)

lemma clean_elems_dots:
  "\<forall>o'\<in>set out. o' = ''..'' \<Longrightarrow>
   clean_elems False out (replicate n ''..'' @ es) = clean_elems False (replicate n ''..'' @ out) es"
proof (induction n arbitrary: out)
  case (Suc n)
  have "hd out = ''..'' \<or> out = []" using Suc.prems by (cases out) auto
  then have "clean_elems False out (''..'' # replicate n ''..'' @ es) =
      clean_elems False (''..'' # out) (replicate n ''..'' @ es)" by auto
  also have "\<dots> = clean_elems False (replicate n ''..'' @ ''..'' # out) es"
    using Suc by (intro Suc.IH) auto
  finally show ?case by (simp add: replicate_app_Cons_same)
qed simp

lemma clean_elems_id:
  assumes "clean_list root es"
  shows "clean_elems root [] (es @ rest) = clean_elems root (rev es) rest"
proof -
  obtain n ps where ps: "es = replicate n ''..'' @ ps" "\<forall>p\<in>set ps. plain_elem p" "root \<longrightarrow> n = 0"
    using assms by (auto simp: clean_list_def)
  then show ?thesis
    using clean_elems_dots [of "[]" n "ps @ rest"] clean_elems_plain [of ps] by (cases root) auto
qed

lemma clean_elems_snoc:
  "plain_elem x \<Longrightarrow> clean_elems root out (es @ [x]) = clean_elems root out es @ [x]"
  by (cases root; induction es arbitrary: out) (simp_all add: plain_elem_def)

text \<open>The elements of a path.\<close>

definition path_elems :: "string \<Rightarrow> string list" where
  "path_elems p = clean_elems (rooted p) [] (split_slash p)"

lemma path_elems_clean: "clean_list (rooted p) (path_elems p)"
  unfolding path_elems_def by (rule clean_elems_clean) (auto dest: split_slash_no_slash)

definition path_of :: "bool \<Rightarrow> string list \<Rightarrow> string" where
  "path_of root es = (if root then CHR ''/'' # join_slash es else if es = [] then ''.'' else join_slash es)"

lemma Clean_path_of: "filepath_Clean p = path_of (rooted p) (path_elems p)"
  by (simp add: filepath_Clean_def path_of_def path_elems_def Let_def)

lemma clean_list_no_slash: "clean_list root es \<Longrightarrow> e \<in> set es \<Longrightarrow> CHR ''/'' \<notin> set e \<and> e \<noteq> []"
proof -
  assume "clean_list root es" and "e \<in> set es"
  then obtain n ps where "\<forall>p\<in>set ps. plain_elem p" "e \<in> set (replicate n ''..'') \<or> e \<in> set ps"
    by (auto simp: clean_list_def)
  then have "e = ''..'' \<or> plain_elem e" by (metis in_set_replicate)
  then show ?thesis by (auto simp: plain_elem_def)
qed

lemma rooted_join: "clean_list root es \<Longrightarrow> \<not> rooted (join_slash es)"
proof (cases es)
  case (Cons e es')
  assume "clean_list root es"
  then have "CHR ''/'' \<notin> set e" "e \<noteq> []" using Cons clean_list_no_slash by auto
  then show ?thesis using Cons by (cases e; cases es') (auto simp: rooted_def)
qed (simp add: rooted_def)

lemma path_of_elems:
  assumes "clean_list root es"
  shows "rooted (path_of root es) = root" and "path_elems (path_of root es) = es"
proof -
  show r: "rooted (path_of root es) = root"
    using rooted_join [OF assms] by (auto simp: path_of_def) (auto simp: rooted_def)
  have split: "es \<noteq> [] \<Longrightarrow> split_slash (join_slash es) = es"
    using clean_list_no_slash [OF assms] by (intro split_join) auto
  show "path_elems (path_of root es) = es"
    using clean_elems_id [OF assms, of "[]"] split r by (auto simp: path_elems_def path_of_def)
qed

lemma Clean_idem [simp]: "filepath_Clean (filepath_Clean p) = filepath_Clean p"
  using path_of_elems [OF path_elems_clean [of p]] by (simp add: Clean_path_of)

section \<open>A name in a directory\<close>

lemma split_slash_join:
  "split_slash (d @ CHR ''/'' # x) = split_slash d @ split_slash x"
proof (induction d)
  case (Cons c d)
  then show ?case by (cases "split_slash d") auto
qed simp

lemma elems_Join:
  assumes "d \<noteq> []" and "plain_elem x"
  shows "rooted (d @ CHR ''/'' # x) = rooted d" and "path_elems (d @ CHR ''/'' # x) = path_elems d @ [x]"
proof -
  have "split_slash x = [x]" using assms(2) by (simp add: plain_elem_def split_slash_plain)
  then show "rooted (d @ CHR ''/'' # x) = rooted d" "path_elems (d @ CHR ''/'' # x) = path_elems d @ [x]"
    using assms by (simp_all add: rooted_def path_elems_def split_slash_join clean_elems_snoc)
qed

lemma Join_path_of:
  assumes "d \<noteq> []" and "plain_elem x"
  shows "filepath_Join d x = path_of (rooted d) (path_elems d @ [x])"
  using assms elems_Join [OF assms] by (auto simp: filepath_Join_def plain_elem_def Clean_path_of)

lemma Clean_Join: "d \<noteq> [] \<Longrightarrow> plain_elem x \<Longrightarrow> filepath_Clean (filepath_Join d x) = filepath_Join d x"
  by (simp add: filepath_Join_def)

lemma Join_inject:
  assumes "d \<noteq> []" and "plain_elem x" and "plain_elem y"
  shows "filepath_Join d x = filepath_Join d y \<longleftrightarrow> x = y"
proof
  assume eq: "filepath_Join d x = filepath_Join d y"
  have clean: "clean_list (rooted d) (path_elems d @ [x])" "clean_list (rooted d) (path_elems d @ [y])"
    using path_elems_clean assms by (auto intro: clean_list_snoc_plain)
  from eq have "path_elems (path_of (rooted d) (path_elems d @ [x])) = path_elems (path_of (rooted d) (path_elems d @ [y]))"
    using assms by (simp add: Join_path_of)
  then show "x = y" using path_of_elems(2) [OF clean(1)] path_of_elems(2) [OF clean(2)] by simp
qed simp

lemma join_slash_snoc: "es \<noteq> [] \<Longrightarrow> join_slash (es @ [x]) = join_slash es @ CHR ''/'' # x"
  by (induction es rule: join_slash.induct) auto

lemma path_of_snoc:
  "path_of root (es @ [x]) = (if es = [] then (if root then ''/'' else []) else path_of root es @ ''/'') @ x"
  by (auto simp: path_of_def join_slash_snoc)

lemma dropWhile_name: "CHR ''/'' \<notin> set x \<Longrightarrow> dropWhile (\<lambda>c. c \<noteq> CHR ''/'') (rev (p @ ''/'' @ x)) = CHR ''/'' # rev p"
  by (induction x rule: rev_induct) auto

lemma elems_trailing:
  "p \<noteq> [] \<Longrightarrow> rooted (p @ ''/'') = rooted p \<and> path_elems (p @ ''/'') = path_elems p"
proof -
  have "clean_elems root out (es @ [[]]) = clean_elems root out es" for root out es
    by (induction root out es rule: clean_elems.induct) auto
  then show "p \<noteq> [] \<Longrightarrow> ?thesis"
    using split_slash_join [of p "[]"] by (simp add: path_elems_def rooted_def)
qed

lemma Dir_Join:
  assumes "d \<noteq> []" and "plain_elem x"
  shows "filepath_Dir (filepath_Join d x) = filepath_Clean d"
proof -
  let ?es = "path_elems d" and ?r = "rooted d"
  have x: "CHR ''/'' \<notin> set x" using assms(2) by (simp add: plain_elem_def)
  have j: "filepath_Join d x = (if ?es = [] then (if ?r then ''/'' else []) else path_of ?r ?es @ ''/'') @ x"
    using Join_path_of [OF assms] by (simp add: path_of_snoc)
  show ?thesis
  proof (cases "?es = []")
    case True
    then have "rev (dropWhile (\<lambda>c. c \<noteq> CHR ''/'') (rev (filepath_Join d x))) = (if ?r then ''/'' else [])"
      using x j dropWhile_name [OF x, of "[]"] by (auto simp: dropWhile_eq_Nil_conv)
    then show ?thesis using True
      by (auto simp: filepath_Dir_def Clean_path_of) (auto simp: path_of_def path_elems_def rooted_def)
  next
    case False
    then have "rev (dropWhile (\<lambda>c. c \<noteq> CHR ''/'') (rev (filepath_Join d x))) = path_of ?r ?es @ ''/''"
      using j dropWhile_name [OF x, of "path_of ?r ?es"] by simp
    moreover have "path_of ?r ?es \<noteq> []"
      using False rooted_join path_elems_clean path_of_elems(2) [OF path_elems_clean [of d]]
      by (auto simp: path_elems_def rooted_def)
    ultimately show ?thesis
      using elems_trailing path_of_elems [OF path_elems_clean [of d]]
      by (simp add: filepath_Dir_def Clean_path_of)
  qed
qed

lemma Base_Join:
  assumes "d \<noteq> []" and "plain_elem x"
  shows "filepath_Base (filepath_Join d x) = x"
proof -
  let ?es = "path_elems d" and ?r = "rooted d"
  have x: "CHR ''/'' \<notin> set x" "x \<noteq> []" using assms(2) by (simp_all add: plain_elem_def)
  then have l: "last x \<noteq> CHR ''/''" by (metis last_in_set)
  obtain p where p: "filepath_Join d x = p @ x" "p = [] \<or> last p = CHR ''/''"
    using Join_path_of [OF assms] by (auto simp: path_of_snoc)
  have "dropWhile (\<lambda>c. c = CHR ''/'') (rev (p @ x)) = rev (p @ x)"
    using x l by (cases x rule: rev_cases) auto
  moreover have "takeWhile (\<lambda>c. c \<noteq> CHR ''/'') (rev (p @ x)) = rev x"
    using x p(2) by (cases p rule: rev_cases) (auto simp: takeWhile_append)
  ultimately show ?thesis using x p(1) by (simp add: filepath_Base_def)
qed

end
