(* ===== verification/Keyed_Store.thy ===== *)
theory Keyed_Store
  imports Main
begin

text \<open>
  The interface of a store of records under keys: a record that was put is found under its key,
  as it is stored, and the records under other keys are not touched. Lifted to sequences: when no
  key is used twice, every record is still there at the end, and so is what was there before
  under other keys.
\<close>

locale keyed_store =
  fixes put :: "'v \<Rightarrow> 'w \<Rightarrow> 'w"
    and get :: "'k \<Rightarrow> 'w \<Rightarrow> 'v option"
    and key :: "'v \<Rightarrow> 'k"
    and stored :: "'v \<Rightarrow> 'v"
    and ready :: "'w \<Rightarrow> bool"
    and ok :: "'v \<Rightarrow> bool"
    and key_ok :: "'k \<Rightarrow> bool"
  assumes ready_put: "ready w \<Longrightarrow> ok v \<Longrightarrow> ready (put v w)"
    and get_put: "ready w \<Longrightarrow> ok v \<Longrightarrow> get (key v) (put v w) = Some (stored v)"
    and get_other: "ready w \<Longrightarrow> ok v \<Longrightarrow> key_ok k \<Longrightarrow> k \<noteq> key v \<Longrightarrow> get k (put v w) = get k w"
    and ok_key: "ok v \<Longrightarrow> key_ok (key v)"
begin

lemma get_untouched:
  "ready w \<Longrightarrow> \<forall>v\<in>set vs. ok v \<Longrightarrow> key_ok k \<Longrightarrow> k \<notin> key ` set vs \<Longrightarrow> get k (fold put vs w) = get k w"
  by (induction vs arbitrary: w) (simp_all add: ready_put get_other)

lemma ready_fold: "ready w \<Longrightarrow> \<forall>v\<in>set vs. ok v \<Longrightarrow> ready (fold put vs w)"
  by (induction vs arbitrary: w) (simp_all add: ready_put)

lemma all_found:
  "ready w \<Longrightarrow> \<forall>v\<in>set vs. ok v \<Longrightarrow> distinct (map key vs) \<Longrightarrow> v \<in> set vs \<Longrightarrow>
   get (key v) (fold put vs w) = Some (stored v)"
proof (induction vs arbitrary: w)
  case (Cons u vs)
  show ?case
  proof (cases "v = u")
    case True
    then have "get (key v) (fold put vs (put u w)) = get (key v) (put u w)"
      using Cons.prems by (intro get_untouched) (auto simp: ready_put ok_key)
    then show ?thesis using Cons.prems True by (simp add: get_put)
  next
    case False
    then show ?thesis using Cons by (simp add: ready_put)
  qed
qed simp

end

end
