(* ===== verification/Snapshot.thy ===== *)
theory Snapshot
  imports Go_Path Sha256_Hex Keyed_Store
begin

text \<open>
  Policy snapshots (\<^verbatim>\<open>internal/policy/snapshot.go\<close>): JSON files in a directory, each with a hash
  over its own contents, the newest found by the order of the file names.
\<close>

section \<open>Snapshots\<close>

record snapshot =
  SnapshotID :: string
  CreatedAt :: gotime
  SActorID :: string
  BuildID :: string
  GitCommit :: string
  PrevSnapshotID :: string
  Roles :: "gomap option"
  Capabilities :: "gomap option"
  PosturePolicy :: "gomap option"
  SHash :: string

definition zero_snapshot :: snapshot where
  "zero_snapshot = \<lparr>SnapshotID = [], CreatedAt = zero_time, SActorID = [], BuildID = [], GitCommit = [],
     PrevSnapshotID = [], Roles = None, Capabilities = None, PosturePolicy = None, SHash = []\<rparr>"

definition marshal_map :: "gomap option \<Rightarrow> string" where
  "marshal_map m = print_tree False 0 (tree_of_map m)"

definition snapshot_text :: "snapshot \<Rightarrow> string" where
  "snapshot_text snap =
     SnapshotID snap @ newline # format_RFC3339 (to_utc (CreatedAt snap)) @ newline # SActorID snap @
     newline # BuildID snap @ newline # GitCommit snap @ newline # PrevSnapshotID snap @
     marshal_map (Roles snap) @ marshal_map (Capabilities snap) @ marshal_map (PosturePolicy snap)"

definition computeSnapshotHash :: "snapshot \<Rightarrow> string" where
  "computeSnapshotHash snap = sha256_hex (snapshot_text snap)"

definition ComputeSnapshotHash :: "snapshot \<Rightarrow> string" where
  "ComputeSnapshotHash snap = computeSnapshotHash snap"

definition snapshot_members :: "snapshot \<Rightarrow> jtree \<Rightarrow> (string \<times> jtree) list" where
  "snapshot_members snap ts =
     [(''snapshot_id'', TStr (json_quote (SnapshotID snap))), (''created_at'', ts),
      (''actor_id'', TStr (json_quote (SActorID snap))), (''build_id'', TStr (json_quote (BuildID snap))),
      (''git_commit'', TStr (json_quote (GitCommit snap))),
      (''prev_snapshot_id'', TStr (json_quote (PrevSnapshotID snap))),
      (''roles'', tree_of_map (Roles snap)), (''capabilities'', tree_of_map (Capabilities snap)),
      (''posture_policy'', tree_of_map (PosturePolicy snap)), (''hash'', TStr (json_quote (SHash snap)))]"

definition marshal_snapshot :: "snapshot \<Rightarrow> string option" where
  "marshal_snapshot snap =
     map_option (\<lambda>ts. print_tree True 0 (TObj (snapshot_members snap ts))) (marshal_time (CreatedAt snap))"

definition set_snapshot_field :: "string \<Rightarrow> jtree \<Rightarrow> snapshot \<Rightarrow> snapshot option" where
  "set_snapshot_field key t x =
     (if field_is ''snapshot_id'' key then map_option (\<lambda>v. x\<lparr>SnapshotID := v\<rparr>) (decode_string t (SnapshotID x))
      else if field_is ''created_at'' key then map_option (\<lambda>v. x\<lparr>CreatedAt := v\<rparr>) (decode_time t (CreatedAt x))
      else if field_is ''actor_id'' key then map_option (\<lambda>v. x\<lparr>SActorID := v\<rparr>) (decode_string t (SActorID x))
      else if field_is ''build_id'' key then map_option (\<lambda>v. x\<lparr>BuildID := v\<rparr>) (decode_string t (BuildID x))
      else if field_is ''git_commit'' key then map_option (\<lambda>v. x\<lparr>GitCommit := v\<rparr>) (decode_string t (GitCommit x))
      else if field_is ''prev_snapshot_id'' key
        then map_option (\<lambda>v. x\<lparr>PrevSnapshotID := v\<rparr>) (decode_string t (PrevSnapshotID x))
      else if field_is ''roles'' key then map_option (\<lambda>v. x\<lparr>Roles := v\<rparr>) (decode_map t (Roles x))
      else if field_is ''capabilities'' key then map_option (\<lambda>v. x\<lparr>Capabilities := v\<rparr>) (decode_map t (Capabilities x))
      else if field_is ''posture_policy'' key
        then map_option (\<lambda>v. x\<lparr>PosturePolicy := v\<rparr>) (decode_map t (PosturePolicy x))
      else if field_is ''hash'' key then map_option (\<lambda>v. x\<lparr>SHash := v\<rparr>) (decode_string t (SHash x))
      else Some x)"

definition unmarshal_snapshot :: "string \<Rightarrow> snapshot option" where
  "unmarshal_snapshot data =
     (case json_Unmarshal data of None \<Rightarrow> None
      | Some t \<Rightarrow> decode_struct set_snapshot_field zero_snapshot t)"

section \<open>The store\<close>

record snapshotStore =
  sdir :: string

definition NewSnapshotStore :: "string \<Rightarrow> os \<Rightarrow> (go_error + snapshotStore) \<times> os" where
  "NewSnapshotStore dir s =
     (case os_MkdirAll dir s of
        (Some err, s1) \<Rightarrow> (Inl (WrapError ''policy snapshots dir: '' err []), s1)
      | (None, s1) \<Rightarrow> (Inr \<lparr>sdir = dir\<rparr>, s1))"

definition snapshot_file :: "snapshotStore \<Rightarrow> string \<Rightarrow> string" where
  "snapshot_file st snapshotID = filepath_Join (sdir st) (snapshotID @ ''.json'')"

text \<open>\<^verbatim>\<open>Write\<close> sets the hash in the caller's snapshot, which is returned.\<close>

definition Write :: "snapshotStore \<Rightarrow> snapshot \<Rightarrow> os \<Rightarrow> go_error option \<times> snapshot \<times> os" where
  "Write st snap s =
     (let snap1 = snap\<lparr>SHash := computeSnapshotHash snap\<rparr> in
      case marshal_snapshot snap1 of
        None \<Rightarrow> (Some (WrapError ''marshal snapshot: '' JsonError []), snap1, s)
      | Some data \<Rightarrow>
          (case os_WriteFile (snapshot_file st (SnapshotID snap1)) data s of
             (Some err, s1) \<Rightarrow> (Some (WrapError ''write snapshot: '' err []), snap1, s1)
           | (None, s1) \<Rightarrow> (None, snap1, s1)))"

definition Get :: "snapshotStore \<Rightarrow> string \<Rightarrow> os \<Rightarrow> (go_error + snapshot) \<times> os" where
  "Get st snapshotID s =
     (case os_ReadFile (snapshot_file st snapshotID) s of
        (Inl err, s1) \<Rightarrow>
          if errors_Is_NotExist err
          then (Inl (ErrorString (''snapshot '' @ fmt_q snapshotID @ '' not found'')), s1)
          else (Inl err, s1)
      | (Inr data, s1) \<Rightarrow>
          (case unmarshal_snapshot data of
             None \<Rightarrow> (Inl (WrapError ''parse snapshot: '' JsonError []), s1)
           | Some snap \<Rightarrow> (Inr snap, s1)))"

text \<open>The result \<^verbatim>\<open>nil, nil\<close> of \<^verbatim>\<open>Latest\<close> is \<^term>\<open>Inr None\<close>.\<close>

definition Latest :: "snapshotStore \<Rightarrow> os \<Rightarrow> (go_error + snapshot option) \<times> os" where
  "Latest st s =
     (case os_ReadDir (sdir st) s of
        (Inl err, s1) \<Rightarrow> (Inl err, s1)
      | (Inr entries, s1) \<Rightarrow>
          (let names = map fst (filter (\<lambda>(name, isDir). \<not> isDir \<and> filepath_Ext name = ''.json'') entries) in
           if names = [] then (Inr None, s1)
           else
             let latest = last (sort names) in
             case Get st (take (length latest - 5) latest) s1 of
               (Inl err, s2) \<Rightarrow> (Inl err, s2)
             | (Inr snap, s2) \<Rightarrow> (Inr (Some snap), s2)))"

definition NewSnapshotID :: "os \<Rightarrow> string \<times> os" where
  "NewSnapshotID s = (case time_Now s of (now, s1) \<Rightarrow> (''snap-'' @ format_stamp now, s1))"

section \<open>Reading back what was written\<close>

lemma snapshot_names:
  "fold_name ''snapshot_id'' = ''SNAPSHOT_ID''" "fold_name ''created_at'' = ''CREATED_AT''"
  "fold_name ''actor_id'' = ''ACTOR_ID''" "fold_name ''build_id'' = ''BUILD_ID''"
  "fold_name ''git_commit'' = ''GIT_COMMIT''" "fold_name ''prev_snapshot_id'' = ''PREV_SNAPSHOT_ID''"
  "fold_name ''roles'' = ''ROLES''" "fold_name ''capabilities'' = ''CAPABILITIES''"
  "fold_name ''posture_policy'' = ''POSTURE_POLICY''" "fold_name ''hash'' = ''HASH''"
  by code_simp+

lemma snapshot_raw:
  "unquote ''snapshot_id'' = ''snapshot_id''" "unquote ''created_at'' = ''created_at''"
  "unquote ''actor_id'' = ''actor_id''" "unquote ''build_id'' = ''build_id''"
  "unquote ''git_commit'' = ''git_commit''" "unquote ''prev_snapshot_id'' = ''prev_snapshot_id''"
  "unquote ''roles'' = ''roles''" "unquote ''capabilities'' = ''capabilities''"
  "unquote ''posture_policy'' = ''posture_policy''" "unquote ''hash'' = ''hash''"
  by (rule unquote_plain, simp)+

lemma snapshot_raw_ok:
  "raw_ok ''snapshot_id''" "raw_ok ''created_at''" "raw_ok ''actor_id''" "raw_ok ''build_id''"
  "raw_ok ''git_commit''" "raw_ok ''prev_snapshot_id''" "raw_ok ''roles''" "raw_ok ''capabilities''"
  "raw_ok ''posture_policy''" "raw_ok ''hash''"
  by (rule raw_ok_plain, simp)+

lemma set_snapshot_simps:
  "set_snapshot_field ''snapshot_id'' t x = map_option (\<lambda>v. x\<lparr>SnapshotID := v\<rparr>) (decode_string t (SnapshotID x))"
  "set_snapshot_field ''created_at'' t x = map_option (\<lambda>v. x\<lparr>CreatedAt := v\<rparr>) (decode_time t (CreatedAt x))"
  "set_snapshot_field ''actor_id'' t x = map_option (\<lambda>v. x\<lparr>SActorID := v\<rparr>) (decode_string t (SActorID x))"
  "set_snapshot_field ''build_id'' t x = map_option (\<lambda>v. x\<lparr>BuildID := v\<rparr>) (decode_string t (BuildID x))"
  "set_snapshot_field ''git_commit'' t x = map_option (\<lambda>v. x\<lparr>GitCommit := v\<rparr>) (decode_string t (GitCommit x))"
  "set_snapshot_field ''prev_snapshot_id'' t x = map_option (\<lambda>v. x\<lparr>PrevSnapshotID := v\<rparr>) (decode_string t (PrevSnapshotID x))"
  "set_snapshot_field ''roles'' t x = map_option (\<lambda>v. x\<lparr>Roles := v\<rparr>) (decode_map t (Roles x))"
  "set_snapshot_field ''capabilities'' t x = map_option (\<lambda>v. x\<lparr>Capabilities := v\<rparr>) (decode_map t (Capabilities x))"
  "set_snapshot_field ''posture_policy'' t x = map_option (\<lambda>v. x\<lparr>PosturePolicy := v\<rparr>) (decode_map t (PosturePolicy x))"
  "set_snapshot_field ''hash'' t x = map_option (\<lambda>v. x\<lparr>SHash := v\<rparr>) (decode_string t (SHash x))"
  by (simp_all add: set_snapshot_field_def field_is_def snapshot_names)

text \<open>A snapshot that its file determines.\<close>

definition map_ok :: "gomap option \<Rightarrow> bool" where
  "map_ok m \<longleftrightarrow> norm_map m \<and> json_depth (tree_of_map m) < max_nesting_depth"

definition snapshot_ok :: "snapshot \<Rightarrow> bool" where
  "snapshot_ok x \<longleftrightarrow> valid_time (CreatedAt x) \<and> valid_utf8 (SnapshotID x) \<and> valid_utf8 (SActorID x) \<and>
     valid_utf8 (BuildID x) \<and> valid_utf8 (GitCommit x) \<and> valid_utf8 (PrevSnapshotID x) \<and>
     map_ok (Roles x) \<and> map_ok (Capabilities x) \<and> map_ok (PosturePolicy x)"

lemma wf_tree_of_map: "norm_map m \<Longrightarrow> wf_tree (tree_of_map m)"
  using wf_tree_of_any [of "AMap (the m)"]
  by (auto simp: tree_of_map_def norm_map_def simp del: tree_of_any.simps norm_any.simps split: option.splits)

lemma unmarshal_marshal_snapshot [codec]:
  assumes "snapshot_ok x" and "valid_utf8 (SHash x)" and "marshal_snapshot x = Some data"
  shows "unmarshal_snapshot data = Some x"
proof -
  let ?t = "TObj (snapshot_members x (TStr (format_RFC3339Nano (CreatedAt x))))"
  have data: "data = print_tree True 0 ?t"
    using assms by (simp add: marshal_snapshot_def marshal_time_valid snapshot_ok_def)
  have wf: "wf_tree ?t"
    using assms(1) by (simp add: snapshot_members_def snapshot_raw_ok raw_ok_time wf_tree_of_map
        snapshot_ok_def map_ok_def)
  have depth: "json_depth ?t \<le> max_nesting_depth"
    using assms(1) json_depth_obj_le [of "snapshot_members x (TStr (format_RFC3339Nano (CreatedAt x)))" "max_nesting_depth - 1"]
    by (auto simp: snapshot_members_def snapshot_ok_def map_ok_def max_nesting_depth_def simp del: json_depth.simps(2))
  have "json_Unmarshal data = Some ?t" unfolding data by (rule json_Unmarshal_print [OF wf depth])
  then show ?thesis
    using assms
    by (simp add: unmarshal_snapshot_def decode_struct_def snapshot_members_def snapshot_raw set_snapshot_simps
        zero_snapshot_def decode_map_tree snapshot_ok_def map_ok_def)
qed

section \<open>The store as a keyed store\<close>

definition id_ok :: "string \<Rightarrow> bool" where
  "id_ok k \<longleftrightarrow> CHR ''/'' \<notin> set k"

lemma id_ok_plain: "id_ok k \<Longrightarrow> plain_elem (k @ ''.json'')"
  by (auto simp: id_ok_def plain_elem_def append_eq_Cons_conv)

definition store_ready :: "snapshotStore \<Rightarrow> os \<Rightarrow> bool" where
  "store_ready st s \<longleftrightarrow> quiet s \<and> sdir st \<noteq> [] \<and> dir_exists s (sdir st) \<and>
     (\<forall>k. id_ok k \<longrightarrow> \<not> dir_exists s (snapshot_file st k))"

lemma store_ready_set_file [simp]: "store_ready st (set_file p d s) = store_ready st s"
  by (simp add: store_ready_def)

definition hashed :: "snapshot \<Rightarrow> snapshot" where
  "hashed x = x\<lparr>SHash := computeSnapshotHash x\<rparr>"

lemma computeSnapshotHash_update [simp]: "computeSnapshotHash (x\<lparr>SHash := h\<rparr>) = computeSnapshotHash x"
  by (simp add: computeSnapshotHash_def snapshot_text_def)

lemma dir_exists_snapshot_dir:
  assumes "store_ready st s" and "id_ok k"
  shows "dir_exists s (filepath_Dir (snapshot_file st k))"
proof -
  have "filepath_Dir (snapshot_file st k) = filepath_Clean (sdir st)"
    using assms by (simp add: snapshot_file_def Dir_Join id_ok_plain store_ready_def)
  then show ?thesis using assms(1) by (simp add: dir_exists_def store_ready_def)
qed

lemma Write_stored:
  assumes "store_ready st s" and "valid_time (CreatedAt x)" and "id_ok (SnapshotID x)"
  shows "\<exists>d. marshal_snapshot (hashed x) = Some d \<and>
    Write st x s = (None, hashed x, set_file (snapshot_file st (SnapshotID x)) d s)"
proof -
  obtain d where d: "marshal_snapshot (hashed x) = Some d"
    using assms(2) by (simp add: marshal_snapshot_def hashed_def marshal_time_valid)
  have "os_WriteFile (snapshot_file st (SnapshotID x)) d s = (None, set_file (snapshot_file st (SnapshotID x)) d s)"
    using assms dir_exists_snapshot_dir [OF assms(1,3)]
    by (simp add: os_WriteFile_def os_OpenTrunc_def open_file_def file_Write_def file_Close_def Let_def
        store_ready_def quiet_def)
  with d show ?thesis by (simp add: Write_def Let_def hashed_def)
qed

lemma Write_eq:
  assumes "store_ready st s" and "snapshot_ok x" and "id_ok (SnapshotID x)"
  shows "\<exists>d. marshal_snapshot (hashed x) = Some d \<and>
    Write st x s = (None, hashed x, set_file (snapshot_file st (SnapshotID x)) d s)"
  using assms by (intro Write_stored) (simp_all add: snapshot_ok_def)

lemma unmarshal_hashed:
  "snapshot_ok x \<Longrightarrow> marshal_snapshot (hashed x) = Some d \<Longrightarrow> unmarshal_snapshot d = Some (hashed x)"
  by (rule unmarshal_marshal_snapshot)
    (auto simp: hashed_def snapshot_ok_def computeSnapshotHash_def valid_utf8_sha256_hex)

lemma Get_eq:
  assumes "store_ready st s" and "id_ok k"
  shows "Get st k s =
    ((case file_at s (snapshot_file st k) of
        None \<Rightarrow> Inl (ErrorString (''snapshot '' @ fmt_q k @ '' not found''))
      | Some d \<Rightarrow> (case unmarshal_snapshot d of None \<Rightarrow> Inl (WrapError ''parse snapshot: '' JsonError [])
                  | Some x \<Rightarrow> Inr x)), s)"
  using assms not_below_file [OF dir_exists_snapshot_dir [OF assms]]
  by (simp add: Get_def os_ReadFile_def store_ready_def quiet_def split: option.splits)

lemma snapshot_file_inject:
  "store_ready st s \<Longrightarrow> id_ok k \<Longrightarrow> id_ok j \<Longrightarrow>
   filepath_Clean (snapshot_file st k) = filepath_Clean (snapshot_file st j) \<longleftrightarrow> k = j"
  by (auto simp: snapshot_file_def store_ready_def Clean_Join Join_inject id_ok_plain)

definition snap_put :: "snapshotStore \<Rightarrow> snapshot \<Rightarrow> os \<Rightarrow> os" where
  "snap_put st x s = snd (snd (Write st x s))"

definition snap_get :: "snapshotStore \<Rightarrow> string \<Rightarrow> os \<Rightarrow> snapshot option" where
  "snap_get st k s = (case fst (Get st k s) of Inl _ \<Rightarrow> None | Inr x \<Rightarrow> Some x)"

interpretation snapshots: keyed_store "snap_put st" "snap_get st" SnapshotID hashed "store_ready st"
  "\<lambda>x. snapshot_ok x \<and> id_ok (SnapshotID x)" id_ok for st
proof
  fix w v k
  assume w: "store_ready st w" and v: "snapshot_ok v \<and> id_ok (SnapshotID v)"
  then obtain d where d: "marshal_snapshot (hashed v) = Some d"
      "snap_put st v w = set_file (snapshot_file st (SnapshotID v)) d w"
    using Write_eq [of st w v] by (auto simp: snap_put_def)
  show "store_ready st (snap_put st v w)" using w by (simp add: d)
  show "snap_get st (SnapshotID v) (snap_put st v w) = Some (hashed v)"
    using w v unmarshal_hashed [OF _ d(1)] by (simp add: snap_get_def d Get_eq)
  show "snap_get st k (snap_put st v w) = snap_get st k w" if "id_ok k" "k \<noteq> SnapshotID v"
    using that w v snapshot_file_inject [of st w k "SnapshotID v"] by (simp add: snap_get_def d Get_eq)
qed simp

section \<open>Properties\<close>

text \<open>
  C12. A snapshot that was written is read back as it is, with its hash, the hash passes the check
  that a rollback makes, and all snapshots under other identifiers read as before.
\<close>

theorem snapshot_write_get:
  assumes "store_ready st s" and "snapshot_ok x" and "id_ok (SnapshotID x)"
  shows "\<exists>y s'. Write st x s = (None, y, s') \<and> Get st (SnapshotID x) s' = (Inr y, s') \<and>
    y = x\<lparr>SHash := ComputeSnapshotHash y\<rparr> \<and>
    (\<forall>k. id_ok k \<and> k \<noteq> SnapshotID x \<longrightarrow> fst (Get st k s') = fst (Get st k s))"
proof -
  obtain d where d: "marshal_snapshot (hashed x) = Some d"
      "Write st x s = (None, hashed x, set_file (snapshot_file st (SnapshotID x)) d s)"
    using Write_eq [OF assms] by blast
  let ?s = "set_file (snapshot_file st (SnapshotID x)) d s"
  have "Get st (SnapshotID x) ?s = (Inr (hashed x), ?s)"
    using assms unmarshal_hashed [OF assms(2) d(1)] by (simp add: Get_eq)
  moreover have "fst (Get st k ?s) = fst (Get st k s)" if "id_ok k" "k \<noteq> SnapshotID x" for k
    using that assms snapshot_file_inject [of st s k "SnapshotID x"] by (simp add: Get_eq)
  moreover have "hashed x = x\<lparr>SHash := ComputeSnapshotHash (hashed x)\<rparr>"
    by (simp add: hashed_def ComputeSnapshotHash_def)
  ultimately show ?thesis using d(2) by blast
qed

definition demo_store :: snapshotStore where
  "demo_store = \<lparr>sdir = ''var/snapshots''\<rparr>"

definition demo_store_os :: os where
  "demo_store_os = fresh_os\<lparr>dirs := [''var'', ''var/snapshots'']\<rparr>"

definition demo_snapshot :: snapshot where
  "demo_snapshot = zero_snapshot\<lparr>SnapshotID := ''snap-20260101T000000Z'', CreatedAt := epoch, SActorID := ''eo'',
     Roles := Some [(''auditor'', ASlice [AStr ''cap.audit.read''])]\<rparr>"

lemma demo_store_ready: "store_ready demo_store demo_store_os"
proof -
  have "filepath_Clean (snapshot_file demo_store k) \<notin> set (''.'' # ''/'' # [''var'', ''var/snapshots''])" if "id_ok k" for k
  proof
    assume a: "filepath_Clean (snapshot_file demo_store k) \<in> set (''.'' # ''/'' # [''var'', ''var/snapshots''])"
    have "filepath_Base (filepath_Clean (snapshot_file demo_store k)) = k @ ''.json''"
      using that by (simp add: snapshot_file_def demo_store_def Clean_Join Base_Join id_ok_plain)
    moreover have "last (filepath_Base ''.'') \<noteq> CHR ''n''" "last (filepath_Base ''/'') \<noteq> CHR ''n''"
      "last (filepath_Base ''var'') \<noteq> CHR ''n''" "last (filepath_Base ''var/snapshots'') \<noteq> CHR ''n''"
      by code_simp+
    ultimately show False using a by auto
  qed
  moreover have "dir_exists demo_store_os (sdir demo_store)" by code_simp
  ultimately show ?thesis
    by (auto simp: store_ready_def dir_exists_def demo_store_os_def demo_store_def quiet_def valid_epoch)
      (auto simp: fresh_os_def valid_epoch)
qed

lemma demo_snapshot_ok: "snapshot_ok demo_snapshot" "id_ok (SnapshotID demo_snapshot)"
proof -
  have "epoch = epoch\<lparr>second := 0\<rparr>" by (simp add: epoch_def)
  then have "valid_time epoch" using valid_epoch [of 0] by simp
  then show "snapshot_ok demo_snapshot"
    by (simp add: snapshot_ok_def demo_snapshot_def zero_snapshot_def map_ok_def norm_map_def tree_of_map_def
        max_nesting_depth_def valid_utf8_ascii)
  show "id_ok (SnapshotID demo_snapshot)" by code_simp
qed

text \<open>A snapshot with a number in it, the float nearest to one tenth.\<close>

definition quota_snapshot :: snapshot where
  "quota_snapshot = demo_snapshot\<lparr>Capabilities := Some [(''quota'', AFloat (Float64 False 7205759403792794 1018))]\<rparr>"

lemma quota_snapshot_ok: "snapshot_ok quota_snapshot" "id_ok (SnapshotID quota_snapshot)"
  using demo_snapshot_ok
  by (simp_all add: quota_snapshot_def snapshot_ok_def map_ok_def norm_map_def tree_of_map_def max_nesting_depth_def valid_utf8_ascii)

theorem snapshot_write_get_witness:
  "\<exists>y s'. Write demo_store quota_snapshot demo_store_os = (None, y, s') \<and>
    Get demo_store (SnapshotID quota_snapshot) s' = (Inr y, s') \<and>
    y = quota_snapshot\<lparr>SHash := ComputeSnapshotHash y\<rparr> \<and>
    (\<forall>k. id_ok k \<and> k \<noteq> SnapshotID quota_snapshot \<longrightarrow>
       fst (Get demo_store k s') = fst (Get demo_store k demo_store_os))"
  by (rule snapshot_write_get [OF demo_store_ready quota_snapshot_ok])

text \<open>
  No snapshot is lost as long as no identifier is used twice: after any sequence of writes
  every one of them, and every one from before, is found under its identifier.
\<close>

theorem snapshots_kept:
  assumes "store_ready st s" and "\<forall>x\<in>set xs. snapshot_ok x \<and> id_ok (SnapshotID x)"
    and "distinct (map SnapshotID xs)"
  shows "(\<forall>x\<in>set xs. snap_get st (SnapshotID x) (fold (snap_put st) xs s) = Some (hashed x)) \<and>
    (\<forall>k. id_ok k \<and> k \<notin> SnapshotID ` set xs \<longrightarrow> snap_get st k (fold (snap_put st) xs s) = snap_get st k s)"
  using snapshots.all_found [OF assms] snapshots.get_untouched [OF assms(1,2)] by blast

theorem snapshots_kept_witness:
  "snap_get demo_store ''snap-20260101T000000Z'' (fold (snap_put demo_store)
     [demo_snapshot, demo_snapshot\<lparr>SnapshotID := ''snap-20260101T000001Z''\<rparr>] demo_store_os) = Some (hashed demo_snapshot)"
proof -
  let ?y = "demo_snapshot\<lparr>SnapshotID := ''snap-20260101T000001Z''\<rparr>"
  have ok: "snapshot_ok ?y \<and> id_ok (SnapshotID ?y)"
    using demo_snapshot_ok(1) by (simp add: snapshot_ok_def id_ok_def valid_utf8_ascii)
  have id: "SnapshotID demo_snapshot = ''snap-20260101T000000Z''" by (simp add: demo_snapshot_def)
  show ?thesis
    using snapshots_kept [OF demo_store_ready, of "[demo_snapshot, ?y]"] ok demo_snapshot_ok id by auto
qed

text \<open>
  Identifiers have the resolution of a second: two snapshots made at clock readings that
  differ only in their nanoseconds get the same identifier, and the second replaces the first.
\<close>

theorem same_second_overwrites:
  assumes "store_ready st s" and "snapshot_ok x" and "snapshot_ok y"
    and "t' = t\<lparr>nsec := n\<rparr>" and "SnapshotID x = ''snap-'' @ format_stamp t" and "SnapshotID y = ''snap-'' @ format_stamp t'"
    and "id_ok (SnapshotID x)"
  shows "SnapshotID x = SnapshotID y \<and>
    snap_get st (SnapshotID x) (snap_put st y (snap_put st x s)) = Some (hashed y)"
proof -
  have eq: "SnapshotID x = SnapshotID y" using assms(4-6) by (simp add: format_stamp_def)
  then show ?thesis
    using snapshots.get_put [of st "snap_put st x s" y] snapshots.ready_put [OF assms(1), of x] assms by simp
qed

lemma demo_id: "SnapshotID demo_snapshot = ''snap-'' @ format_stamp epoch"
  by code_simp

theorem same_second_overwrites_witness:
  "SnapshotID demo_snapshot = SnapshotID (demo_snapshot\<lparr>SActorID := ''other''\<rparr>) \<and>
   snap_get demo_store (SnapshotID demo_snapshot)
     (snap_put demo_store (demo_snapshot\<lparr>SActorID := ''other''\<rparr>) (snap_put demo_store demo_snapshot demo_store_os)) =
   Some (hashed (demo_snapshot\<lparr>SActorID := ''other''\<rparr>))"
proof (rule same_second_overwrites [where t = epoch and n = 5])
  show "snapshot_ok (demo_snapshot\<lparr>SActorID := ''other''\<rparr>)"
    using demo_snapshot_ok(1) by (simp add: snapshot_ok_def valid_utf8_ascii)
  show "SnapshotID (demo_snapshot\<lparr>SActorID := ''other''\<rparr>) = ''snap-'' @ format_stamp (epoch\<lparr>nsec := 5\<rparr>)"
    using demo_id by (simp add: format_stamp_def)
qed (use demo_snapshot_ok demo_id in \<open>simp_all add: demo_store_ready\<close>)

section \<open>The newest snapshot\<close>

lemma append_less_iff:
  "length a = length b \<Longrightarrow> a @ x < b @ y \<longleftrightarrow> a < b \<or> a = b \<and> x < y" for a b :: string
  by (induction a b rule: list_induct2) (auto simp: less_list_code)

lemma digit_char_less: "m < 10 \<Longrightarrow> n < 10 \<Longrightarrow> digit_char m < digit_char n \<longleftrightarrow> m < n"
  by (simp add: less_char_def byte_digit_char)

lemma digit_order:
  "m div 10 < n div 10 \<or> m div 10 = n div 10 \<and> m mod 10 < n mod 10 \<longleftrightarrow> m < n"
  "m div 10 = n div 10 \<and> m mod 10 = n mod 10 \<longleftrightarrow> m = n" for m n :: nat
proof -
  have "q < q' \<or> q = q' \<and> r < r' \<longleftrightarrow> q * 10 + r < q' * 10 + r'" if "r < 10" "r' < 10" for q r q' r' :: nat
    using that by arith
  from this [of "m mod 10" "n mod 10" "m div 10" "n div 10"]
  show "m div 10 < n div 10 \<or> m div 10 = n div 10 \<and> m mod 10 < n mod 10 \<longleftrightarrow> m < n"
    by (simp only: div_mult_mod_eq mod_less_divisor zero_less_numeral simp_thms)
  show "m div 10 = n div 10 \<and> m mod 10 = n mod 10 \<longleftrightarrow> m = n" by (metis div_mult_mod_eq)
qed

lemma digits_fixed_less:
  "m < 10 ^ k \<Longrightarrow> n < 10 ^ k \<Longrightarrow> digits_fixed k m < digits_fixed k n \<longleftrightarrow> m < n"
  and digits_fixed_eq:
  "m < 10 ^ k \<Longrightarrow> n < 10 ^ k \<Longrightarrow> digits_fixed k m = digits_fixed k n \<longleftrightarrow> m = n"
proof (induction k arbitrary: m n)
  case (Suc k)
  {
    case 1
    then have b: "m div 10 < 10 ^ k" "n div 10 < 10 ^ k" by auto
    have "digits_fixed (Suc k) m < digits_fixed (Suc k) n \<longleftrightarrow>
        m div 10 < n div 10 \<or> m div 10 = n div 10 \<and> m mod 10 < n mod 10"
      using Suc.IH(1) [OF b] Suc.IH(2) [OF b] by (simp add: append_less_iff digit_char_less less_list_code)
    also have "\<dots> \<longleftrightarrow> m < n" by (rule digit_order)
    finally show ?case .
  next
    case 2
    then have b: "m div 10 < 10 ^ k" "n div 10 < 10 ^ k" by auto
    have d: "digit_char (m mod 10) = digit_char (n mod 10) \<longleftrightarrow> m mod 10 = n mod 10"
      by (metis digit_val_digit_char mod_less_divisor zero_less_numeral)
    have "digits_fixed (Suc k) m = digits_fixed (Suc k) n \<longleftrightarrow> m div 10 = n div 10 \<and> m mod 10 = n mod 10"
      using Suc.IH(2) [OF b] d by simp
    also have "\<dots> \<longleftrightarrow> m = n" by (rule digit_order)
    finally show ?case .
  }
qed simp_all

text \<open>The order of clock readings, to the second.\<close>

definition before :: "gotime \<Rightarrow> gotime \<Rightarrow> bool" where
  "before t u \<longleftrightarrow>
     [year t, month t, day t, hour t, minute t, second t] < [year u, month u, day u, hour u, minute u, second u]"

lemma format_stamp_before:
  assumes "valid_time t" and "valid_time u"
  shows "format_stamp t < format_stamp u \<longleftrightarrow> before t u"
proof -
  have "days_in m y < 100" for m y by (simp add: days_in_def)
  then have "day t < 100" "day u < 100" using assms by (meson valid_time_def le_less_trans)+
  then show ?thesis
    using assms
    by (simp add: format_stamp_def fmt_year_def before_def valid_time_def append_less_iff less_list_code
        digits_fixed_less digits_fixed_eq del: digits_fixed.simps)
qed

lemma id_ok_stamp: "valid_time t \<Longrightarrow> id_ok (''snap-'' @ format_stamp t)"
  using digits_fixed_digits [of "CHR ''/''"]
  by (auto simp: id_ok_def format_stamp_def fmt_year_def valid_time_def is_digit_def simp del: digits_fixed.simps)

lemma last_sort_max:
  fixes x :: "'a :: linorder"
  assumes "x \<in> set xs" and "\<forall>y\<in>set xs. y \<le> x"
  shows "last (sort xs) = x"
proof (rule antisym)
  have ne: "sort xs \<noteq> []" using assms(1) by (metis empty_iff empty_set set_sort)
  then show "last (sort xs) \<le> x" using assms(2) by (metis last_in_set set_sort)
  obtain i where "i < length (sort xs)" "x = sort xs ! i" using assms(1) by (metis in_set_conv_nth set_sort)
  then show "x \<le> last (sort xs)" using ne
    by (simp add: last_conv_nth sorted_nth_mono [OF sorted_sort])
qed

lemma Ext_json: "CHR ''/'' \<notin> set k \<Longrightarrow> filepath_Ext (k @ ''.json'') = ''.json''"
proof -
  assume "CHR ''/'' \<notin> set k"
  then have "takeWhile (\<lambda>c. c \<noteq> CHR ''/'') (rev (k @ ''.json'')) = rev (k @ ''.json'')"
    by (subst takeWhile_eq_all_conv) auto
  then show ?thesis by (simp add: filepath_Ext_def Let_def)
qed

text \<open>The names of the snapshot files in the store's directory, as \<^verbatim>\<open>Latest\<close> collects them.\<close>

definition snapshot_names_in :: "snapshotStore \<Rightarrow> os \<Rightarrow> string list" where
  "snapshot_names_in st s =
     map fst (filter (\<lambda>(name, isDir). \<not> isDir \<and> filepath_Ext name = ''.json'') (entries_of s (sdir st)))"

lemma snapshot_names_set:
  "n \<in> set (snapshot_names_in st s) \<longleftrightarrow>
     filepath_Ext n = ''.json'' \<and> (\<exists>q \<in> fst ` set (files s).
       n = filepath_Base q \<and> filepath_Dir q = filepath_Clean (sdir st) \<and> q \<noteq> filepath_Clean (sdir st))"
proof -
  have "(n, False) \<in> set (entries_of s (sdir st)) \<longleftrightarrow> (\<exists>q \<in> fst ` set (files s).
      n = filepath_Base q \<and> filepath_Dir q = filepath_Clean (sdir st) \<and> q \<noteq> filepath_Clean (sdir st))"
    unfolding entries_of_def Let_def set_sort set_append by auto
  moreover have "n \<in> set (snapshot_names_in st s) \<longleftrightarrow>
      (n, False) \<in> set (entries_of s (sdir st)) \<and> filepath_Ext n = ''.json''"
    unfolding snapshot_names_in_def set_map set_filter by (auto intro: rev_image_eqI)
  ultimately show ?thesis by blast
qed

lemma names_after_write:
  assumes "store_ready st s" and "id_ok k"
  shows "set (snapshot_names_in st (set_file (snapshot_file st k) d s)) =
    insert (k @ ''.json'') (set (snapshot_names_in st s))"
proof -
  let ?p = "filepath_Join (sdir st) (k @ ''.json'')"
  have d: "sdir st \<noteq> []" and pl: "plain_elem (k @ ''.json'')"
    using assms by (auto simp: store_ready_def id_ok_plain)
  have keys: "fst ` set (files (set_file (snapshot_file st k) d s)) = insert ?p (fst ` set (files s))"
    by (simp add: set_file_def snapshot_file_def Clean_Join d pl dom_update)
  have "\<not> dir_exists s ?p" "dir_exists s (sdir st)" using assms by (auto simp: store_ready_def snapshot_file_def)
  then have "?p \<noteq> filepath_Clean (sdir st)" by (metis dir_exists_def Clean_Join d pl)
  moreover have "filepath_Ext (k @ ''.json'') = ''.json''" using assms(2) by (simp add: Ext_json id_ok_def)
  ultimately have "n \<in> set (snapshot_names_in st (set_file (snapshot_file st k) d s)) \<longleftrightarrow>
      n \<in> insert (k @ ''.json'') (set (snapshot_names_in st s))" for n
    unfolding insert_iff snapshot_names_set keys using d pl by (auto simp: Base_Join Dir_Join)
  then show ?thesis by blast
qed

lemma Latest_eq:
  assumes "store_ready st s" and "k @ ''.json'' \<in> set (snapshot_names_in st s)"
    and "\<forall>n\<in>set (snapshot_names_in st s). n \<le> k @ ''.json''"
  shows "Latest st s = (case Get st k s of (Inl err, s2) \<Rightarrow> (Inl err, s2) | (Inr snap, s2) \<Rightarrow> (Inr (Some snap), s2))"
proof -
  have l: "last (sort (snapshot_names_in st s)) = k @ ''.json''" using assms(2,3) by (rule last_sort_max)
  have "os_ReadDir (sdir st) s = (Inr (entries_of s (sdir st)), s)"
    using assms(1) by (simp add: os_ReadDir_def store_ready_def quiet_def)
  moreover have "snapshot_names_in st s \<noteq> []" using assms(2) by auto
  ultimately show ?thesis
    using l by (simp add: Latest_def snapshot_names_in_def [symmetric] Let_def)
qed

text \<open>
  C28. \<^verbatim>\<open>Latest\<close> finds the newest snapshot: when a snapshot is written under the identifier that
  \<^verbatim>\<open>NewSnapshotID\<close> makes now, and every snapshot file of the directory carries an identifier that
  \<^verbatim>\<open>NewSnapshotID\<close> made at an earlier second, it is the one that \<^verbatim>\<open>Latest\<close> returns, because the order of the
  names is the order of time.
\<close>

theorem latest_is_newest:
  assumes "store_ready st s" and "snapshot_ok x" and "NewSnapshotID s = (SnapshotID x, s1)"
    and "\<forall>n\<in>set (snapshot_names_in st s). \<exists>w. n = fst (NewSnapshotID w) @ ''.json'' \<and>
      valid_time (fst (time_Now w)) \<and> before (fst (time_Now w)) (fst (time_Now s))"
  shows "\<exists>s2. Write st x s1 = (None, hashed x, s2) \<and> Latest st s2 = (Inr (Some (hashed x)), s2)"
proof -
  let ?now = "fst (time_Now s)" and ?k = "SnapshotID x"
  have k: "?k = ''snap-'' @ format_stamp ?now" and s1: "s1 = snd (time_Now s)"
    using assms(3) by (auto simp: NewSnapshotID_def split: prod.splits)
  have now: "valid_time ?now" using assms(1) by (simp add: store_ready_def quiet_def time_Now_def)
  have id: "id_ok ?k" unfolding k using now by (rule id_ok_stamp)
  have ready: "store_ready st s1" and names: "snapshot_names_in st s1 = snapshot_names_in st s"
    using assms(1) by (simp_all add: s1 time_Now_def store_ready_def snapshot_names_in_def entries_of_def)
  obtain d where d: "marshal_snapshot (hashed x) = Some d" "Write st x s1 = (None, hashed x, set_file (snapshot_file st ?k) d s1)"
    using Write_eq [OF ready assms(2) id] by blast
  have "n \<le> ?k @ ''.json''" if n: "n \<in> set (snapshot_names_in st s)" for n
  proof -
    obtain w where w: "n = fst (NewSnapshotID w) @ ''.json''" "valid_time (fst (time_Now w))" "before (fst (time_Now w)) ?now"
      using bspec [OF assms(4) n] by blast
    have n': "n = ''snap-'' @ format_stamp (fst (time_Now w)) @ ''.json''"
      using w(1) by (simp add: NewSnapshotID_def split: prod.splits)
    have len: "length (format_stamp (fst (time_Now w))) = length (format_stamp ?now)"
      using w(2) now by (simp add: format_stamp_def fmt_year_def valid_time_def del: digits_fixed.simps)
    have "format_stamp (fst (time_Now w)) < format_stamp ?now" using w(2,3) now by (simp add: format_stamp_before)
    then have "''snap-'' @ format_stamp (fst (time_Now w)) @ ''.json'' < ''snap-'' @ format_stamp ?now @ ''.json''"
      unfolding append_less_iff [OF refl] append_less_iff [OF len] by blast
    then show ?thesis unfolding n' k by simp
  qed
  then have "Latest st (set_file (snapshot_file st ?k) d s1) = (case Get st ?k (set_file (snapshot_file st ?k) d s1) of
      (Inl err, s2) \<Rightarrow> (Inl err, s2) | (Inr snap, s2) \<Rightarrow> (Inr (Some snap), s2))"
    using ready names_after_write [OF ready id, of d] names by (intro Latest_eq) auto
  then show ?thesis
    using ready id d unmarshal_hashed [OF assms(2) d(1)] by (simp add: Get_eq)
qed

text \<open>A store that holds a snapshot of the second before.\<close>

definition second_os :: os where
  "second_os = set_file (snapshot_file demo_store (SnapshotID demo_snapshot)) ''{}'' (demo_store_os\<lparr>ticks := 1\<rparr>)"

theorem latest_is_newest_witness:
  "snapshot_names_in demo_store second_os = [''snap-20260101T000000Z.json''] \<and>
   (\<exists>x s2. x = demo_snapshot\<lparr>SnapshotID := ''snap-20260101T000001Z''\<rparr> \<and>
     Write demo_store x (snd (NewSnapshotID second_os)) = (None, hashed x, s2) \<and>
     Latest demo_store s2 = (Inr (Some (hashed x)), s2))"
proof -
  let ?x = "demo_snapshot\<lparr>SnapshotID := ''snap-20260101T000001Z''\<rparr>"
  have ready: "store_ready demo_store second_os" using demo_store_ready by (simp add: second_os_def store_ready_def)
  have ok: "snapshot_ok ?x" using demo_snapshot_ok(1) by (simp add: snapshot_ok_def valid_utf8_ascii)
  have new: "NewSnapshotID second_os = (SnapshotID ?x, snd (NewSnapshotID second_os))"
  proof -
    have "fst (NewSnapshotID second_os) = ''snap-20260101T000001Z''" by code_simp
    then show ?thesis by (cases "NewSnapshotID second_os") simp
  qed
  have names: "snapshot_names_in demo_store second_os = [''snap-20260101T000000Z.json'']" by code_simp
  have first: "fst (NewSnapshotID demo_store_os) @ ''.json'' = ''snap-20260101T000000Z.json''"
    "before (fst (time_Now demo_store_os)) (fst (time_Now second_os))" by code_simp+
  have "valid_time (fst (time_Now demo_store_os))" using demo_store_ready by (simp add: store_ready_def quiet_def time_Now_def)
  with first have older: "\<forall>n\<in>set (snapshot_names_in demo_store second_os). \<exists>w. n = fst (NewSnapshotID w) @ ''.json'' \<and>
      valid_time (fst (time_Now w)) \<and> before (fst (time_Now w)) (fst (time_Now second_os))"
    unfolding names by (intro ballI exI [of _ demo_store_os]) (simp only: set_simps singleton_iff simp_thms)
  show ?thesis using names latest_is_newest [OF ready ok new older] by blast
qed

end
