(* ===== verification/Fsacl.thy ===== *)
theory Fsacl
  imports Go_Path
begin

text \<open>
  Filesystem ACLs: \<^verbatim>\<open>internal/fsacl/fsacl.go\<close>, the denylist and the \<^verbatim>\<open>setfacl\<close> commands, and
  \<^verbatim>\<open>internal/fsaclmod/fsaclmod.go\<close>, which reaches them through the compiled mod. The program
  \<^verbatim>\<open>setfacl\<close> is a parameter of the model: given the commands attempted so far and a new one, the
  error and output it ends with, or success.
\<close>

section \<open>Running commands\<close>

type_synonym runner = "string list list \<Rightarrow> string list \<Rightarrow> (go_error \<times> string) option"

text \<open>\<^verbatim>\<open>exec.Command(argv...).CombinedOutput()\<close>; the attempt is recorded.\<close>

definition exec_command :: "runner \<Rightarrow> string list \<Rightarrow> os \<Rightarrow> (go_error \<times> string) option \<times> os" where
  "exec_command run argv s = (run (execs s) argv, s\<lparr>execs := execs s @ [argv]\<rparr>)"

section \<open>The denylist\<close>

text \<open>
  The regular expressions the denylist uses: a sequence of literal characters and of stars over
  a negated character, anchored at the end of the text. \<^verbatim>\<open>MatchString\<close> searches anywhere.
\<close>

datatype regex_item = Lit char | StarNot char

fun match_here :: "regex_item list \<Rightarrow> string \<Rightarrow> bool" where
  "match_here [] s \<longleftrightarrow> s = []"
| "match_here (Lit c # r) [] \<longleftrightarrow> False"
| "match_here (Lit c # r) (x # s) \<longleftrightarrow> c = x \<and> match_here r s"
| "match_here (StarNot c # r) [] \<longleftrightarrow> match_here r []"
| "match_here (StarNot c # r) (x # s) \<longleftrightarrow>
     match_here r (x # s) \<or> (x \<noteq> c \<and> match_here (StarNot c # r) s)"

fun MatchString :: "regex_item list \<Rightarrow> string \<Rightarrow> bool" where
  "MatchString r [] \<longleftrightarrow> match_here r []"
| "MatchString r (x # s) \<longleftrightarrow> match_here r (x # s) \<or> MatchString r s"

text \<open>Each pattern with its source text, which \<^verbatim>\<open>pat.String()\<close> returns.\<close>

definition denylist :: "(string \<times> regex_item list) list" where
  "denylist =
     [(''-secrets'' @ [backslash] @ ''.env$'', map Lit ''-secrets.env''),
      (''/'' @ [backslash] @ ''.ssh/id_[^/]*$'', map Lit ''/.ssh/id_'' @ [StarNot CHR ''/'']),
      (''/agent-secrets'' @ [backslash] @ ''.env$'', map Lit ''/agent-secrets.env'')]"

fun check_patterns :: "(string \<times> regex_item list) list \<Rightarrow> string \<Rightarrow> go_error option" where
  "check_patterns [] p = None"
| "check_patterns ((txt, r) # pats) p =
     (if MatchString r p then Some (ErrDenylisted p txt) else check_patterns pats p)"

definition checkDenylist :: "string \<Rightarrow> go_error option" where
  "checkDenylist p = check_patterns denylist p"

section \<open>Grant and revoke\<close>

definition Grant :: "runner \<Rightarrow> string \<Rightarrow> string \<Rightarrow> os \<Rightarrow> go_error option \<times> os" where
  "Grant run identity p s =
     (case checkDenylist p of
        Some err \<Rightarrow> (Some err, s)
      | None \<Rightarrow>
          (let spec = ''u:'' @ identity @ '':rwx'' in
           case exec_command run [''setfacl'', ''-R'', ''-m'', spec, p] s of
             (Some (err, out), s1) \<Rightarrow>
               (Some (WrapError ''fsacl grant (existing files): '' err ('': '' @ out)), s1)
           | (None, s1) \<Rightarrow>
               (case exec_command run [''setfacl'', ''-R'', ''-d'', ''-m'', spec, p] s1 of
                  (Some (err, out), s2) \<Rightarrow>
                    (Some (WrapError ''fsacl grant (default ACL): '' err ('': '' @ out)), s2)
                | (None, s2) \<Rightarrow> (None, s2))))"

definition Revoke :: "runner \<Rightarrow> string \<Rightarrow> string \<Rightarrow> os \<Rightarrow> go_error option \<times> os" where
  "Revoke run identity p s =
     (case checkDenylist p of
        Some err \<Rightarrow> (Some err, s)
      | None \<Rightarrow>
          (case exec_command run [''setfacl'', ''-R'', ''-x'', ''u:'' @ identity, p] s of
             (Some (err, out), s1) \<Rightarrow>
               (Some (WrapError ''fsacl revoke (existing files): '' err ('': '' @ out)), s1)
           | (None, s1) \<Rightarrow>
               (case exec_command run [''setfacl'', ''-R'', ''-d'', ''-x'', ''u:'' @ identity, p] s1 of
                  (Some (err, out), s2) \<Rightarrow>
                    (Some (WrapError ''fsacl revoke (default ACL): '' err ('': '' @ out)), s2)
                | (None, s2) \<Rightarrow> (None, s2))))"

section \<open>The mod\<close>

text \<open>\<^verbatim>\<open>C.GoString(C.CString(s))\<close>: a C string ends at its first NUL byte.\<close>

definition c_string :: "string \<Rightarrow> string" where
  "c_string s = takeWhile (\<lambda>c. c \<noteq> CHR 0x00) s"

definition emilyos_fsacl_grant :: "runner \<Rightarrow> string \<Rightarrow> string \<Rightarrow> os \<Rightarrow> int \<times> os" where
  "emilyos_fsacl_grant run identity p s =
     (case Grant run (c_string identity) (c_string p) s of (err, s1) \<Rightarrow> (if err \<noteq> None then 1 else 0, s1))"

definition emilyos_fsacl_revoke :: "runner \<Rightarrow> string \<Rightarrow> string \<Rightarrow> os \<Rightarrow> int \<times> os" where
  "emilyos_fsacl_revoke run identity p s =
     (case Revoke run (c_string identity) (c_string p) s of (err, s1) \<Rightarrow> (if err \<noteq> None then 1 else 0, s1))"

definition grant_fs :: "runner \<Rightarrow> string \<Rightarrow> string \<Rightarrow> os \<Rightarrow> int \<times> os" where
  "grant_fs run identity p s = emilyos_fsacl_grant run identity p s"

definition revoke_fs :: "runner \<Rightarrow> string \<Rightarrow> string \<Rightarrow> os \<Rightarrow> int \<times> os" where
  "revoke_fs run identity p s = emilyos_fsacl_revoke run identity p s"

definition TriggerGrant :: "runner \<Rightarrow> string \<Rightarrow> string \<Rightarrow> os \<Rightarrow> go_error option \<times> os" where
  "TriggerGrant run identity p s =
     (case grant_fs run identity p s of (status, s1) \<Rightarrow>
      if status \<noteq> 0 then Grant run identity p s1 else (None, s1))"

definition TriggerRevoke :: "runner \<Rightarrow> string \<Rightarrow> string \<Rightarrow> os \<Rightarrow> go_error option \<times> os" where
  "TriggerRevoke run identity p s =
     (case revoke_fs run identity p s of (status, s1) \<Rightarrow>
      if status \<noteq> 0 then Revoke run identity p s1 else (None, s1))"

section \<open>What the patterns match\<close>

lemma match_here_lits: "match_here (map Lit t @ r) s \<longleftrightarrow> (\<exists>u. s = t @ u \<and> match_here r u)"
proof (induction t arbitrary: s)
  case (Cons c t)
  then show ?case by (cases s) auto
qed simp

lemma match_here_star: "match_here [StarNot c] s \<longleftrightarrow> c \<notin> set s"
  by (induction s) auto

lemma MatchString_iff: "MatchString r s \<longleftrightarrow> (\<exists>pre u. s = pre @ u \<and> match_here r u)"
proof (induction s)
  case (Cons x s)
  have "(\<exists>pre u. x # s = pre @ u \<and> match_here r u) \<longleftrightarrow>
      match_here r (x # s) \<or> (\<exists>pre u. s = pre @ u \<and> match_here r u)"
    by (metis (no_types, lifting) append_Cons append_Nil append_eq_Cons_conv)
  with Cons show ?case by simp
qed simp

definition denied_path :: "string \<Rightarrow> bool" where
  "denied_path p \<longleftrightarrow> (\<exists>pre. p = pre @ ''-secrets.env'') \<or>
     (\<exists>pre key. p = pre @ ''/.ssh/id_'' @ key \<and> CHR ''/'' \<notin> set key)"

lemma match_secrets: "MatchString (map Lit t) p \<longleftrightarrow> (\<exists>pre. p = pre @ t)"
  using match_here_lits [of t "[]"] by (auto simp: MatchString_iff)

lemma match_keys:
  "MatchString (map Lit t @ [StarNot c]) p \<longleftrightarrow> (\<exists>pre key. p = pre @ t @ key \<and> c \<notin> set key)"
  by (auto simp: MatchString_iff match_here_lits match_here_star)

lemma agent_secrets: "p = pre @ ''/agent-secrets.env'' \<Longrightarrow> \<exists>pre. p = pre @ ''-secrets.env''"
  by (intro exI [of _ "pre @ ''/agent''"]) simp

lemma checkDenylist_denied: "(\<exists>txt. checkDenylist p = Some (ErrDenylisted p txt)) \<longleftrightarrow> denied_path p"
  using agent_secrets [of p]
  unfolding checkDenylist_def denylist_def check_patterns.simps match_secrets match_keys denied_path_def
  by auto

lemma checkDenylist_cases: "checkDenylist p = None \<or> (\<exists>txt. checkDenylist p = Some (ErrDenylisted p txt))"
  unfolding checkDenylist_def denylist_def check_patterns.simps by auto

lemma checkDenylist_None: "checkDenylist p = None \<longleftrightarrow> \<not> denied_path p"
  using checkDenylist_cases [of p] checkDenylist_denied [of p] by auto

section \<open>The contract of an ACL operation\<close>

text \<open>
  What \<open>Grant\<close> and \<open>Revoke\<close> promise alike: a denied path is refused before anything runs; success
  means that all commands ran; a failure comes from the last of the commands that ran.
\<close>

locale acl_operation =
  fixes acl :: "runner \<Rightarrow> string \<Rightarrow> string \<Rightarrow> os \<Rightarrow> go_error option \<times> os"
    and cmds :: "string \<Rightarrow> string \<Rightarrow> string list list"
  assumes refused: "denied_path p \<Longrightarrow> \<exists>txt. acl run i p s = (Some (ErrDenylisted p txt), s)"
    and succeeded: "acl run i p s = (None, s') \<Longrightarrow> \<not> denied_path p \<and> s' = s\<lparr>execs := execs s @ cmds i p\<rparr>"
    and failed: "acl run i p s = (Some e, s') \<Longrightarrow> \<not> denied_path p \<Longrightarrow>
      \<exists>n. 0 < n \<and> n \<le> length (cmds i p) \<and> s' = s\<lparr>execs := execs s @ take n (cmds i p)\<rparr>"
begin

lemma runs_only_own: "acl run i p s = (r, s') \<Longrightarrow> \<exists>cs. s' = s\<lparr>execs := execs s @ cs\<rparr> \<and> set cs \<subseteq> set (cmds i p)"
proof (cases r)
  case None
  assume "acl run i p s = (r, s')"
  with None succeeded [of run i p s s'] show ?thesis by auto
next
  case (Some e)
  assume a: "acl run i p s = (r, s')"
  show ?thesis
  proof (cases "denied_path p")
    case True
    with refused [of p run i s] a have "s' = s\<lparr>execs := execs s @ []\<rparr>" by auto
    then show ?thesis by (intro exI [of _ "[]"]) simp
  next
    case False
    with failed [of run i p s e s'] a Some show ?thesis by (auto dest: in_set_takeD)
  qed
qed

end

text \<open>The round trip through the mod, which repeats the operation when the first attempt failed.\<close>

locale mod_operation = acl_operation +
  fixes trigger :: "runner \<Rightarrow> string \<Rightarrow> string \<Rightarrow> os \<Rightarrow> go_error option \<times> os"
  assumes trigger_eq: "trigger run i p s =
    (case acl run (c_string i) (c_string p) s of (err, s1) \<Rightarrow> if err \<noteq> None then acl run i p s1 else (None, s1))"
begin

lemma c_string_id: "CHR 0x00 \<notin> set x \<Longrightarrow> c_string x = x"
  unfolding c_string_def by (subst takeWhile_eq_all_conv) auto

lemma trigger_refused:
  assumes "CHR 0x00 \<notin> set i" "CHR 0x00 \<notin> set p" "denied_path p"
  shows "\<exists>txt. trigger run i p s = (Some (ErrDenylisted p txt), s)"
  using refused [OF assms(3), of run i s] c_string_id [OF assms(1)] c_string_id [OF assms(2)]
  by (auto simp: trigger_eq)

lemma trigger_runs:
  assumes "CHR 0x00 \<notin> set i" "CHR 0x00 \<notin> set p" "trigger run i p s = (r, s')"
  shows "\<exists>cs. s' = s\<lparr>execs := execs s @ cs\<rparr> \<and> set cs \<subseteq> set (cmds i p) \<and>
    (r = None \<longrightarrow> \<not> denied_path p \<and> (\<exists>earlier. cs = earlier @ cmds i p))"
proof -
  obtain err s1 where 1: "acl run i p s = (err, s1)" by fastforce
  have t: "trigger run i p s = (if err \<noteq> None then acl run i p s1 else (None, s1))"
    using 1 c_string_id [OF assms(1)] c_string_id [OF assms(2)] by (simp add: trigger_eq)
  obtain cs where cs: "s1 = s\<lparr>execs := execs s @ cs\<rparr>" "set cs \<subseteq> set (cmds i p)"
    using runs_only_own [OF 1] by blast
  show ?thesis
  proof (cases err)
    case None
    then have "\<not> denied_path p" "s1 = s\<lparr>execs := execs s @ cmds i p\<rparr>"
      using succeeded [of run i p s s1] 1 by auto
    moreover have "r = None" "s' = s1" using t None assms(3) by auto
    ultimately show ?thesis by (intro exI [of _ "cmds i p"]) auto
  next
    case (Some e)
    then have 2: "acl run i p s1 = (r, s')" using t assms(3) by simp
    then obtain ds where ds: "s' = s1\<lparr>execs := execs s1 @ ds\<rparr>" "set ds \<subseteq> set (cmds i p)"
      using runs_only_own by blast
    have "r = None \<longrightarrow> \<not> denied_path p \<and> s' = s1\<lparr>execs := execs s1 @ cmds i p\<rparr>"
      using succeeded [of run i p s1 s'] 2 by auto
    then show ?thesis
    proof (cases r)
      case None
      with \<open>r = None \<longrightarrow> _\<close> cs show ?thesis by (intro exI [of _ "cs @ cmds i p"]) auto
    next
      case Some
      with cs ds show ?thesis by (intro exI [of _ "cs @ ds"]) auto
    qed
  qed
qed

end

definition grant_commands :: "string \<Rightarrow> string \<Rightarrow> string list list" where
  "grant_commands i p =
     [[''setfacl'', ''-R'', ''-m'', ''u:'' @ i @ '':rwx'', p], [''setfacl'', ''-R'', ''-d'', ''-m'', ''u:'' @ i @ '':rwx'', p]]"

definition revoke_commands :: "string \<Rightarrow> string \<Rightarrow> string list list" where
  "revoke_commands i p =
     [[''setfacl'', ''-R'', ''-x'', ''u:'' @ i, p], [''setfacl'', ''-R'', ''-d'', ''-x'', ''u:'' @ i, p]]"

lemma take_failed:
  "\<exists>n>0. n \<le> length [a, b] \<and> s\<lparr>execs := execs s @ [a]\<rparr> = s\<lparr>execs := execs s @ take n [a, b]\<rparr>"
  "\<exists>n>0. n \<le> length [a, b] \<and> s\<lparr>execs := execs s @ [a, b]\<rparr> = s\<lparr>execs := execs s @ take n [a, b]\<rparr>"
  by (rule exI [of _ 1], simp) (rule exI [of _ 2], simp)

interpretation grant: mod_operation Grant grant_commands TriggerGrant
proof
  show "denied_path p \<Longrightarrow> \<exists>txt. Grant run i p s = (Some (ErrDenylisted p txt), s)" for p run i s
    using checkDenylist_denied [of p] by (auto simp: Grant_def)
  show "Grant run i p s = (None, s') \<Longrightarrow> \<not> denied_path p \<and> s' = s\<lparr>execs := execs s @ grant_commands i p\<rparr>" for run i p s s'
    using checkDenylist_None [of p]
    by (auto simp: Grant_def exec_command_def grant_commands_def Let_def split: option.splits)
  show "\<exists>n>0. n \<le> length (grant_commands i p) \<and> s' = s\<lparr>execs := execs s @ take n (grant_commands i p)\<rparr>"
    if "Grant run i p s = (Some e, s')" "\<not> denied_path p" for run i p s e s'
    using that checkDenylist_None [of p] take_failed unfolding grant_commands_def
    by (auto simp: Grant_def exec_command_def Let_def simp del: length_Cons take_Suc_Cons split: option.splits)
  show "TriggerGrant run i p s = (case Grant run (c_string i) (c_string p) s of (err, s1) \<Rightarrow>
      if err \<noteq> None then Grant run i p s1 else (None, s1))" for run i p s
    by (simp add: TriggerGrant_def grant_fs_def emilyos_fsacl_grant_def split: prod.splits)
qed

interpretation revoke: mod_operation Revoke revoke_commands TriggerRevoke
proof
  show "denied_path p \<Longrightarrow> \<exists>txt. Revoke run i p s = (Some (ErrDenylisted p txt), s)" for p run i s
    using checkDenylist_denied [of p] by (auto simp: Revoke_def)
  show "Revoke run i p s = (None, s') \<Longrightarrow> \<not> denied_path p \<and> s' = s\<lparr>execs := execs s @ revoke_commands i p\<rparr>" for run i p s s'
    using checkDenylist_None [of p]
    by (auto simp: Revoke_def exec_command_def revoke_commands_def split: option.splits)
  show "\<exists>n>0. n \<le> length (revoke_commands i p) \<and> s' = s\<lparr>execs := execs s @ take n (revoke_commands i p)\<rparr>"
    if "Revoke run i p s = (Some e, s')" "\<not> denied_path p" for run i p s e s'
    using that checkDenylist_None [of p] take_failed unfolding revoke_commands_def
    by (auto simp: Revoke_def exec_command_def simp del: length_Cons take_Suc_Cons split: option.splits)
  show "TriggerRevoke run i p s = (case Revoke run (c_string i) (c_string p) s of (err, s1) \<Rightarrow>
      if err \<noteq> None then Revoke run i p s1 else (None, s1))" for run i p s
    by (simp add: TriggerRevoke_def revoke_fs_def emilyos_fsacl_revoke_def split: prod.splits)
qed

section \<open>Properties\<close>

text \<open>
  C34. The denylist check refuses exactly the paths that end in \<^verbatim>\<open>-secrets.env\<close> and those whose last
  element starts with \<^verbatim>\<open>id_\<close> directly under a directory \<^verbatim>\<open>.ssh\<close>; the third pattern of the list
  adds nothing to the first.
\<close>

theorem denylist_exact:
  "(checkDenylist p = None \<longleftrightarrow> \<not> denied_path p) \<and>
   checkDenylist p = check_patterns (take 2 denylist) p"
proof -
  let ?agent = "MatchString (map Lit ''/agent-secrets.env'') p" and ?secrets = "MatchString (map Lit ''-secrets.env'') p"
  have "?agent \<longrightarrow> ?secrets" using agent_secrets [of p] unfolding match_secrets by blast
  moreover have "take 2 denylist = [hd denylist, hd (tl denylist)]" by (simp add: denylist_def)
  ultimately have "check_patterns denylist p = check_patterns (take 2 denylist) p"
    by (simp only: denylist_def list.sel check_patterns.simps if_True if_False split: if_split) blast
  then show ?thesis using checkDenylist_None [of p] by (simp add: checkDenylist_def)
qed

text \<open>
  C16. What the verbs \<^verbatim>\<open>GRANT_FS\<close> and \<^verbatim>\<open>REVOKE_FS\<close> run. Whatever \<^verbatim>\<open>setfacl\<close> answers, for an identity and
  a path without NUL bytes: a denied path is refused with \<^verbatim>\<open>ErrDenylisted\<close> and nothing runs; for
  any other path only the two commands of the verb for that identity and path are ever run; and
  if the verb reports success, both have run, in order, at the end.
\<close>

theorem fs_verbs_run_only_their_commands:
  assumes "CHR 0x00 \<notin> set i" and "CHR 0x00 \<notin> set p"
    and "(trig, cmds) \<in> {(TriggerGrant, grant_commands), (TriggerRevoke, revoke_commands)}"
  shows "case trig run i p s of (r, s') \<Rightarrow>
    if denied_path p then (\<exists>txt. r = Some (ErrDenylisted p txt)) \<and> s' = s
    else (\<exists>cs. s' = s\<lparr>execs := execs s @ cs\<rparr> \<and> set cs \<subseteq> set (cmds i p) \<and>
      (r = None \<longrightarrow> (\<exists>earlier. cs = earlier @ cmds i p)))"
proof -
  obtain r s' where t: "trig run i p s = (r, s')" by fastforce
  have refused: "\<exists>txt. trig run i p s = (Some (ErrDenylisted p txt), s)" if "denied_path p"
    using assms(3) grant.trigger_refused [OF assms(1,2) that] revoke.trigger_refused [OF assms(1,2) that] by auto
  have runs: "\<exists>cs. s' = s\<lparr>execs := execs s @ cs\<rparr> \<and> set cs \<subseteq> set (cmds i p) \<and>
      (r = None \<longrightarrow> (\<exists>earlier. cs = earlier @ cmds i p))"
    using assms(3) t grant.trigger_runs [OF assms(1,2), of run s r s'] revoke.trigger_runs [OF assms(1,2), of run s r s']
    by auto
  show ?thesis using refused runs t by auto
qed

theorem fs_verbs_run_only_their_commands_witness:
  "case TriggerGrant (\<lambda>h c. if length h < 1 then Some (ErrorString ''exit status 1'', ''busy'') else None) ''bob'' ''/srv/data'' fresh_os of (r, s') \<Rightarrow>
    if denied_path ''/srv/data'' then (\<exists>txt. r = Some (ErrDenylisted ''/srv/data'' txt)) \<and> s' = fresh_os
    else (\<exists>cs. s' = fresh_os\<lparr>execs := execs fresh_os @ cs\<rparr> \<and> set cs \<subseteq> set (grant_commands ''bob'' ''/srv/data'') \<and>
      (r = None \<longrightarrow> (\<exists>earlier. cs = earlier @ grant_commands ''bob'' ''/srv/data'')))"
  by (rule fs_verbs_run_only_their_commands [where trig = TriggerGrant and cmds = grant_commands]) simp_all

text \<open>
  The denylist does not protect what it names: it looks at the spelling of the path, and the
  grant is recursive. A private key is refused, but not under a path that means the same file,
  and not when the directory above it is granted.
\<close>

theorem denylist_is_bypassed:
  "checkDenylist ''/home/e/.ssh/id_rsa'' \<noteq> None \<and>
   filepath_Clean ''/home/e/.ssh/./id_rsa'' = ''/home/e/.ssh/id_rsa'' \<and>
   Grant (\<lambda>h c. None) ''bob'' ''/home/e/.ssh/./id_rsa'' fresh_os =
     (None, fresh_os\<lparr>execs := grant_commands ''bob'' ''/home/e/.ssh/./id_rsa''\<rparr>) \<and>
   filepath_Dir ''/home/e/.ssh/id_rsa'' = ''/home/e/.ssh'' \<and>
   Grant (\<lambda>h c. None) ''bob'' ''/home/e/.ssh'' fresh_os =
     (None, fresh_os\<lparr>execs := grant_commands ''bob'' ''/home/e/.ssh''\<rparr>)"
proof -
  have "checkDenylist ''/home/e/.ssh/./id_rsa'' = None" "checkDenylist ''/home/e/.ssh'' = None" by code_simp+
  then have "Grant (\<lambda>h c. None) ''bob'' ''/home/e/.ssh/./id_rsa'' fresh_os =
     (None, fresh_os\<lparr>execs := grant_commands ''bob'' ''/home/e/.ssh/./id_rsa''\<rparr>)"
    "Grant (\<lambda>h c. None) ''bob'' ''/home/e/.ssh'' fresh_os =
     (None, fresh_os\<lparr>execs := grant_commands ''bob'' ''/home/e/.ssh''\<rparr>)"
    by (simp_all add: Grant_def exec_command_def grant_commands_def fresh_os_def Let_def)
  moreover have "checkDenylist ''/home/e/.ssh/id_rsa'' \<noteq> None" by code_simp
  moreover have "filepath_Clean ''/home/e/.ssh/./id_rsa'' = ''/home/e/.ssh/id_rsa''" by code_simp
  moreover have "filepath_Dir ''/home/e/.ssh/id_rsa'' = ''/home/e/.ssh''" by code_simp
  ultimately show ?thesis by blast
qed

end
