(* ===== verification/Go_Flag.thy ===== *)
theory Go_Flag
  imports Go_Struct
begin

text \<open>
  The packages \<^verbatim>\<open>strconv\<close> and \<^verbatim>\<open>flag\<close> as the command line uses them: \<^verbatim>\<open>Atoi\<close>, \<^verbatim>\<open>ParseInt\<close> with base
  detection, \<^verbatim>\<open>ParseBool\<close>, and the parser of a flag set with boolean and integer flags. An
  \<^verbatim>\<open>int\<close> has 64 bits.
\<close>

section \<open>Numbers\<close>

datatype num_error = ErrSyntax | ErrRange

definition int_range :: "int \<Rightarrow> num_error + int" where
  "int_range i = (if - (2 ^ 63) \<le> i \<and> i < 2 ^ 63 then Inr i else Inl ErrRange)"

definition is_sign :: "char \<Rightarrow> bool" where
  "is_sign c \<longleftrightarrow> c = CHR ''+'' \<or> c = CHR ''-''"

definition split_sign :: "string \<Rightarrow> bool \<times> string" where
  "split_sign s = (if s \<noteq> [] \<and> is_sign (hd s) then (hd s = CHR ''-'', tl s) else (False, s))"

definition Atoi :: "string \<Rightarrow> num_error + int" where
  "Atoi s =
     (case split_sign s of (neg, ds) \<Rightarrow>
      if ds \<noteq> [] \<and> (\<forall>c\<in>set ds. is_digit c)
      then int_range (if neg then - int (undec ds) else int (undec ds))
      else Inl ErrSyntax)"

text \<open>The value of a digit or letter; 36 for any other character.\<close>

definition digit_value :: "char \<Rightarrow> nat" where
  "digit_value c =
     (if is_digit c then byte c - 48
      else if 97 \<le> byte c \<and> byte c \<le> 122 then byte c - 87
      else if 65 \<le> byte c \<and> byte c \<le> 90 then byte c - 55
      else 36)"

definition base_prefix :: "string \<Rightarrow> nat \<times> bool \<times> string" where
  "base_prefix s =
     (if 3 \<le> length s \<and> s ! 0 = CHR ''0'' \<and> to_upper (s ! 1) = CHR ''B'' then (2, True, drop 2 s)
      else if 3 \<le> length s \<and> s ! 0 = CHR ''0'' \<and> to_upper (s ! 1) = CHR ''O'' then (8, True, drop 2 s)
      else if 3 \<le> length s \<and> s ! 0 = CHR ''0'' \<and> to_upper (s ! 1) = CHR ''X'' then (16, True, drop 2 s)
      else if s \<noteq> [] \<and> s ! 0 = CHR ''0'' then (8, True, drop 1 s)
      else (10, False, s))"

text \<open>
  \<^verbatim>\<open>underscoreOK\<close>: underscores separate digits, or the base prefix from the first digit. The
  first argument is the kind of the last character: a digit (or a base prefix), an underscore,
  or neither.
\<close>

datatype sep_state = SepDigit | SepUnderscore | SepOther

fun underscores :: "sep_state \<Rightarrow> string \<Rightarrow> bool" where
  "underscores st [] \<longleftrightarrow> st \<noteq> SepUnderscore"
| "underscores st (c # s) \<longleftrightarrow>
     (if digit_value c < 36 then underscores SepDigit s
      else if c = CHR ''_'' then st = SepDigit \<and> underscores SepUnderscore s
      else st \<noteq> SepUnderscore \<and> underscores SepOther s)"

text \<open>The loop over the digits; underscores are skipped, the number must fit in 64 bits.\<close>

fun uint_digits :: "nat \<Rightarrow> int \<Rightarrow> string \<Rightarrow> num_error + int" where
  "uint_digits b n [] = Inr n"
| "uint_digits b n (c # s) =
     (if c = CHR ''_'' then uint_digits b n s
      else if b \<le> digit_value c then Inl ErrSyntax
      else let m = n * int b + int (digit_value c) in
        if 2 ^ 64 \<le> m then Inl ErrRange else uint_digits b m s)"

text \<open>\<^verbatim>\<open>ParseInt(s, 0, 64)\<close>, which \<^verbatim>\<open>flag.IntVar\<close> uses.\<close>

definition ParseInt0 :: "string \<Rightarrow> num_error + int" where
  "ParseInt0 s =
     (case split_sign s of (neg, u) \<Rightarrow>
      if u = [] then Inl ErrSyntax
      else
        case base_prefix u of (b, prefixed, ds) \<Rightarrow>
        let marked = (prefixed \<and> length u \<noteq> length ds + 1) in
        (case uint_digits b 0 ds of
          Inl e \<Rightarrow> Inl e
        | Inr n \<Rightarrow>
            if CHR ''_'' \<in> set u \<and> \<not> underscores (if marked then SepDigit else SepOther) (if marked then ds else u)
            then Inl ErrSyntax
            else int_range (if neg then - n else n)))"

definition ParseBool :: "string \<Rightarrow> bool option" where
  "ParseBool s =
     (if s \<in> set [''1'', ''t'', ''T'', ''true'', ''TRUE'', ''True''] then Some True
      else if s \<in> set [''0'', ''f'', ''F'', ''false'', ''FALSE'', ''False''] then Some False
      else None)"

section \<open>Flag sets\<close>

datatype flag_value = BoolFlag bool | IntFlag int

type_synonym flag_set = "(string \<times> flag_value) list"

datatype flag_outcome =
    FlagsParsed flag_set "string list"
  | FlagsHelp
  | FlagsError string

definition num_error_text :: "num_error \<Rightarrow> string" where
  "num_error_text e = (case e of ErrSyntax \<Rightarrow> ''parse error'' | ErrRange \<Rightarrow> ''value out of range'')"

text \<open>The name and the value, if any, of an argument such as \<^verbatim>\<open>-n=3\<close> without its dashes.\<close>

definition split_equals :: "string \<Rightarrow> string \<times> string option" where
  "split_equals a =
     (let pre = takeWhile (\<lambda>c. c \<noteq> CHR ''='') a in
      if pre = a then (a, None) else (pre, Some (drop (Suc (length pre)) a)))"

definition set_flag :: "flag_set \<Rightarrow> string \<Rightarrow> string option \<Rightarrow> string list \<Rightarrow> (flag_outcome, flag_set \<times> string list) sum" where
  "set_flag fs name value rest =
     (case map_of fs name of
        None \<Rightarrow>
          if name = ''help'' \<or> name = ''h'' then Inl FlagsHelp
          else Inl (FlagsError (''flag provided but not defined: -'' @ name))
      | Some (BoolFlag _) \<Rightarrow>
          (case value of
             None \<Rightarrow> Inr (AList.update name (BoolFlag True) fs, rest)
           | Some v \<Rightarrow>
               (case ParseBool v of
                  None \<Rightarrow> Inl (FlagsError (''invalid boolean value '' @ fmt_q v @ '' for -'' @ name @ '': parse error''))
                | Some b \<Rightarrow> Inr (AList.update name (BoolFlag b) fs, rest)))
      | Some (IntFlag _) \<Rightarrow>
          (let set_to = (\<lambda>v r.
             case ParseInt0 v of
               Inl e \<Rightarrow> Inl (FlagsError (''invalid value '' @ fmt_q v @ '' for flag -'' @ name @ '': '' @ num_error_text e))
             | Inr i \<Rightarrow> Inr (AList.update name (IntFlag i) fs, r))
           in case value of
                Some v \<Rightarrow> set_to v rest
              | None \<Rightarrow>
                  (case rest of
                     [] \<Rightarrow> Inl (FlagsError (''flag needs an argument: -'' @ name))
                   | v # r \<Rightarrow> set_to v r)))"

text \<open>\<^verbatim>\<open>FlagSet.Parse\<close>; every round takes at least one argument.\<close>

function flag_parse :: "flag_set \<Rightarrow> string list \<Rightarrow> flag_outcome" where
  "flag_parse fs [] = FlagsParsed fs []"
| "flag_parse fs (s # args) =
     (if length s < 2 \<or> hd s \<noteq> CHR ''-'' then FlagsParsed fs (s # args)
      else if s = ''--'' then FlagsParsed fs args
      else
        let name = (if s ! 1 = CHR ''-'' then drop 2 s else drop 1 s) in
        if name = [] \<or> hd name = CHR ''-'' \<or> hd name = CHR ''='' then FlagsError (''bad flag syntax: '' @ s)
        else
          case split_equals name of (n, v) \<Rightarrow>
          (case set_flag fs n v args of
            Inl out \<Rightarrow> out
          | Inr (fs', rest) \<Rightarrow> if length rest \<le> length args then flag_parse fs' rest else FlagsParsed fs' rest))"
  by pat_completeness auto
termination
  by (relation "measure (\<lambda>(fs, args). length args)") auto

declare flag_parse.simps(2) [simp del]

text \<open>The test in the last line never fails: setting a flag takes arguments and adds none.\<close>

lemma set_flag_rest: "set_flag fs n v args = Inr (fs', rest) \<Longrightarrow> length rest \<le> length args"
  by (auto simp: set_flag_def Let_def split: option.splits flag_value.splits list.splits sum.splits if_splits)

lemma flag_parse_plain:
  "length s < 2 \<or> hd s \<noteq> CHR ''-'' \<Longrightarrow> flag_parse fs (s # args) = FlagsParsed fs (s # args)"
  by (simp add: flag_parse.simps(2))

end
