(* ===== verification/Cli_Base.thy ===== *)
theory Cli_Base
  imports Verb Snapshot Fsacl Go_Flag
begin

text \<open>
  What the commands of \<^verbatim>\<open>cmd/emilyos/main.go\<close> share: how a command ends, output, the environment
  variables, the caller's context, and what comes with the binary.

  A command is a function on the state of the operating system with one of three outcomes: it
  returns a value, it ends the process with \<^verbatim>\<open>os.Exit\<close>, or it panics. The combinators are those of
  a state monad with early exit; \<open>defer_call\<close> runs a deferred call when the body returns or
  panics, but not when it exits, as Go does.
\<close>

section \<open>Outcomes\<close>

datatype 'a outcome = Done 'a | Exit int | Panic string

type_synonym 'a cli = "os \<Rightarrow> 'a outcome \<times> os"

definition ret :: "'a \<Rightarrow> 'a cli" where
  "ret x s = (Done x, s)"

definition bnd :: "'a cli \<Rightarrow> ('a \<Rightarrow> 'b cli) \<Rightarrow> 'b cli" where
  "bnd m f s = (case m s of (Done x, s1) \<Rightarrow> f x s1 | (Exit c, s1) \<Rightarrow> (Exit c, s1) | (Panic p, s1) \<Rightarrow> (Panic p, s1))"

definition andthen :: "'a cli \<Rightarrow> 'b cli \<Rightarrow> 'b cli" where
  "andthen m k = bnd m (\<lambda>_. k)"

definition call :: "(os \<Rightarrow> 'a \<times> os) \<Rightarrow> 'a cli" where
  "call f s = (case f s of (x, s1) \<Rightarrow> (Done x, s1))"

definition ask :: "(os \<Rightarrow> 'a) \<Rightarrow> 'a cli" where
  "ask f s = (Done (f s), s)"

text \<open>A method that returns an error and changes its receiver.\<close>

definition call_method :: "(os \<Rightarrow> 'a \<times> 'b \<times> os) \<Rightarrow> ('a \<times> 'b) cli" where
  "call_method f s = (case f s of (x, y, s1) \<Rightarrow> (Done (x, y), s1))"

definition os_Exit :: "int \<Rightarrow> 'a cli" where
  "os_Exit code s = (Exit code, s)"

definition panic :: "string \<Rightarrow> 'a cli" where
  "panic msg s = (Panic msg, s)"

definition defer_call :: "(os \<Rightarrow> 'b \<times> os) \<Rightarrow> 'a cli \<Rightarrow> 'a cli" where
  "defer_call c m s =
     (case m s of (Exit code, s1) \<Rightarrow> (Exit code, s1)
      | (Done x, s1) \<Rightarrow> (Done x, snd (c s1))
      | (Panic p, s1) \<Rightarrow> (Panic p, snd (c s1)))"

lemma cli_simps [simp]:
  "bnd (ret x) f = f x" "bnd (os_Exit code) f = os_Exit code" "bnd (panic p) f = panic p"
  "andthen (os_Exit code) k = os_Exit code"
  by (simp_all add: fun_eq_iff bnd_def andthen_def ret_def os_Exit_def panic_def)

lemma bnd_assoc: "bnd (bnd m f) g = bnd m (\<lambda>x. bnd (f x) g)"
  by (auto simp: fun_eq_iff bnd_def split: prod.splits outcome.splits)

lemma bnd_call: "bnd (call f) g s = (case f s of (x, s1) \<Rightarrow> g x s1)"
  by (simp add: bnd_def call_def split: prod.splits)

lemma bnd_ask: "bnd (ask f) g s = g (f s) s"
  by (simp add: bnd_def ask_def)

lemma bnd_call_method: "bnd (call_method f) g s = (case f s of (x, y, s1) \<Rightarrow> g (x, y) s1)"
  by (simp add: bnd_def call_method_def split: prod.splits)

lemmas cli_run = bnd_call bnd_ask bnd_call_method andthen_def ret_def os_Exit_def panic_def defer_call_def

section \<open>Output\<close>

definition fmt_Print :: "string \<Rightarrow> unit cli" where
  "fmt_Print t s = (Done (), s\<lparr>stdout := stdout s @ t\<rparr>)"

definition fmt_Println :: "string \<Rightarrow> unit cli" where
  "fmt_Println t = fmt_Print (t @ [newline])"

definition fmt_Eprint :: "string \<Rightarrow> unit cli" where
  "fmt_Eprint t s = (Done (), s\<lparr>stderr := stderr s @ t\<rparr>)"

definition die :: "string \<Rightarrow> 'a cli" where
  "die msg = andthen (fmt_Eprint (''emilyos: '' @ msg @ [newline])) (os_Exit 1)"

lemma die_eq: "die msg s = (Exit 1, s\<lparr>stderr := stderr s @ ''emilyos: '' @ msg @ [newline]\<rparr>)"
  by (simp add: die_def andthen_def bnd_def fmt_Eprint_def os_Exit_def)

lemma bnd_Print [simp]: "bnd (fmt_Print t) f s = f () (s\<lparr>stdout := stdout s @ t\<rparr>)"
  by (simp add: bnd_def fmt_Print_def)

lemma bnd_Eprint [simp]: "bnd (fmt_Eprint t) f s = f () (s\<lparr>stderr := stderr s @ t\<rparr>)"
  by (simp add: bnd_def fmt_Eprint_def)

text \<open>\<^verbatim>\<open>%-nv\<close>: padded on the right to \<open>n\<close> runes.\<close>

definition pad_right :: "nat \<Rightarrow> string \<Rightarrow> string" where
  "pad_right n t = t @ replicate (n - length (runes t)) CHR '' ''"

definition fmt_bool :: "bool \<Rightarrow> string" where
  "fmt_bool b = (if b then ''true'' else ''false'')"

definition arrow :: string where
  "arrow = [CHR 0xE2, CHR 0x86, CHR 0x92]"

definition em_dash :: string where
  "em_dash = [CHR 0xE2, CHR 0x80, CHR 0x94]"

definition ellipsis :: string where
  "ellipsis = [CHR 0xE2, CHR 0x80, CHR 0xA6]"

definition rule_char :: string where
  "rule_char = [CHR 0xE2, CHR 0x94, CHR 0x80]"

section \<open>Paths\<close>

text \<open>Two names of one file.\<close>

definition same_path :: "string \<Rightarrow> string \<Rightarrow> bool" where
  "same_path p q \<longleftrightarrow> filepath_Clean p = filepath_Clean q"

lemma contents_set_file: "contents (set_file q d s) p = (if same_path q p then d else contents s p)"
  by (auto simp: contents_def same_path_def)

lemma contents_execs [simp]: "contents (s\<lparr>execs := xs\<rparr>) p = contents s p"
  by (simp add: contents_def)

lemma contents_same: "same_path q p \<Longrightarrow> contents s q = contents s p"
  by (simp add: contents_def file_at_def same_path_def)

lemma output_frame [simp]:
  "file_at (s\<lparr>stderr := t\<rparr>) p = file_at s p" "file_at (s\<lparr>stdout := t\<rparr>) p = file_at s p"
  "dir_exists (s\<lparr>stderr := t\<rparr>) p = dir_exists s p" "dir_exists (s\<lparr>stdout := t\<rparr>) p = dir_exists s p"
  by (simp_all add: file_at_def dir_exists_def)

section \<open>The environment\<close>

definition os_Getenv :: "string \<Rightarrow> os \<Rightarrow> string" where
  "os_Getenv key s = (case map_of (env s) key of None \<Rightarrow> [] | Some v \<Rightarrow> v)"

definition getenvOr :: "string \<Rightarrow> string \<Rightarrow> os \<Rightarrow> string" where
  "getenvOr key def s = (let v = os_Getenv key s in if v \<noteq> [] then v else def)"

definition posturePath :: "os \<Rightarrow> string" where
  "posturePath s = getenvOr ''EMILY_POSTURE_PATH'' ''var/posture.json'' s"

definition auditPath :: "os \<Rightarrow> string" where
  "auditPath s = getenvOr ''EMILY_AUDIT_PATH'' ''var/audit.jsonl'' s"

definition snapshotPath :: "os \<Rightarrow> string" where
  "snapshotPath s = getenvOr ''EMILY_SNAPSHOT_DIR'' ''var/snapshots'' s"

text \<open>\<^verbatim>\<open>os.Hostname()\<close>, whose error the program drops: the name is then empty.\<close>

definition os_Hostname :: "os \<Rightarrow> string \<times> os" where
  "os_Hostname s = (case take_fault s of (Some f, s1) \<Rightarrow> ([], s1) | (None, s1) \<Rightarrow> (hostname s1, s1))"

definition callerContext :: "vcontext cli" where
  "callerContext =
     bnd (ask (\<lambda>s. getenvOr ''EMILY_ACTOR_ID'' (os_Getenv ''USER'' s) s)) (\<lambda>actor0.
     let actorID = (if actor0 = [] then ''unknown'' else actor0) in
     bnd (ask (\<lambda>s. getenvOr ''EMILY_SESSION_ID'' (''pid-'' @ dec (pid s)) s)) (\<lambda>sessionID.
     bnd (call os_Hostname) (\<lambda>host.
     bnd (ask (os_Getenv ''EMILY_DEVICE_ID'')) (\<lambda>envDevice.
     let deviceID = (if envDevice \<noteq> [] then envDevice else host) in
     bnd (ask (getenvOr ''EMILY_ROLE'' RoleOperator)) (\<lambda>role0.
     bnd (if \<not> ValidRole role0
          then andthen (fmt_Eprint (''warning: unknown role '' @ fmt_q role0 @ '', defaulting to operator'' @ [newline]))
                 (ret RoleOperator)
          else ret role0) (\<lambda>role.
     ret \<lparr>VActorID = actorID, VSessionID = sessionID, VDeviceID = deviceID, VRole = role\<rparr>))))))"

text \<open>\<^verbatim>\<open>t[:n]\<close> of a string: a panic when the string is shorter.\<close>

definition slice_to :: "string \<Rightarrow> nat \<Rightarrow> string cli" where
  "slice_to t n =
     (if n \<le> length t then ret (take n t)
      else panic (''runtime error: slice bounds out of range [:'' @ dec n @ ''] with length '' @ dec (length t)))"

definition nil_dereference :: "'a cli" where
  "nil_dereference = panic ''runtime error: invalid memory address or nil pointer dereference''"

definition firstOr :: "string list \<Rightarrow> string \<Rightarrow> string" where
  "firstOr args def = (if args = [] then def else args ! 0)"

section \<open>The binary\<close>

text \<open>
  What the build and the libraries bring: the three strings set by the linker, the program
  \<^verbatim>\<open>setfacl\<close>, the order in which Go ranges over a map (it may differ from one moment to the next,
  so it also depends on the number of clock readings), and the writer of \<^verbatim>\<open>tar.gz\<close> archives. The
  writer is given by the chunks it passes on to the file for the header of an entry (after the
  entries before), for its data, and when it is closed.
\<close>

record tar_entry =
  tname :: string
  tsize :: nat
  tmode :: nat
  tmodtime :: gotime
  tdata :: string

record binary =
  bversion :: string
  buildCommit :: string
  buildDate :: string
  setfacl :: runner
  map_order :: "nat \<Rightarrow> string list \<Rightarrow> string list"
  tar_header :: "tar_entry list \<Rightarrow> tar_entry \<Rightarrow> string list"
  tar_data :: "tar_entry list \<Rightarrow> tar_entry \<Rightarrow> string list"
  tar_close :: "tar_entry list \<Rightarrow> string list"

section \<open>The context as a function of the environment\<close>

definition caller_role :: "os \<Rightarrow> string" where
  "caller_role s = (let r = getenvOr ''EMILY_ROLE'' RoleOperator s in if ValidRole r then r else RoleOperator)"

definition caller_actor :: "os \<Rightarrow> string" where
  "caller_actor s =
     (let a = getenvOr ''EMILY_ACTOR_ID'' (os_Getenv ''USER'' s) s in if a = [] then ''unknown'' else a)"

definition caller_session :: "os \<Rightarrow> string" where
  "caller_session s = getenvOr ''EMILY_SESSION_ID'' (''pid-'' @ dec (pid s)) s"

definition caller_warning :: "os \<Rightarrow> string" where
  "caller_warning s =
     (let r = getenvOr ''EMILY_ROLE'' RoleOperator s in
      if ValidRole r then [] else ''warning: unknown role '' @ fmt_q r @ '', defaulting to operator'' @ [newline])"

definition caller_device :: "os \<Rightarrow> string" where
  "caller_device s =
     (if os_Getenv ''EMILY_DEVICE_ID'' s \<noteq> [] then os_Getenv ''EMILY_DEVICE_ID'' s else fst (os_Hostname s))"

lemma env_frame [simp]:
  "os_Getenv k (s\<lparr>stderr := t\<rparr>) = os_Getenv k s" "os_Getenv k (s\<lparr>faults := f\<rparr>) = os_Getenv k s"
  "os_Getenv k (s\<lparr>stdout := t\<rparr>) = os_Getenv k s" "os_Getenv k (s\<lparr>ticks := n\<rparr>) = os_Getenv k s"
  "os_Getenv k (set_file p d s) = os_Getenv k s" "os_Getenv k (made_parent p s) = os_Getenv k s"
  "os_Getenv k (s\<lparr>execs := xs\<rparr>) = os_Getenv k s"
  by (simp_all add: os_Getenv_def)

lemma getenvOr_frame [simp]:
  "getenvOr k d (s\<lparr>stderr := t\<rparr>) = getenvOr k d s" "getenvOr k d (s\<lparr>faults := f\<rparr>) = getenvOr k d s"
  "getenvOr k d (s\<lparr>stdout := t\<rparr>) = getenvOr k d s" "getenvOr k d (s\<lparr>ticks := n\<rparr>) = getenvOr k d s"
  "getenvOr k d (set_file p x s) = getenvOr k d s" "getenvOr k d (made_parent p s) = getenvOr k d s"
  "getenvOr k d (s\<lparr>execs := xs\<rparr>) = getenvOr k d s"
  by (simp_all add: getenvOr_def)

lemma os_Hostname_frame: "snd (os_Hostname s) = s\<lparr>faults := tl (faults s)\<rparr>"
  by (auto simp: os_Hostname_def take_fault_def split: list.splits option.splits)

definition caller_context :: "os \<Rightarrow> vcontext" where
  "caller_context s = \<lparr>VActorID = caller_actor s, VSessionID = caller_session s, VDeviceID = caller_device s,
     VRole = caller_role s\<rparr>"

text \<open>The call never fails; it takes one fault and may write a warning.\<close>

lemma callerContext_eq:
  "callerContext s = (Done (caller_context s), s\<lparr>faults := tl (faults s), stderr := stderr s @ caller_warning s\<rparr>)"
proof -
  obtain h s1 where h: "os_Hostname s = (h, s1)" by fastforce
  then have s1: "s1 = s\<lparr>faults := tl (faults s)\<rparr>" using os_Hostname_frame [of s] by simp
  show ?thesis
    using h by (auto simp: callerContext_def cli_run bnd_assoc h s1 Let_def caller_context_def caller_actor_def
        caller_session_def caller_device_def caller_role_def caller_warning_def)
qed

lemma caller_role_valid: "ValidRole (caller_role s)"
  by (simp add: caller_role_def Let_def ValidRole_def roleCaps_def)

lemma bnd_context:
  "quiet s \<Longrightarrow> bnd callerContext f s = f (caller_context s) (s\<lparr>stderr := stderr s @ caller_warning s\<rparr>)"
proof -
  assume "quiet s"
  then have "s\<lparr>faults := tl (faults s)\<rparr> = s" by (cases s) (simp add: quiet_def)
  then show ?thesis by (simp add: bnd_def callerContext_eq)
qed

end
