(* ===== verification/Cli_Verb.thy ===== *)
theory Cli_Verb
  imports Cli_Base
begin

text \<open>
  The commands \<^verbatim>\<open>posture\<close> and \<^verbatim>\<open>verb\<close> of \<^verbatim>\<open>cmd/emilyos/main.go\<close>: the posture machine and the verb
  dispatcher as a user of the command line meets them.
\<close>

section \<open>Posture\<close>

text \<open>The part of \<^verbatim>\<open>posture set\<close> after the log was opened, under its deferred \<^verbatim>\<open>Close\<close>.\<close>

definition posture_set :: "string \<Rightarrow> vcontext \<Rightarrow> machine \<Rightarrow> logger \<Rightarrow> unit cli" where
  "posture_set target ctx pm log =
     bnd (call_method (Transition target (VActorID ctx) (VSessionID ctx) pm)) (\<lambda>((old, err), pm1).
     case err of
       Some e \<Rightarrow>
         bnd (call_method (Deny (VActorID ctx) (VSessionID ctx) (VDeviceID ctx) ''posture.set'' (''posture:'' @ target)
           (''transition.invalid:'' @ Error e) None log)) (\<lambda>_.
         die (''transition failed: '' @ Error e))
     | None \<Rightarrow>
         bnd (call_method (Allow (VActorID ctx) (VSessionID ctx) (VDeviceID ctx) ''posture.set'' (''posture:'' @ target)
           ResultSuccess (Some [(''from'', AStr old), (''to'', AStr target)]) log)) (\<lambda>_.
         fmt_Print (old @ '' '' @ arrow @ '' '' @ target @ [newline])))"

definition runPosture :: "string list \<Rightarrow> unit cli" where
  "runPosture args =
     (if args = []
      then andthen (fmt_Eprint (''usage: emilyos posture get|set <state>'' @ [newline])) (os_Exit 1)
      else
        bnd (ask posturePath) (\<lambda>pp. bnd (call (posture_New pp)) (\<lambda>r.
        case r of
          Inl err \<Rightarrow> die (''posture: '' @ Error err)
        | Inr pm \<Rightarrow>
            if args ! 0 = ''get'' then fmt_Println (Current pm)
            else if args ! 0 = ''set'' then
              (if length args < 2 then die ''posture set: state required''
               else
                 bnd callerContext (\<lambda>ctx.
                 if VRole ctx \<noteq> RoleAdmin
                 then die (''posture set requires admin role (current: '' @ VRole ctx @ '')'')
                 else
                   bnd (ask auditPath) (\<lambda>ap. bnd (call (Open ap)) (\<lambda>lr.
                   case lr of
                     Inl err \<Rightarrow> die (''audit: '' @ Error err)
                   | Inr log \<Rightarrow> defer_call (Close log) (posture_set (args ! 1) ctx pm log)))))
            else die (''unknown posture subcommand: '' @ args ! 0))))"

section \<open>Verbs\<close>

definition capForVerb :: "string \<Rightarrow> os \<Rightarrow> string" where
  "capForVerb v s =
     (let envCap = os_Getenv ''EMILY_VERB_CAP'' s in
      if envCap \<noteq> [] then envCap
      else if v \<in> set [''ENTER'', ''RESUME'', ''PAUSE'', ''EXIT'', ''WITHDRAW'', ''GAME''] then CapSessionOpen
      else if v \<in> set [''EXEC'', ''DOMAIN_EXEC''] then CapExec
      else if v \<in> set [''NET'', ''SSH''] then CapNet
      else if v = ''INCIDENT'' then CapPostureAdmin
      else if v = ''EXPORT'' then CapExport
      else if v = ''POLICY_CHANGE'' then CapPolicyWrite
      else if v = ''AUDIT_READ'' then CapAuditRead
      else if v = ''DOMAIN_START'' then CapDomainStart
      else if v = ''DOMAIN_STOP'' then CapDomainStop
      else if v = ''SSH_MANAGE_HOSTS'' then CapSSHManageHosts
      else if v = ''SSH_MANAGE_KEYS'' then CapSSHManageKeys
      else CapExec)"

text \<open>The handler that \<^verbatim>\<open>runVerb\<close> registers: it prints what it was called with.\<close>

definition print_handler :: "string \<Rightarrow> handler" where
  "print_handler verbName ctx objectRef meta s =
     (None, meta, s\<lparr>stdout := stdout s @ ''verb '' @ verbName @ '' dispatched on '' @ objectRef @ [newline]\<rparr>)"

definition verb_dispatch :: "string \<Rightarrow> string \<Rightarrow> logger \<Rightarrow> unit cli" where
  "verb_dispatch verbName objectRef log =
     bnd (ask posturePath) (\<lambda>pp. bnd (call (posture_New pp)) (\<lambda>r.
     case r of
       Inl err \<Rightarrow> die (''posture: '' @ Error err)
     | Inr pm \<Rightarrow>
         bnd (ask (capForVerb verbName)) (\<lambda>cap.
         bnd callerContext (\<lambda>ctx.
         bnd (call_method (Dispatch ctx verbName objectRef None
           (Register verbName cap (print_handler verbName) (verb_New log pm)))) (\<lambda>(err, d).
         case err of
           None \<Rightarrow> ret ()
         | Some e \<Rightarrow>
             if IsDenied err
             then andthen (fmt_Eprint (''denied: '' @ Error e @ [newline])) (os_Exit 2)
             else die (''dispatch: '' @ Error e))))))"

definition runVerb :: "string list \<Rightarrow> unit cli" where
  "runVerb args =
     (if length args < 1 \<or> args ! 0 \<noteq> ''dispatch''
      then andthen (fmt_Eprint (''usage: emilyos verb dispatch <verb> <object>'' @ [newline])) (os_Exit 1)
      else if length args < 3 then die ''verb dispatch: <verb> and <object> required''
      else
        bnd (ask auditPath) (\<lambda>ap. bnd (call (Open ap)) (\<lambda>lr.
        case lr of
          Inl err \<Rightarrow> die (''audit: '' @ Error err)
        | Inr log \<Rightarrow> defer_call (Close log) (verb_dispatch (args ! 1) (args ! 2) log))))"

end
