(* ===== verification/Cli_Audit.thy ===== *)
theory Cli_Audit
  imports Cli_Base
begin

text \<open>
  The command \<^verbatim>\<open>audit\<close> of \<^verbatim>\<open>cmd/emilyos/main.go\<close>: showing and verifying the log, and exporting it
  as evidence, to a directory or as an archive.
\<close>

section \<open>Showing the log\<close>

text \<open>\<^verbatim>\<open>json.Marshal\<close> with its error dropped.\<close>

definition marshal_or_nil :: "string option \<Rightarrow> string" where
  "marshal_or_nil d = (case d of None \<Rightarrow> [] | Some t \<Rightarrow> t)"

text \<open>\<^verbatim>\<open>for ... { fmt.Println(...) }\<close>\<close>

fun print_lines :: "string list \<Rightarrow> unit cli" where
  "print_lines [] = ret ()"
| "print_lines (t # ts) = bnd (fmt_Println t) (\<lambda>_. print_lines ts)"

text \<open>
  The flag set of \<^verbatim>\<open>audit tail\<close>, with what the \<^verbatim>\<open>flag\<close> package prints and how it exits when the
  arguments are wrong or help is asked for.
\<close>

definition tail_flags :: flag_set where
  "tail_flags = [(''n'', IntFlag 10)]"

definition tail_usage :: string where
  "tail_usage = ''Usage of audit tail:'' @ [newline] @ ''  -n int'' @ [newline] @ ''    '' @ [CHR 0x09] @
     ''number of events to show (default 10)'' @ [newline]"

definition tail_count :: "string list \<Rightarrow> int cli" where
  "tail_count args =
     (case flag_parse tail_flags args of
        FlagsHelp \<Rightarrow> andthen (fmt_Eprint tail_usage) (os_Exit 0)
      | FlagsError msg \<Rightarrow> andthen (fmt_Eprint (msg @ [newline] @ tail_usage)) (os_Exit 2)
      | FlagsParsed fs rest \<Rightarrow>
          let n = (case map_of fs ''n'' of Some (IntFlag i) \<Rightarrow> i | _ \<Rightarrow> 10) in
          ret (if rest = [] then n else case Atoi (rest ! 0) of Inr v \<Rightarrow> v | Inl _ \<Rightarrow> n))"

text \<open>
  \<^verbatim>\<open>start := len(events) - n\<close> on 64 bits, then \<^verbatim>\<open>events[start:]\<close>, which panics when the start is
  past the end.
\<close>

definition tail_start :: "nat \<Rightarrow> int \<Rightarrow> int64" where
  "tail_start len n =
     (let start = word_of_nat len - word_of_int n in if sint start < 0 then 0 else start)"

definition slice_from :: "'a list \<Rightarrow> int64 \<Rightarrow> 'a list cli" where
  "slice_from xs start =
     (if 0 \<le> sint start \<and> sint start \<le> int (length xs) then ret (drop (nat (sint start)) xs)
      else panic (''runtime error: slice bounds out of range ['' @ fmt_d start @ '':'' @ dec (length xs) @ '']''))"

definition audit_tail :: "string list \<Rightarrow> unit cli" where
  "audit_tail args =
     bnd (tail_count args) (\<lambda>n.
     bnd (ask auditPath) (\<lambda>ap. bnd (call (ReadFile ap)) (\<lambda>r.
     case r of
       Inl err \<Rightarrow> die (''read audit: '' @ Error err)
     | Inr events \<Rightarrow>
         bnd (slice_from events (tail_start (length events) n)) (\<lambda>shown.
         print_lines (map (\<lambda>e. marshal_or_nil (marshal_event e)) shown)))))"

definition audit_verify :: "unit cli" where
  "audit_verify =
     bnd (ask auditPath) (\<lambda>ap. bnd (call (VerifyChain ap)) (\<lambda>err.
     case err of
       Some e \<Rightarrow> andthen (fmt_Eprint (''TAMPERED: '' @ Error e @ [newline])) (os_Exit 3)
     | None \<Rightarrow>
         bnd (call (ReadFile ap)) (\<lambda>r.
         let events = (case r of Inl _ \<Rightarrow> [] | Inr es \<Rightarrow> es) in
         fmt_Print (''ok '' @ em_dash @ '' '' @ dec (length events) @ '' events, chain intact'' @ [newline]))))"

section \<open>The history of postures\<close>

record history_row =
  HSeq :: int64
  HTS :: string
  HActor :: string
  HFrom :: string
  HTo :: string

text \<open>\<^verbatim>\<open>v, _ := m[key].(string)\<close>\<close>

definition meta_string :: "gomap option \<Rightarrow> string \<Rightarrow> string" where
  "meta_string m key =
     (case m of None \<Rightarrow> []
      | Some kvs \<Rightarrow> (case map_of kvs key of Some (AStr v) \<Rightarrow> v | _ \<Rightarrow> []))"

definition history_row_of :: "event \<Rightarrow> history_row" where
  "history_row_of e =
     \<lparr>HSeq = Seq e, HTS = format_DateTime (TS e), HActor = ActorID e,
      HFrom = meta_string (Meta e) ''from'', HTo = meta_string (Meta e) ''to''\<rparr>"

definition history_line :: "history_row \<Rightarrow> string" where
  "history_line r =
     pad_right 6 (fmt_d (HSeq r)) @ ''  '' @ pad_right 19 (HTS r) @ ''  '' @ pad_right 16 (HActor r) @ ''  '' @
     HFrom r @ '' '' @ arrow @ '' '' @ HTo r"

text \<open>
  \<^verbatim>\<open>rows[len(rows)-n:]\<close> for an \<open>n\<close> below the length: there is no overflow unless \<open>n\<close> is negative, and
  then the start is out of range, wrapped around or not.
\<close>

definition last_rows :: "'a list \<Rightarrow> int \<Rightarrow> 'a list cli" where
  "last_rows rows n =
     (if 0 \<le> n then ret (drop (nat (int (length rows) - n)) rows)
      else panic (''runtime error: slice bounds out of range ['' @ fmt_d (word_of_nat (length rows) - word_of_int n) @ '':'' @
        dec (length rows) @ '']''))"

definition runAuditHistory :: "int \<Rightarrow> unit cli" where
  "runAuditHistory n =
     bnd (ask auditPath) (\<lambda>ap. bnd (call (ReadFile ap)) (\<lambda>r.
     case r of
       Inl err \<Rightarrow> die (''read audit: '' @ Error err)
     | Inr events \<Rightarrow>
         let rows = map history_row_of (filter (\<lambda>e. Verb e = ''posture.set'') events) in
         if rows = [] then fmt_Println ''no posture transitions recorded''
         else
           bnd (if n < int (length rows) then last_rows rows n else ret rows) (\<lambda>shown.
           bnd (fmt_Println (pad_right 6 ''Seq'' @ ''  '' @ pad_right 19 ''Timestamp'' @ ''  '' @ pad_right 16 ''Actor'' @
             ''  Transition'')) (\<lambda>_.
           bnd (fmt_Println (concat (replicate 65 rule_char))) (\<lambda>_.
           print_lines (map history_line shown))))))"

section \<open>Export to a directory\<close>

text \<open>
  \<^verbatim>\<open>io.Copy(out, in)\<close> between two files: the bytes that the source holds when the copy starts are
  appended to the destination; a fault has kept some of them.
\<close>

definition io_Copy :: "string \<Rightarrow> string \<Rightarrow> os \<Rightarrow> go_error option \<times> os" where
  "io_Copy dst src s =
     (if dir_exists s src
      then (Some (PathError ''write'' dst (Errno ''copy_file_range: is a directory'')), snd (take_fault s))
      else file_Write dst (contents s src) s)"

definition os_Open :: "string \<Rightarrow> os \<Rightarrow> go_error option \<times> os" where
  "os_Open p s =
     (case take_fault s of
        (Some f, s1) \<Rightarrow> (Some (PathError ''open'' p (Errno (fault_text f))), s1)
      | (None, s1) \<Rightarrow>
          if p \<noteq> [] \<and> (dir_exists s1 p \<or> file_at s1 p \<noteq> None) then (None, s1)
          else (Some (PathError ''open'' p (missing s1 p)), s1))"

definition copyFile :: "string \<Rightarrow> string \<Rightarrow> os \<Rightarrow> go_error option \<times> os" where
  "copyFile src dst s =
     (case os_Open src s of
        (Some err, s1) \<Rightarrow> if errors_Is_NotExist err then os_WriteFile dst [] s1 else (Some err, s1)
      | (None, s1) \<Rightarrow>
          (case os_OpenTrunc dst s1 of
             (Some err, s2) \<Rightarrow> (Some err, snd (file_Close src s2))
           | (None, s2) \<Rightarrow>
               (case io_Copy dst src s2 of (err, s3) \<Rightarrow>
                (err, snd (file_Close src (snd (file_Close dst s3)))))))"

definition chain_warning :: "event list \<Rightarrow> unit cli" where
  "chain_warning events =
     (case VerifyEvents events of
        None \<Rightarrow> ret ()
      | Some err \<Rightarrow> fmt_Eprint (''warning: chain verification failed: '' @ Error err @ [newline]))"

definition export_manifest :: "gotime \<Rightarrow> event list \<Rightarrow> string \<Rightarrow> string \<Rightarrow> gomap" where
  "export_manifest now events src actor =
     [(''actor'', AStr actor), (''chain_ok'', ABool (VerifyEvents events = None)),
      (''event_count'', AInt (int (length events))), (''export_ts'', AStr (format_RFC3339 now)),
      (''first_seq'', AInt (sint (if events = [] then 0 else Seq (events ! 0)))),
      (''last_seq'', AInt (sint (if events = [] then 0 else Seq (events ! (length events - 1))))),
      (''source'', AStr src)]"

text \<open>The files of the export, once the events are read and verified.\<close>

definition write_export :: "string \<Rightarrow> string \<Rightarrow> event list \<Rightarrow> unit cli" where
  "write_export outdir src events =
     (let destLog = filepath_Join outdir ''audit.jsonl''; manifestPath = filepath_Join outdir ''manifest.json'';
          chainOK = (VerifyEvents events = None) in
      bnd (call (copyFile src destLog)) (\<lambda>cp.
      case cp of Some err \<Rightarrow> die (''copy audit log: '' @ Error err)
      | None \<Rightarrow>
      bnd (call time_Now) (\<lambda>now. bnd callerContext (\<lambda>ctx.
      let mdata = print_tree True 0 (tree_of_map (Some (export_manifest now events src (VActorID ctx)))) in
      bnd (call (os_WriteFile manifestPath (mdata @ [newline]))) (\<lambda>wr.
      case wr of Some err \<Rightarrow> die (''write manifest: '' @ Error err)
      | None \<Rightarrow>
      bnd (fmt_Print (''exported '' @ dec (length events) @ '' events '' @ arrow @ '' '' @ outdir @ [newline])) (\<lambda>_.
      bnd (fmt_Print (''  '' @ destLog @ [newline])) (\<lambda>_.
      bnd (fmt_Print (''  '' @ manifestPath @ ''  (chain_ok='' @ fmt_bool chainOK @ '')'' @ [newline])) (\<lambda>_.
      if \<not> chainOK then os_Exit 3 else ret ()))))))))"

definition runAuditExport :: "string \<Rightarrow> unit cli" where
  "runAuditExport outdir =
     bnd (call (os_MkdirAll outdir)) (\<lambda>mk.
     case mk of Some err \<Rightarrow> die (''create outdir: '' @ Error err)
     | None \<Rightarrow>
     bnd (ask auditPath) (\<lambda>src. bnd (call (ReadFile src)) (\<lambda>r.
     case r of Inl err \<Rightarrow> die (''read audit: '' @ Error err)
     | Inr events \<Rightarrow> bnd (chain_warning events) (\<lambda>_. write_export outdir src events))))"

section \<open>The evidence bundle\<close>

record bundleFile =
  fname :: string
  fdata :: string

record fileEntry =
  FName :: string
  FBytes :: nat
  FSHA256 :: string

definition file_entry :: "bundleFile \<Rightarrow> fileEntry" where
  "file_entry f = \<lparr>FName = fname f, FBytes = length (fdata f), FSHA256 = fmt_x (sha256_sum (fdata f))\<rparr>"

definition entry_tree :: "fileEntry \<Rightarrow> jtree" where
  "entry_tree e =
     TObj [(''name'', TStr (json_quote (FName e))), (''bytes'', TNum (dec (FBytes e))),
       (''sha256'', TStr (json_quote (FSHA256 e)))]"

text \<open>The keys of the map are printed in their order.\<close>

definition bundle_manifest :: "binary \<Rightarrow> gotime \<Rightarrow> event list \<Rightarrow> string \<Rightarrow> fileEntry list \<Rightarrow> jtree" where
  "bundle_manifest bin now events actor entries =
     TObj [(''actor'', TStr (json_quote actor)), (''build_commit'', TStr (json_quote (buildCommit bin))),
       (''build_id'', TStr (json_quote (bversion bin @ ''+'' @ buildDate bin))),
       (''chain_ok'', TBool (VerifyEvents events = None)), (''event_count'', TNum (dec (length events))),
       (''export_ts'', TStr (json_quote (format_RFC3339 now))), (''files'', TArr (map entry_tree entries))]"

fun write_chunks :: "string \<Rightarrow> string list \<Rightarrow> os \<Rightarrow> go_error option \<times> os" where
  "write_chunks p [] s = (None, s)"
| "write_chunks p (c # cs) s =
     (case file_Write p c s of (Some err, s1) \<Rightarrow> (Some err, s1) | (None, s1) \<Rightarrow> write_chunks p cs s1)"

text \<open>The loop over the files; the entries written so far come first.\<close>

fun write_tar :: "binary \<Rightarrow> string \<Rightarrow> tar_entry list \<Rightarrow> bundleFile list \<Rightarrow> unit cli" where
  "write_tar bin p past [] = bnd (call (write_chunks p (tar_close bin past))) (\<lambda>_. ret ())"
| "write_tar bin p past (f # fs) =
     bnd (call time_Now) (\<lambda>now.
     let hdr = \<lparr>tname = fname f, tsize = length (fdata f), tmode = 416, tmodtime = now, tdata = fdata f\<rparr> in
     bnd (call (write_chunks p (tar_header bin past hdr))) (\<lambda>r.
     case r of Some err \<Rightarrow> die (''tar header: '' @ Error err)
     | None \<Rightarrow>
     bnd (call (write_chunks p (tar_data bin past hdr))) (\<lambda>r.
     case r of Some err \<Rightarrow> die (''tar write: '' @ Error err)
     | None \<Rightarrow> write_tar bin p (past @ [hdr]) fs)))"

fun print_entries :: "fileEntry list \<Rightarrow> unit cli" where
  "print_entries [] = ret ()"
| "print_entries (e # es) =
     bnd (slice_to (FSHA256 e) 16) (\<lambda>h.
     bnd (fmt_Print (''  '' @ pad_right 30 (FName e) @ ''  '' @ h @ ellipsis @ ''  ('' @ dec (FBytes e) @ '' bytes)'' @ [newline])) (\<lambda>_.
     print_entries es))"

definition write_bundle :: "binary \<Rightarrow> string \<Rightarrow> event list \<Rightarrow> bundleFile list \<Rightarrow> fileEntry list \<Rightarrow> unit cli" where
  "write_bundle bin outPath events fs entries =
     bnd (write_tar bin outPath [] fs) (\<lambda>_.
     bnd (fmt_Print (''bundle written: '' @ outPath @ [newline])) (\<lambda>_.
     bnd (fmt_Print (''  events: '' @ dec (length events) @ ''  chain_ok: '' @ fmt_bool (VerifyEvents events = None) @ [newline])) (\<lambda>_.
     bnd (print_entries entries) (\<lambda>_.
     if VerifyEvents events \<noteq> None then os_Exit 3 else ret ()))))"

text \<open>\<^verbatim>\<open>latest, _ := ss.Latest()\<close>; the store is nil when it could not be made.\<close>

definition latest_or_nil :: "(go_error + snapshotStore) \<Rightarrow> snapshot option cli" where
  "latest_or_nil ss =
     (case ss of Inl _ \<Rightarrow> nil_dereference
      | Inr st \<Rightarrow> bnd (call (Latest st)) (\<lambda>r. ret (case r of Inl _ \<Rightarrow> None | Inr x \<Rightarrow> x)))"

text \<open>The bundle once the export was dispatched and the log closed.\<close>

definition collect_bundle :: "binary \<Rightarrow> string \<Rightarrow> unit cli" where
  "collect_bundle bin outPath =
     bnd (ask auditPath) (\<lambda>ap. bnd (call (ReadFile ap)) (\<lambda>r.
     let events = (case r of Inl _ \<Rightarrow> [] | Inr es \<Rightarrow> es) in
     bnd (chain_warning events) (\<lambda>_.
     bnd (call (os_ReadFile ap)) (\<lambda>ad.
     let auditData = (case ad of Inl _ \<Rightarrow> [] | Inr d \<Rightarrow> d) in
     bnd (ask snapshotPath) (\<lambda>sp. bnd (call (NewSnapshotStore sp)) (\<lambda>ss.
     bnd (latest_or_nil ss) (\<lambda>latestSnap.
     let files1 = \<lparr>fname = ''audit.jsonl'', fdata = auditData\<rparr> #
           (case latestSnap of None \<Rightarrow> []
            | Some x \<Rightarrow> [\<lparr>fname = ''policy-snapshot.json'', fdata = marshal_or_nil (marshal_snapshot x) @ [newline]\<rparr>]);
         entries = map file_entry files1 in
     bnd (call time_Now) (\<lambda>now. bnd callerContext (\<lambda>ctx.
     let manifestData = print_tree True 0 (bundle_manifest bin now events (VActorID ctx) entries);
         files2 = files1 @ [\<lparr>fname = ''manifest.json'', fdata = manifestData @ [newline]\<rparr>] in
     bnd (call (os_OpenTrunc outPath)) (\<lambda>op.
     case op of Some err \<Rightarrow> die (''create bundle: '' @ Error err)
     | None \<Rightarrow> defer_call (file_Close outPath) (write_bundle bin outPath events files2 entries)))))))))))"

definition nil_handler :: handler where
  "nil_handler ctx objectRef meta s = (None, meta, s)"

definition runAuditBundle :: "binary \<Rightarrow> string \<Rightarrow> unit cli" where
  "runAuditBundle bin outPath =
     bnd (ask auditPath) (\<lambda>ap. bnd (call (Open ap)) (\<lambda>lr.
     case lr of Inl err \<Rightarrow> die (''audit log: '' @ Error err)
     | Inr alog \<Rightarrow>
     bnd (ask posturePath) (\<lambda>pp. bnd (call (posture_New pp)) (\<lambda>pr.
     case pr of Inl err \<Rightarrow> die (''posture: '' @ Error err)
     | Inr pm \<Rightarrow>
     bnd callerContext (\<lambda>ctx.
     bnd (call_method (Dispatch ctx ''EXPORT_EVIDENCE'' (''bundle:'' @ filepath_Base outPath)
       (Some [(''output'', AStr outPath)])
       (Register ''EXPORT_EVIDENCE'' CapExport nil_handler (verb_New alog pm)))) (\<lambda>(dispErr, d).
     bnd (call (Close (dlog d))) (\<lambda>_.
     case dispErr of
       Some e \<Rightarrow> if IsDenied dispErr then die (''EXPORT_EVIDENCE denied: '' @ Error e) else collect_bundle bin outPath
     | None \<Rightarrow> collect_bundle bin outPath)))))))"

section \<open>The command\<close>

definition history_count :: "string list \<Rightarrow> int" where
  "history_count args =
     (if 2 \<le> length args then (case Atoi (args ! 1) of Inr v \<Rightarrow> if 0 < v then v else 20 | Inl _ \<Rightarrow> 20) else 20)"

definition runAudit :: "binary \<Rightarrow> string list \<Rightarrow> unit cli" where
  "runAudit bin args =
     (if args = [] then die ''usage: emilyos audit tail|verify''
      else if args ! 0 = ''tail'' then audit_tail (tl args)
      else if args ! 0 = ''verify'' then audit_verify
      else if args ! 0 = ''export'' then
        (if length args < 2 then die ''audit export: <outdir> required'' else runAuditExport (args ! 1))
      else if args ! 0 = ''bundle'' then
        runAuditBundle bin (if 2 \<le> length args then args ! 1 else ''soc2-evidence.tar.gz'')
      else if args ! 0 = ''history'' then
        runAuditHistory (history_count args)
      else die (''unknown audit subcommand: '' @ args ! 0))"

end
