(* ===== verification/Cli_Snapshot.thy ===== *)
theory Cli_Snapshot
  imports Cli_Audit
begin

text \<open>
  The commands \<^verbatim>\<open>about\<close>, \<^verbatim>\<open>snapshot\<close> and \<^verbatim>\<open>fs\<close> of \<^verbatim>\<open>cmd/emilyos/main.go\<close>, which write and read policy
  snapshots.
\<close>

section \<open>About\<close>

definition runAbout :: "binary \<Rightarrow> unit cli" where
  "runAbout bin =
     bnd (fmt_Print (''emilyos '' @ bversion bin @ [newline])) (\<lambda>_.
     bnd (fmt_Print (''  commit:  '' @ buildCommit bin @ [newline])) (\<lambda>_.
     bnd (fmt_Print (''  built:   '' @ buildDate bin @ [newline])) (\<lambda>_.
     bnd (ask posturePath) (\<lambda>pp. bnd (call (posture_New pp)) (\<lambda>r.
     bnd (case r of Inl _ \<Rightarrow> ret () | Inr pm \<Rightarrow> fmt_Print (''  posture: '' @ Current pm @ [newline])) (\<lambda>_.
     bnd (ask snapshotPath) (\<lambda>sp. bnd (call (NewSnapshotStore sp)) (\<lambda>ss.
     bnd (latest_or_nil ss) (\<lambda>latest.
     case latest of
       Some x \<Rightarrow> fmt_Print (''  policy:  snapshot '' @ SnapshotID x @ '' ('' @ format_DateTime (CreatedAt x) @ '' UTC)'' @ [newline])
     | None \<Rightarrow> fmt_Print (''  policy:  no snapshot on disk'' @ [newline]))))))))))"

section \<open>Capturing a snapshot\<close>

text \<open>The roles with their capabilities, each list in the order in which Go ranges over the map.\<close>

definition capturePolicyRoles :: "binary \<Rightarrow> os \<Rightarrow> gomap" where
  "capturePolicyRoles bin s =
     sort_key fst (map (\<lambda>role. (role, ASlice (map AStr (map_order bin (ticks s) (map fst (CapsForRole role)))))) AllRoles)"

definition previous_id :: "snapshotStore \<Rightarrow> string cli" where
  "previous_id ss =
     bnd (latest_or_nil (Inr ss)) (\<lambda>latest. ret (case latest of None \<Rightarrow> [] | Some x \<Rightarrow> SnapshotID x))"

text \<open>A snapshot as \<^verbatim>\<open>snapshot capture\<close> and \<^verbatim>\<open>fs\<close> fill it in; the two clock readings are in this order.\<close>

definition new_snapshot :: "binary \<Rightarrow> snapshotStore \<Rightarrow> vcontext \<Rightarrow> snapshot cli" where
  "new_snapshot bin ss ctx =
     bnd (previous_id ss) (\<lambda>prevID.
     bnd (call NewSnapshotID) (\<lambda>newID.
     bnd (call time_Now) (\<lambda>now.
     ret (zero_snapshot\<lparr>SnapshotID := newID, CreatedAt := now, SActorID := VActorID ctx,
       GitCommit := buildCommit bin, BuildID := bversion bin @ ''+'' @ buildDate bin, PrevSnapshotID := prevID\<rparr>))))"

definition snapshot_capture :: "binary \<Rightarrow> snapshotStore \<Rightarrow> unit cli" where
  "snapshot_capture bin ss =
     bnd callerContext (\<lambda>ctx.
     bnd (new_snapshot bin ss ctx) (\<lambda>snap0.
     bnd (ask (capturePolicyRoles bin)) (\<lambda>roles.
     bnd (call_method (Write ss (snap0\<lparr>Roles := Some roles\<rparr>))) (\<lambda>(err, snap).
     case err of Some e \<Rightarrow> die (''write snapshot: '' @ Error e)
     | None \<Rightarrow>
         bnd (slice_to (SHash snap) 16) (\<lambda>h.
         fmt_Print (''snapshot captured: '' @ SnapshotID snap @ '' (hash='' @ h @ '')'' @ [newline]))))))"

definition snapshot_list :: "unit cli" where
  "snapshot_list =
     bnd (ask snapshotPath) (\<lambda>sp. bnd (call (os_ReadDir sp)) (\<lambda>r.
     case r of
       Inl err \<Rightarrow> if errors_Is_NotExist err then fmt_Println ''no snapshots yet'' else die (''list: '' @ Error err)
     | Inr entries \<Rightarrow> print_lines (map fst (filter (\<lambda>(name, isDir). \<not> isDir) entries))))"

definition snapshot_show :: "snapshotStore \<Rightarrow> string \<Rightarrow> unit cli" where
  "snapshot_show ss snapshotID =
     bnd (call (Get ss snapshotID)) (\<lambda>r.
     case r of
       Inl err \<Rightarrow> die (''get: '' @ Error err)
     | Inr snap \<Rightarrow> fmt_Println (marshal_or_nil (marshal_snapshot snap)))"

section \<open>Rolling back\<close>

definition rollback_dispatch :: "snapshot \<Rightarrow> string \<Rightarrow> logger \<Rightarrow> unit cli" where
  "rollback_dispatch snap targetID log =
     bnd (ask posturePath) (\<lambda>pp. bnd (call (posture_New pp)) (\<lambda>pr.
     case pr of Inl err \<Rightarrow> die (''posture: '' @ Error err)
     | Inr pm \<Rightarrow>
     bnd callerContext (\<lambda>ctx.
     bnd (call_method (Dispatch ctx ''POLICY_ROLLBACK'' (''snapshot:'' @ targetID)
       (Some [(''actor_role'', AStr (VRole ctx)), (''snap_hash'', AStr (SHash snap)), (''snapshot_id'', AStr targetID)])
       (Register ''POLICY_ROLLBACK'' CapPolicyWrite nil_handler (verb_New log pm)))) (\<lambda>(dispErr, d).
     case dispErr of
       Some e \<Rightarrow>
         if IsDenied dispErr then die (''rollback denied: '' @ Error e) else die (''rollback error: '' @ Error e)
     | None \<Rightarrow>
     bnd (fmt_Print (''POLICY_ROLLBACK dispatched.'' @ [newline])) (\<lambda>_.
     bnd (fmt_Print (''  snapshot: '' @ targetID @ [newline])) (\<lambda>_.
     bnd (slice_to (SHash snap) 24) (\<lambda>h.
     bnd (fmt_Print (''  hash:     '' @ h @ [newline])) (\<lambda>_.
     bnd (fmt_Print (''  actor:    '' @ VActorID ctx @ '' ('' @ VRole ctx @ '')'' @ [newline])) (\<lambda>_.
     fmt_Print (''  Note: redeployment required to apply code-level policy changes from this snapshot.'' @ [newline]))))))))))"

definition runSnapshotRollback :: "snapshotStore \<Rightarrow> string \<Rightarrow> unit cli" where
  "runSnapshotRollback ss targetID =
     bnd (call (Get ss targetID)) (\<lambda>r.
     case r of
       Inl err \<Rightarrow> die (''rollback: cannot load snapshot '' @ fmt_q targetID @ '': '' @ Error err)
     | Inr snap \<Rightarrow>
         let expected = ComputeSnapshotHash snap in
         if SHash snap \<noteq> expected then
           bnd (slice_to (SHash snap) 16) (\<lambda>stored.
           bnd (slice_to expected 16) (\<lambda>computed.
           die (''rollback: snapshot '' @ fmt_q targetID @ '' hash mismatch '' @ em_dash @ '' tampered or corrupt (stored='' @
             stored @ '' computed='' @ computed @ '')'')))
         else
           bnd (ask auditPath) (\<lambda>ap. bnd (call (Open ap)) (\<lambda>lr.
           case lr of Inl err \<Rightarrow> die (''audit log: '' @ Error err)
           | Inr log \<Rightarrow> defer_call (Close log) (rollback_dispatch snap targetID log))))"

definition runSnapshot :: "binary \<Rightarrow> string list \<Rightarrow> unit cli" where
  "runSnapshot bin args =
     (if args = [] then die ''usage: emilyos snapshot capture|list|show <id>''
      else
        bnd (ask snapshotPath) (\<lambda>sp. bnd (call (NewSnapshotStore sp)) (\<lambda>r.
        case r of Inl err \<Rightarrow> die (''snapshot store: '' @ Error err)
        | Inr ss \<Rightarrow>
            if args ! 0 = ''capture'' then snapshot_capture bin ss
            else if args ! 0 = ''list'' then snapshot_list
            else if args ! 0 = ''show'' then
              (if length args < 2 then die ''snapshot show: <id> required'' else snapshot_show ss (args ! 1))
            else if args ! 0 = ''rollback'' then
              (if length args < 2 then die ''snapshot rollback: <snapshot-id> required''
               else runSnapshotRollback ss (args ! 1))
            else die (''unknown snapshot subcommand: '' @ args ! 0))))"

section \<open>Access to files\<close>

datatype fs_verb = FsVerb (fs_name: string) (fs_cap: string)
  (fs_action: "runner \<Rightarrow> string \<Rightarrow> string \<Rightarrow> os \<Rightarrow> go_error option \<times> os")

definition fs_verb_of :: "string \<Rightarrow> fs_verb option" where
  "fs_verb_of sub =
     (if sub = ''grant'' then Some (FsVerb ''GRANT_FS'' CapFsGrant TriggerGrant)
      else if sub = ''revoke'' then Some (FsVerb ''REVOKE_FS'' CapFsRevoke TriggerRevoke)
      else None)"

definition fs_handler :: "binary \<Rightarrow> fs_verb \<Rightarrow> string \<Rightarrow> string \<Rightarrow> handler" where
  "fs_handler bin v identity p ctx objectRef meta s =
     (case fs_action v (setfacl bin) identity p s of (err, s1) \<Rightarrow> (err, meta, s1))"

text \<open>The snapshot that records the change.\<close>

definition fs_record :: "binary \<Rightarrow> snapshotStore \<Rightarrow> vcontext \<Rightarrow> fs_verb \<Rightarrow> string \<Rightarrow> string \<Rightarrow> unit cli" where
  "fs_record bin ss ctx v identity p =
     bnd (new_snapshot bin ss ctx) (\<lambda>snap0.
     bnd (call_method (Write ss (snap0\<lparr>Capabilities :=
       Some [(''identity'', AStr identity), (''path'', AStr p), (''verb'', AStr (fs_name v))]\<rparr>))) (\<lambda>(err, snap).
     case err of Some e \<Rightarrow> die (''write snapshot: '' @ Error e)
     | None \<Rightarrow>
     bnd (fmt_Print (fs_name v @ '' dispatched.'' @ [newline])) (\<lambda>_.
     bnd (fmt_Print (''  identity: '' @ identity @ [newline])) (\<lambda>_.
     bnd (fmt_Print (''  path:     '' @ p @ [newline])) (\<lambda>_.
     bnd (fmt_Print (''  actor:    '' @ VActorID ctx @ '' ('' @ VRole ctx @ '')'' @ [newline])) (\<lambda>_.
     bnd (slice_to (SHash snap) 16) (\<lambda>h.
     fmt_Print (''  snapshot: '' @ SnapshotID snap @ '' (hash='' @ h @ '')'' @ [newline]))))))))"

definition fs_dispatch :: "binary \<Rightarrow> string \<Rightarrow> string \<Rightarrow> string \<Rightarrow> logger \<Rightarrow> unit cli" where
  "fs_dispatch bin sub identity p log =
     bnd (ask posturePath) (\<lambda>pp. bnd (call (posture_New pp)) (\<lambda>pr.
     case pr of Inl err \<Rightarrow> die (''posture: '' @ Error err)
     | Inr pm \<Rightarrow>
     bnd (ask snapshotPath) (\<lambda>sp. bnd (call (NewSnapshotStore sp)) (\<lambda>sr.
     case sr of Inl err \<Rightarrow> die (''snapshot store: '' @ Error err)
     | Inr ss \<Rightarrow>
     case fs_verb_of sub of
       None \<Rightarrow> die (''unknown fs subcommand: '' @ sub @ '' (want grant|revoke)'')
     | Some v \<Rightarrow>
     bnd callerContext (\<lambda>ctx.
     bnd (call_method (Dispatch ctx (fs_name v) (''fs:'' @ p)
       (Some [(''actor_role'', AStr (VRole ctx)), (''identity'', AStr identity), (''path'', AStr p)])
       (Register (fs_name v) (fs_cap v) (fs_handler bin v identity p) (verb_New log pm)))) (\<lambda>(dispErr, d).
     case dispErr of
       Some e \<Rightarrow>
         if IsDenied dispErr then die (fs_name v @ '' denied: '' @ Error e) else die (fs_name v @ '' error: '' @ Error e)
     | None \<Rightarrow> fs_record bin ss ctx v identity p))))))"

definition runFs :: "binary \<Rightarrow> string list \<Rightarrow> unit cli" where
  "runFs bin args =
     (if length args < 3 then die (''fs '' @ firstOr args ''?'' @ '': <identity> <path> required'')
      else
        bnd (ask auditPath) (\<lambda>ap. bnd (call (Open ap)) (\<lambda>lr.
        case lr of Inl err \<Rightarrow> die (''audit log: '' @ Error err)
        | Inr log \<Rightarrow> defer_call (Close log) (fs_dispatch bin (args ! 0) (args ! 1) (args ! 2) log))))"

end
