(* ===== verification/Cli_Main.thy ===== *)
theory Cli_Main
  imports Cli_Verb Cli_Snapshot
begin

text \<open>The entry point of \<^verbatim>\<open>cmd/emilyos/main.go\<close>.\<close>

section \<open>Usage and flags\<close>

definition usage_lines :: "string list" where
  "usage_lines =
     [''emilyos - EmilyOS policy kernel'',
      [],
      ''Commands:'',
      ''  posture get                    print current posture state'',
      ''  posture set <state>            transition posture (admin only)'',
      ''  verb dispatch <verb> <object>  dispatch a verb'',
      ''  audit tail [-n N]              print last N audit events (default 10)'',
      ''  audit verify                   verify audit chain integrity'',
      [],
      ''Flags:'',
      ''  --version   print version and exit'',
      [],
      ''Environment:'',
      ''  EMILY_ACTOR_ID     identity (default: $USER)'',
      ''  EMILY_SESSION_ID   session id (default: pid)'',
      ''  EMILY_DEVICE_ID    device (default: hostname)'',
      ''  EMILY_ROLE         operator|admin|auditor (default: operator)'',
      ''  EMILY_POSTURE_PATH path to posture.json (default: var/posture.json)'',
      ''  EMILY_AUDIT_PATH   path to audit.jsonl (default: var/audit.jsonl)'']"

definition usage :: "unit cli" where
  "usage = fmt_Eprint (concat (map (\<lambda>l. l @ [newline]) usage_lines))"

definition main_flags :: flag_set where
  "main_flags = [(''version'', BoolFlag False)]"

definition run_command :: "binary \<Rightarrow> string list \<Rightarrow> unit cli" where
  "run_command bin args =
     (if args ! 0 = ''posture'' then runPosture (tl args)
      else if args ! 0 = ''verb'' then runVerb (tl args)
      else if args ! 0 = ''audit'' then runAudit bin (tl args)
      else if args ! 0 = ''about'' then runAbout bin
      else if args ! 0 = ''snapshot'' then runSnapshot bin (tl args)
      else if args ! 0 = ''fs'' then runFs bin (tl args)
      else bnd (fmt_Eprint (''unknown command: '' @ args ! 0 @ [newline])) (\<lambda>_. andthen usage (os_Exit 1)))"

text \<open>The arguments are \<^verbatim>\<open>os.Args[1:]\<close>.\<close>

definition main :: "binary \<Rightarrow> string list \<Rightarrow> unit cli" where
  "main bin argv =
     (case flag_parse main_flags argv of
        FlagsHelp \<Rightarrow> andthen usage (os_Exit 0)
      | FlagsError msg \<Rightarrow> bnd (fmt_Eprint (msg @ [newline])) (\<lambda>_. andthen usage (os_Exit 2))
      | FlagsParsed fs args \<Rightarrow>
          if map_of fs ''version'' = Some (BoolFlag True)
          then andthen (fmt_Print (''emilyos '' @ bversion bin @ [newline])) (os_Exit 0)
          else if args = [] then andthen usage (os_Exit 1)
          else run_command bin args)"

text \<open>The arguments that are left when the flags are parsed.\<close>

definition arguments :: "string list \<Rightarrow> string list" where
  "arguments argv = (case flag_parse main_flags argv of FlagsParsed fs args \<Rightarrow> args | _ \<Rightarrow> [])"

lemma main_command:
  "main bin (''posture'' # args) = runPosture args" "main bin (''verb'' # args) = runVerb args"
  "main bin (''audit'' # args) = runAudit bin args" "main bin (''snapshot'' # args) = runSnapshot bin args"
  "main bin (''fs'' # args) = runFs bin args"
  by (simp_all add: main_def flag_parse_plain main_flags_def run_command_def)

text \<open>The names of the exported files are single elements of a path.\<close>

lemma export_plain: "plain_elem ''audit.jsonl''" "plain_elem ''manifest.json''"
  by code_simp+

section \<open>A machine to try the program on\<close>

definition demo_os :: "string \<Rightarrow> os" where
  "demo_os role = fresh_os\<lparr>env := [(''USER'', ''eo''), (''EMILY_ROLE'', role)]\<rparr>"

lemma demo_paths:
  "auditPath (demo_os role) = ''var/audit.jsonl''" "posturePath (demo_os role) = ''var/posture.json''"
  "snapshotPath (demo_os role) = ''var/snapshots''"
  by (simp_all add: auditPath_def posturePath_def snapshotPath_def getenvOr_def os_Getenv_def demo_os_def)

definition demo_binary :: binary where
  "demo_binary = \<lparr>bversion = ''dev'', buildCommit = ''unknown'', buildDate = ''unknown'', setfacl = (\<lambda>h c. None),
     map_order = (\<lambda>n xs. xs), tar_header = (\<lambda>es e. [tname e]), tar_data = (\<lambda>es e. [tdata e]), tar_close = (\<lambda>es. [])\<rparr>"

lemma demo_arguments:
  "arguments [''verb'', ''dispatch'', ''EXEC'', ''x''] = [''verb'', ''dispatch'', ''EXEC'', ''x'']"
  "arguments [''posture'', ''set'', ''SIEGE''] = [''posture'', ''set'', ''SIEGE'']"
  "arguments [''audit'', ''verify''] = [''audit'', ''verify'']"
  "arguments [''fs'', ''grant'', ''bob'', ''/srv''] = [''fs'', ''grant'', ''bob'', ''/srv'']"
  by code_simp+

end
