(* ===== verification/Cli_Frame.thy ===== *)
theory Cli_Frame
  imports Cli_Main
begin

text \<open>
  What a command may change. Each call of the operating system is classified once: those that
  change no file, run no program and leave the environment alone, those that append to a file,
  those that write one, and those that run a program. The locale \<open>command_frame\<close> lifts a relation between the
  states before and after, which the permitted kinds of calls respect, to whole commands.
  Nothing here assumes that calls succeed: the faults are arbitrary.
\<close>

section \<open>Calls that change no file\<close>

definition io_only :: "os \<Rightarrow> os \<Rightarrow> bool" where
  "io_only s s' \<longleftrightarrow> files s' = files s \<and> execs s' = execs s \<and> env s' = env s"

named_theorems frame "facts that classify calls and commands by what they change"

lemma io_only_refl [simp]: "io_only s s"
  by (simp add: io_only_def)

lemma io_only_trans: "io_only s t \<Longrightarrow> io_only t u \<Longrightarrow> io_only s u"
  by (simp add: io_only_def)

lemma io_only_update [simp]:
  "io_only s (s\<lparr>faults := f\<rparr>)" "io_only s (s\<lparr>ticks := n\<rparr>)" "io_only s (s\<lparr>dirs := ds\<rparr>)"
  "io_only s (s\<lparr>stdout := t\<rparr>)" "io_only s (s\<lparr>stderr := t\<rparr>)"
  by (simp_all add: io_only_def)

lemma io_take_fault: "take_fault s = (f, s') \<Longrightarrow> io_only s s'"
  by (drule take_fault_frame) simp

lemma io_os_ReadFile [frame]: "io_only s (snd (os_ReadFile p s))"
  using os_ReadFile_frame [of p s] by (cases "os_ReadFile p s") simp

lemma io_os_MkdirAll [frame]: "io_only s (snd (os_MkdirAll p s))"
  by (auto simp: os_MkdirAll_def io_only_def split: prod.splits option.splits dest!: take_fault_frame)

lemma io_os_ReadDir [frame]: "io_only s (snd (os_ReadDir p s))"
  by (auto simp: os_ReadDir_def split: prod.splits option.splits dest!: take_fault_frame)

lemma io_os_Open [frame]: "io_only s (snd (os_Open p s))"
  by (auto simp: os_Open_def split: prod.splits option.splits dest!: take_fault_frame)

lemma io_time_Now [frame]: "io_only s (snd (time_Now s))"
  by (simp add: time_Now_def)

lemma io_file_Sync [frame]: "io_only s (snd (file_Sync p s))"
  by (auto simp: file_Sync_def split: prod.splits option.splits dest!: take_fault_frame)

lemma io_file_Close [frame]: "io_only s (snd (file_Close p s))"
  by (auto simp: file_Close_def split: prod.splits option.splits dest!: take_fault_frame)

lemma io_case:
  "io_only s (snd (f s)) \<Longrightarrow> (\<And>x s1. io_only s s1 \<Longrightarrow> io_only s (snd (g x s1))) \<Longrightarrow>
   io_only s (snd (case f s of (x, s1) \<Rightarrow> g x s1))"
  by (cases "f s") simp

lemma io_ReadFile [frame]: "io_only s (snd (ReadFile p s))"
  unfolding ReadFile_def by (rule io_case [OF io_os_ReadFile]) (auto split: sum.splits option.splits)

lemma io_VerifyChain [frame]: "io_only s (snd (VerifyChain p s))"
  unfolding VerifyChain_def by (rule io_case [OF io_ReadFile]) (auto split: sum.splits)

lemma io_Close [frame]: "io_only s (snd (Close l s))"
  unfolding Close_def
  by (rule io_case [OF io_file_Sync]) (auto split: option.splits intro: io_only_trans io_file_Close)

lemma io_posture_New [frame]: "io_only s (snd (posture_New p s))"
  unfolding posture_New_def Let_def by (rule io_case [OF io_os_ReadFile]) (auto split: sum.splits option.splits)

lemma io_NewSnapshotStore [frame]: "io_only s (snd (NewSnapshotStore p s))"
  unfolding NewSnapshotStore_def by (rule io_case [OF io_os_MkdirAll]) (auto split: option.splits)

lemma io_Get [frame]: "io_only s (snd (Get st k s))"
  unfolding Get_def by (rule io_case [OF io_os_ReadFile]) (auto split: sum.splits option.splits)

lemma io_Latest [frame]: "io_only s (snd (Latest st s))"
proof -
  have "io_only s (snd (case Get st k s1 of (Inl err, s2) \<Rightarrow> (Inl err, s2) | (Inr snap, s2) \<Rightarrow> (Inr (Some snap), s2)))"
    if "io_only s s1" for k s1
    using io_only_trans [OF that io_Get [of s1 st k]] by (cases "Get st k s1") (auto split: sum.splits)
  then show ?thesis
    unfolding Latest_def Let_def by (intro io_case [OF io_os_ReadDir]) (auto split: sum.splits)
qed

lemma io_NewSnapshotID [frame]: "io_only s (snd (NewSnapshotID s))"
  by (simp add: NewSnapshotID_def time_Now_def)

lemma io_callerContext [frame]: "io_only s (snd (callerContext s))"
  by (simp add: callerContext_eq io_only_def)

section \<open>The environment\<close>

definition same_env :: "os \<Rightarrow> os \<Rightarrow> bool" where
  "same_env s s' \<longleftrightarrow> env s' = env s"

lemma same_env_paths:
  assumes "same_env s s'"
  shows "posturePath s' = posturePath s" "auditPath s' = auditPath s" "snapshotPath s' = snapshotPath s"
    "caller_role s' = caller_role s" "capForVerb v s' = capForVerb v s"
proof -
  have "os_Getenv k s' = os_Getenv k s" "getenvOr k d s' = getenvOr k d s" for k d
    using assms by (simp_all add: same_env_def os_Getenv_def getenvOr_def)
  then show "posturePath s' = posturePath s" "auditPath s' = auditPath s" "snapshotPath s' = snapshotPath s"
    "caller_role s' = caller_role s" "capForVerb v s' = capForVerb v s"
    by (simp_all only: posturePath_def auditPath_def snapshotPath_def caller_role_def capForVerb_def)
qed

section \<open>What the constructors return\<close>

lemma Open_lf: "Open p s = (Inr l, s') \<Longrightarrow> lf l = p"
  by (auto simp: Open_def Let_def split: prod.splits option.splits sum.splits if_splits)

lemma NewSnapshotStore_sdir: "NewSnapshotStore p s = (Inr st, s') \<Longrightarrow> sdir st = p"
  by (auto simp: NewSnapshotStore_def split: prod.splits option.splits)

lemma Dispatch_lf: "Dispatch ctx v obj meta d s = (r, d', s') \<Longrightarrow> lf (dlog d') = lf (dlog d)"
  using Dispatch_static by blast

text \<open>The files that \<^verbatim>\<open>NewSnapshotID\<close> names in a directory.\<close>

definition stamp_file :: "string \<Rightarrow> gotime \<Rightarrow> string" where
  "stamp_file dir t = filepath_Join dir ((''snap-'' @ format_stamp t) @ ''.json'')"

lemma new_snapshot_id:
  "new_snapshot bin ss ctx s = (Done x, s') \<Longrightarrow> \<exists>t. SnapshotID x = ''snap-'' @ format_stamp t"
  by (auto simp: new_snapshot_def NewSnapshotID_def time_Now_def bnd_def call_def ret_def
      split: prod.splits outcome.splits)

text \<open>The actions behind the \<^verbatim>\<open>fs\<close> verbs run programs and do nothing else; they are the administrator's.\<close>

lemma trigger_execs_only:
  "\<exists>xs. snd (TriggerGrant run i p s) = s\<lparr>execs := xs\<rparr>" "\<exists>xs. snd (TriggerRevoke run i p s) = s\<lparr>execs := xs\<rparr>"
proof -
  have g: "\<exists>xs. snd (Grant run i p s) = s\<lparr>execs := xs\<rparr>" "\<exists>xs. snd (Revoke run i p s) = s\<lparr>execs := xs\<rparr>" for run i p s
    using grant.runs_only_own [of run i p s] revoke.runs_only_own [of run i p s] by (metis prod.collapse)+
  show "\<exists>xs. snd (TriggerGrant run i p s) = s\<lparr>execs := xs\<rparr>"
    using g(1) [of run "c_string i" "c_string p" s] g(1) [of run i p "snd (Grant run (c_string i) (c_string p) s)"]
    by (auto simp: grant.trigger_eq split: prod.splits)
  show "\<exists>xs. snd (TriggerRevoke run i p s) = s\<lparr>execs := xs\<rparr>"
    using g(2) [of run "c_string i" "c_string p" s] g(2) [of run i p "snd (Revoke run (c_string i) (c_string p) s)"]
    by (auto simp: revoke.trigger_eq split: prod.splits)
qed

lemma fs_verb_cases:
  assumes "fs_verb_of sub = Some v"
  shows "HasCapability r (fs_cap v) \<longleftrightarrow> r = RoleAdmin" "\<exists>xs. snd (fs_action v run i p s) = s\<lparr>execs := xs\<rparr>"
proof -
  have "fs_cap v \<in> {CapFsGrant, CapFsRevoke}" "fs_action v \<in> {TriggerGrant, TriggerRevoke}"
    using assms by (auto simp: fs_verb_of_def split: if_splits)
  then show "HasCapability r (fs_cap v) \<longleftrightarrow> r = RoleAdmin" "\<exists>xs. snd (fs_action v run i p s) = s\<lparr>execs := xs\<rparr>"
    using trigger_execs_only
    by (subst HasCapability_roles, auto simp: HasCapability_operator HasCapability_auditor HasCapability_admin cap_defs)
qed

section \<open>Frames\<close>

text \<open>\<open>framed s0 R m\<close>: run in the environment of \<open>s0\<close>, \<open>m\<close> relates the states before and after by \<open>R\<close>.\<close>

definition framed :: "os \<Rightarrow> (os \<Rightarrow> os \<Rightarrow> bool) \<Rightarrow> (os \<Rightarrow> 'a \<times> os) \<Rightarrow> bool" where
  "framed s0 R m \<longleftrightarrow> (\<forall>s. same_env s0 s \<longrightarrow> R s (snd (m s)))"

locale command_frame =
  fixes s0 :: os and R :: "os \<Rightarrow> os \<Rightarrow> bool"
    and may_append may_write :: "string \<Rightarrow> bool" and may_exec :: bool
  assumes R_env: "R s s' \<Longrightarrow> same_env s s'"
    and R_io: "io_only s s' \<Longrightarrow> R s s'"
    and R_trans: "R s t \<Longrightarrow> R t u \<Longrightarrow> R s u"
    and R_append: "may_append p \<Longrightarrow> R s (set_file p (contents s p @ d) s)"
    and R_write: "may_write p \<Longrightarrow> R s (set_file p d s)"
    and R_exec: "may_exec \<Longrightarrow> R s (s\<lparr>execs := xs\<rparr>)"
begin

lemma R_refl [simp]: "R s s"
  by (simp add: R_io)

lemma env_step: "same_env s0 s \<Longrightarrow> R s s' \<Longrightarrow> same_env s0 s'"
  using R_env [of s s'] by (simp add: same_env_def)

subsection \<open>Calls that write\<close>

lemma R_open_file:
  assumes "may_write p \<or> may_append p \<and> create = (\<lambda>d. case d of None \<Rightarrow> [] | Some d \<Rightarrow> d)"
  shows "R s (snd (open_file p create s))"
proof -
  obtain f s1 where t: "take_fault s = (f, s1)" by fastforce
  then have "R s s1" by (intro R_io io_take_fault)
  moreover have "R s1 (set_file p (create (file_at s1 p)) s1)"
    using assms R_write [of p s1] R_append [of p s1 "[]"] by (auto simp: contents_def)
  ultimately show ?thesis
    using t R_trans by (auto simp: open_file_def split: option.splits)
qed

lemma R_file_Write:
  assumes "may_append p \<or> may_write p"
  shows "R s (snd (file_Write p d s))"
proof -
  obtain f s1 where t: "take_fault s = (f, s1)" by fastforce
  then have "R s s1" by (intro R_io io_take_fault)
  moreover have "R s1 (set_file p (contents s1 p @ x) s1)" for x
    using assms R_write [of p s1] R_append [of p s1] by auto
  ultimately have "R s (set_file p (contents s1 p @ x) s1)" for x using R_trans by blast
  then show ?thesis
    using t by (auto simp: file_Write_def contents_def Let_def split: option.splits)
qed

lemma R_then: "R s t \<Longrightarrow> io_only t u \<Longrightarrow> R s u"
  using R_trans R_io by blast

lemma R_os_WriteFile:
  assumes "may_write p"
  shows "R s (snd (os_WriteFile p d s))"
proof -
  obtain e s1 where 1: "os_OpenTrunc p s = (e, s1)" by fastforce
  obtain w s2 where 2: "file_Write p d s1 = (w, s2)" by fastforce
  have "R s s1" using R_open_file [of p "\<lambda>d. []" s] assms 1 by (simp add: os_OpenTrunc_def)
  moreover have "R s1 s2" using R_file_Write [of p s1 d] assms 2 by simp
  ultimately have "R s s1" "R s s2" using R_trans by blast+
  then show ?thesis
    using 1 2 R_then [OF _ io_file_Close [of s2 p]]
    by (auto simp: os_WriteFile_def split: option.splits prod.splits)
qed

lemma R_Log:
  assumes "may_append (lf l)"
  shows "R s (snd (snd (Log e l s)))"
proof -
  obtain now s1 where t: "time_Now s = (now, s1)" by fastforce
  then have 1: "R s s1" using io_time_Now [of s] by (simp add: R_io)
  have 2: "R s (snd (file_Write (lf l) d s1))" for d using R_file_Write [of "lf l"] assms 1 R_trans by blast
  then have "R s (snd (file_Sync (lf l) (snd (file_Write (lf l) d s1))))" for d
    using R_then [OF _ io_file_Sync] by blast
  with 1 2 show ?thesis
    by (auto simp: Log_def t Let_def split: option.splits prod.splits) (metis snd_conv)+
qed

lemma R_Open:
  assumes "may_append p"
  shows "R s (snd (Open p s))"
proof -
  obtain e1 s1 where 1: "os_MkdirAll (filepath_Dir p) s = (e1, s1)" by fastforce
  obtain e2 s2 where 2: "os_OpenAppend p s1 = (e2, s2)" by fastforce
  obtain r s3 where 3: "ReadFile p s2 = (r, s3)" by fastforce
  have "R s s1" using io_os_MkdirAll [of s "filepath_Dir p"] 1 by (simp add: R_io)
  moreover have "R s1 s2" 
    using R_open_file [of p "\<lambda>d. case d of None \<Rightarrow> [] | Some d \<Rightarrow> d" s1] assms 2 by (simp add: os_OpenAppend_def)
  moreover have "R s2 s3" using io_ReadFile [of s2 p] 3 by (simp add: R_io)
  ultimately have "R s s1" "R s s2" "R s s3" using R_trans by blast+
  then show ?thesis
    using 1 2 3 R_then [OF _ io_file_Close [of s3 p]]
    by (auto simp: Open_def Let_def split: option.splits sum.splits)
qed

lemma R_Transition:
  assumes "may_write (mpath m)"
  shows "R s (snd (snd (Transition to a sid m s)))"
proof -
  have "R s (snd (persist a sid m' s))" if "mpath m' = mpath m" for m'
  proof -
    obtain now s1 where t: "time_Now s = (now, s1)" by fastforce
    then have 1: "R s s1" using io_time_Now [of s] by (simp add: R_io)
    then have "R s (snd (os_WriteFile (mpath m') d s1))" for d
      using R_os_WriteFile [of "mpath m'"] assms that R_trans by metis
    with 1 show ?thesis by (simp add: persist_def t split: option.splits)
  qed
  then have "R s (snd (persist a sid (m\<lparr>current := x\<rparr>) s))" for x by simp
  then show ?thesis
    by (auto simp: Transition_def Let_def split: prod.splits option.splits) (metis snd_conv)+
qed

lemma R_Write:
  "may_write (snapshot_file st (SnapshotID x)) \<Longrightarrow> R s (snd (snd (Write st x s)))"
  using R_os_WriteFile [of "snapshot_file st (SnapshotID x)" s]
  by (auto simp: Write_def Let_def split: prod.splits option.splits) (metis snd_conv)+

text \<open>A dispatched action only counts when the role has the capability.\<close>

lemma R_Dispatch:
  assumes "may_append (lf (dlog d))"
    and "\<And>def s. map_of (verbs d) v = Some def \<Longrightarrow> HasCapability (VRole ctx) (capability def) \<Longrightarrow>
      R s (snd (snd (handler def ctx obj meta s)))"
  shows "R s (snd (snd (Dispatch ctx v obj meta d s)))"
proof (cases "refusal ctx v obj d")
  case (Some rc)
  then show ?thesis
    using R_Log [OF assms(1)] by (auto simp: Dispatch_refused deny_with_def Deny_def split: prod.splits) (metis snd_conv)
next
  case None
  then obtain def where def: "map_of (verbs d) v = Some def"
      "Dispatch ctx v obj meta d s = execute ctx v obj meta def d s"
    using Dispatch_allowed by blast
  then have cap: "HasCapability (VRole ctx) (capability def)"
    using None by (auto simp: refusal_def Let_def split: if_splits)
  obtain e l s1 where 1: "Allow (VActorID ctx) (VSessionID ctx) (VDeviceID ctx) v obj ''pending'' meta (dlog d) s = (e, l, s1)"
    by (metis prod_cases3)
  obtain r m s2 where 2: "handler def ctx obj meta s1 = (r, m, s2)" by (metis prod_cases3)
  have a: "R s s1" using R_Log [OF assms(1)] 1 unfolding Allow_def by (metis snd_conv)
  have "R s1 s2" using assms(2) [OF def(1) cap] 2 by (metis snd_conv)
  with a have b: "R s s2" by (rule R_trans)
  have "lf l = lf (dlog d)" using 1 by (rule Allow_lf)
  then have "R s2 (snd (snd (Allow a' b' c' v' o' r' m' l s2)))" for a' b' c' v' o' r' m'
    unfolding Allow_def using R_Log assms(1) by simp
  then have "R s (snd (snd (Allow a' b' c' v' o' r' m' l s2)))" for a' b' c' v' o' r' m'
    using b R_trans by blast
  with a 1 2 show ?thesis
    by (auto simp: def(2) execute_def split: option.splits prod.splits) (metis snd_conv)+
qed

subsection \<open>Composition\<close>

lemma framed_io: "(\<And>s. io_only s (snd (m s))) \<Longrightarrow> framed s0 R m"
  by (simp add: framed_def R_io)

lemma framed_basic [frame]:
  "framed s0 R (ret x)" "framed s0 R (os_Exit c)" "framed s0 R (panic p)" "framed s0 R (fmt_Print t)"
  "framed s0 R (fmt_Eprint t)" "framed s0 R (fmt_Println t)" "framed s0 R (die t)" "framed s0 R (nil_dereference)"
  "framed s0 R (slice_to t n)" "framed s0 R (slice_from xs w)" "framed s0 R (last_rows xs i)"
  by (rule framed_io, simp add: ret_def os_Exit_def panic_def fmt_Print_def fmt_Eprint_def fmt_Println_def die_eq
      nil_dereference_def slice_to_def slice_from_def last_rows_def)+

lemma framed_value:
  assumes "framed s0 R m" and "\<And>x s s'. m s = (Done x, s') \<Longrightarrow> framed s0 R (f x)"
  shows "framed s0 R (bnd m f)"
  unfolding framed_def
proof (intro allI impI)
  fix s assume e: "same_env s0 s"
  obtain r s1 where m: "m s = (r, s1)" by fastforce
  then have 1: "R s s1" using assms(1) e by (auto simp: framed_def)
  show "R s (snd (bnd m f s))"
  proof (cases r)
    case (Done x)
    then have "R s1 (snd (f x s1))" using assms(2) m env_step [OF e 1] by (simp add: framed_def)
    then show ?thesis using R_trans [OF 1] m Done by (simp add: bnd_def)
  qed (use 1 m in \<open>simp_all add: bnd_def\<close>)
qed

lemma framed_bnd: "framed s0 R m \<Longrightarrow> (\<And>x. framed s0 R (f x)) \<Longrightarrow> framed s0 R (bnd m f)"
  by (rule framed_value)

lemma framed_andthen: "framed s0 R m \<Longrightarrow> framed s0 R k \<Longrightarrow> framed s0 R (andthen m k)"
  unfolding andthen_def by (rule framed_bnd)

lemma framed_defer:
  assumes "\<And>s. io_only s (snd (c s))" and "framed s0 R m"
  shows "framed s0 R (defer_call c m)"
  unfolding framed_def
proof (intro allI impI)
  fix s assume "same_env s0 s"
  then have "R s (snd (m s))" using assms(2) by (simp add: framed_def)
  then show "R s (snd (defer_call c m s))"
    using R_then [OF _ assms(1)] by (auto simp: defer_call_def split: prod.splits outcome.splits)
qed

lemma framed_call: "(\<And>s. R s (snd (f s))) \<Longrightarrow> framed s0 R (call f)"
  by (auto simp: framed_def call_def split: prod.splits) (metis snd_conv)

lemma framed_method: "(\<And>s. R s (snd (snd (f s)))) \<Longrightarrow> framed s0 R (call_method f)"
  by (auto simp: framed_def call_method_def split: prod.splits) (metis snd_conv)

lemma framed_call_io: "(\<And>s. io_only s (snd (f s))) \<Longrightarrow> framed s0 R (call f)"
  by (simp add: framed_call R_io)

lemma framed_calls [frame]:
  "framed s0 R (call (ReadFile p))" "framed s0 R (call (VerifyChain p))" "framed s0 R (call (os_ReadFile p))"
  "framed s0 R (call time_Now)" "framed s0 R (call (os_MkdirAll p))" "framed s0 R (call (os_ReadDir p))"
  "framed s0 R (call (posture_New p))" "framed s0 R (call (NewSnapshotStore p))" "framed s0 R (call (Get st k))"
  "framed s0 R (call (Latest st))" "framed s0 R (call NewSnapshotID)" "framed s0 R (call (Close l))"
  by (rule framed_call_io, rule frame)+

lemma framed_path:
  "framed s0 R (f (auditPath s0)) \<Longrightarrow> framed s0 R (bnd (ask auditPath) f)"
  "framed s0 R (f (posturePath s0)) \<Longrightarrow> framed s0 R (bnd (ask posturePath) f)"
  "framed s0 R (f (snapshotPath s0)) \<Longrightarrow> framed s0 R (bnd (ask snapshotPath) f)"
  "framed s0 R (g (capForVerb v s0)) \<Longrightarrow> framed s0 R (bnd (ask (capForVerb v)) g)"
  by (simp_all add: framed_def bnd_ask same_env_paths)

lemma framed_ask: "(\<And>x. framed s0 R (f x)) \<Longrightarrow> framed s0 R (bnd (ask g) f)"
  by (simp add: framed_def bnd_ask)

lemma framed_callerContext:
  assumes "\<And>ctx. VRole ctx = caller_role s0 \<Longrightarrow> framed s0 R (f ctx)"
  shows "framed s0 R (bnd callerContext f)"
  unfolding framed_def
proof (intro allI impI)
  fix s assume e: "same_env s0 s"
  obtain s1 where c: "callerContext s = (Done (caller_context s), s1)" by (simp add: callerContext_eq)
  have 1: "R s s1" using io_callerContext [of s] c by (simp add: R_io)
  have "framed s0 R (f (caller_context s))"
    using assms same_env_paths(4) [OF e] by (simp add: caller_context_def)
  then have "R s1 (snd (f (caller_context s) s1))" using env_step [OF e 1] by (simp add: framed_def)
  then show "R s (snd (bnd callerContext f s))" using R_trans [OF 1] c by (simp add: bnd_def)
qed

lemma framed_Open:
  assumes "may_append p" and "\<And>err. framed s0 R (f (Inl err))" and "\<And>l. lf l = p \<Longrightarrow> framed s0 R (f (Inr l))"
  shows "framed s0 R (bnd (call (Open p)) f)"
proof (rule framed_value)
  show "framed s0 R (call (Open p))" using R_Open [OF assms(1)] by (rule framed_call)
  show "framed s0 R (f x)" if "call (Open p) s = (Done x, s')" for x s s'
    using that assms(2,3) Open_lf by (cases x) (auto simp: call_def split: prod.splits)
qed

lemma framed_posture_New:
  assumes "\<And>err. framed s0 R (f (Inl err))" and "\<And>m. mpath m = p \<Longrightarrow> framed s0 R (f (Inr m))"
  shows "framed s0 R (bnd (call (posture_New p)) f)"
proof (rule framed_value)
  show "framed s0 R (call (posture_New p))" by (rule frame)
  show "framed s0 R (f x)" if "call (posture_New p) s = (Done x, s')" for x s s'
    using that assms posture_New_valid by (cases x) (auto simp: call_def split: prod.splits)
qed

lemma framed_store:
  assumes "\<And>err. framed s0 R (f (Inl err))" and "\<And>st. sdir st = p \<Longrightarrow> framed s0 R (f (Inr st))"
  shows "framed s0 R (bnd (call (NewSnapshotStore p)) f)"
proof (rule framed_value)
  show "framed s0 R (call (NewSnapshotStore p))" by (rule frame)
  show "framed s0 R (f x)" if "call (NewSnapshotStore p) s = (Done x, s')" for x s s'
    using that assms NewSnapshotStore_sdir by (cases x) (auto simp: call_def split: prod.splits)
qed

lemma framed_lines: "framed s0 R (print_lines ts)"
  by (induction ts) (auto intro: framed_bnd frame)

lemmas framed_rules = framed_bnd framed_andthen framed_path framed_posture_New framed_store framed_callerContext
  framed_defer framed_lines frame

lemmas framed_open_rules = framed_andthen framed_path framed_posture_New framed_callerContext framed_Open framed_defer frame

subsection \<open>Commands\<close>

lemma frame_posture:
  assumes "args \<noteq> [] \<Longrightarrow> args ! 0 = ''set'' \<Longrightarrow> caller_role s0 = RoleAdmin \<Longrightarrow>
    may_write (posturePath s0) \<and> may_append (auditPath s0)"
  shows "framed s0 R (runPosture args)"
proof -
  have set: "framed s0 R (posture_set t ctx m l)" if "may_write (mpath m)" "may_append (lf l)" for t ctx m l
    using that unfolding posture_set_def
    by (auto simp: Deny_def Allow_def intro!: framed_bnd framed_method R_Transition R_Log frame split: option.splits)
  show ?thesis
    unfolding runPosture_def
    using assms
    by (auto intro!: framed_open_rules set)
qed

lemma framed_Dispatch:
  assumes "may_append (lf l)" and "\<And>s. HasCapability (VRole ctx) cap \<Longrightarrow> R s (snd (snd (h ctx obj meta s)))"
  shows "framed s0 R (call_method (Dispatch ctx v obj meta (Register v cap h (verb_New l pm))))"
  by (intro framed_method R_Dispatch) (use assms in \<open>auto simp: Register_def verb_New_def\<close>)

lemma R_nil_handler: "R s (snd (snd (nil_handler ctx obj meta s)))" and
  R_print_handler: "R s (snd (snd (print_handler v ctx obj meta s)))"
  by (simp_all add: nil_handler_def print_handler_def R_io)

lemma frame_verb:
  assumes "may_append (auditPath s0)"
  shows "framed s0 R (runVerb args)"
proof -
  have "framed s0 R (verb_dispatch v obj l)" if "may_append (lf l)" for v obj l
    unfolding verb_dispatch_def using that
    by (auto intro!: framed_rules framed_Dispatch R_print_handler split: option.splits)
  then show ?thesis
    unfolding runVerb_def using assms by (auto intro!: framed_open_rules)
qed

lemma frame_tail: "framed s0 R (audit_tail args)"
proof -
  have "framed s0 R (tail_count args)"
    unfolding tail_count_def by (auto simp: Let_def intro!: framed_rules split: flag_outcome.splits)
  then show ?thesis
    unfolding audit_tail_def by (auto intro!: framed_rules split: sum.splits)
qed

lemma frame_verify: "framed s0 R audit_verify"
  unfolding audit_verify_def by (auto simp: Let_def intro!: framed_rules split: option.splits)

lemma frame_history: "framed s0 R (runAuditHistory n)"
  unfolding runAuditHistory_def Let_def by (auto intro!: framed_rules split: sum.splits)

lemma R_copyFile:
  assumes "may_write dst"
  shows "R s (snd (copyFile src dst s))"
proof -
  obtain e1 s1 where 1: "os_Open src s = (e1, s1)" by fastforce
  obtain e2 s2 where 2: "os_OpenTrunc dst s1 = (e2, s2)" by fastforce
  obtain e3 s3 where 3: "io_Copy dst src s2 = (e3, s3)" by fastforce
  have "R s s1" using io_os_Open [of s src] 1 by (simp add: R_io)
  moreover have "R s1 s2" using R_open_file [of dst "\<lambda>d. []" s1] assms 2 by (simp add: os_OpenTrunc_def)
  moreover have "R s2 s3"
  proof -
    have "io_only s2 (snd (take_fault s2))" using io_take_fault [of s2] by (cases "take_fault s2") simp
    then have "R s2 (snd (io_Copy dst src s2))"
      using R_file_Write [of dst s2] assms by (simp add: io_Copy_def R_io)
    then show ?thesis using 3 by simp
  qed
  ultimately have r: "R s s1" "R s s2" "R s s3" using R_trans by blast+
  have w: "R s (snd (os_WriteFile dst [] s1))" using R_os_WriteFile [OF assms] r(1) R_trans by blast
  have c: "R s (snd (file_Close src (snd (file_Close dst s3))))" "R s (snd (file_Close src s2))"
    using R_then [OF R_then [OF r(3) io_file_Close] io_file_Close] R_then [OF r(2) io_file_Close] by blast+
  show ?thesis using 1 2 3 r w c by (auto simp: copyFile_def split: option.splits)
qed

lemma frame_export:
  assumes "may_write (filepath_Join out ''audit.jsonl'')" and "may_write (filepath_Join out ''manifest.json'')"
  shows "framed s0 R (runAuditExport out)"
proof -
  have "framed s0 R (chain_warning es)" for es
    unfolding chain_warning_def by (auto intro!: framed_rules split: option.splits)
  then show ?thesis
    unfolding runAuditExport_def write_export_def Let_def using assms
    by (auto intro!: framed_rules framed_call [OF R_copyFile] framed_call [OF R_os_WriteFile] split: option.splits sum.splits)
qed

lemma R_write_chunks: "may_write p \<Longrightarrow> R s (snd (write_chunks p cs s))"
proof (induction cs arbitrary: s)
  case (Cons c cs)
  then have "R s (snd (file_Write p c s))" using R_file_Write [of p s c] by simp
  with Cons R_trans show ?case by (auto split: prod.splits option.splits)
qed simp

lemma framed_tar: "may_write p \<Longrightarrow> framed s0 R (write_tar bin p past fs)"
proof (induction fs arbitrary: past)
  case Nil
  then show ?case by (auto intro!: framed_rules framed_call [OF R_write_chunks])
next
  case (Cons f fs)
  then show ?case
    by (auto simp: Let_def intro!: framed_rules framed_call [OF R_write_chunks] split: option.splits)
qed

lemma framed_latest: "framed s0 R (latest_or_nil ss)"
  unfolding latest_or_nil_def by (auto intro!: framed_rules split: sum.splits)

lemma framed_entries: "framed s0 R (print_entries es)"
  by (induction es) (auto intro!: framed_rules)

lemma frame_bundle:
  assumes "may_append (auditPath s0)" and "may_write out"
  shows "framed s0 R (runAuditBundle bin out)"
proof -
  have w: "framed s0 R (chain_warning es)" for es
    unfolding chain_warning_def by (auto intro!: framed_rules split: option.splits)
  have t: "framed s0 R (call (os_OpenTrunc out))"
    unfolding os_OpenTrunc_def using assms(2) by (intro framed_call R_open_file) simp
  have "framed s0 R (write_bundle bin out es fs ents)" for es fs ents
    unfolding write_bundle_def using assms(2) by (auto intro!: framed_rules framed_tar framed_entries)
  then have "framed s0 R (collect_bundle bin out)"
    unfolding collect_bundle_def Let_def
    by (auto intro!: framed_rules framed_latest w t split: option.splits)
  then have "framed s0 R (bnd (call_method (Dispatch ctx v obj meta (Register v cap nil_handler (verb_New l pm)))) (\<lambda>(dispErr, d).
      bnd (call (Close (dlog d))) (\<lambda>_. case dispErr of
        Some e \<Rightarrow> if IsDenied dispErr then die (''EXPORT_EVIDENCE denied: '' @ Error e) else collect_bundle bin out
      | None \<Rightarrow> collect_bundle bin out)))" if "may_append (lf l)" for ctx v obj meta cap l pm
    using that by (auto intro!: framed_rules framed_Dispatch R_nil_handler split: option.splits)
  then show ?thesis
    unfolding runAuditBundle_def using assms(1) by (auto intro!: framed_open_rules)
qed

lemma frame_audit:
  assumes "args ! 0 = ''bundle'' \<Longrightarrow> may_append (auditPath s0)"
    and "\<And>a f. a \<in> set args \<Longrightarrow> args ! 0 = ''export'' \<Longrightarrow> f \<in> {''audit.jsonl'', ''manifest.json''} \<Longrightarrow> may_write (filepath_Join a f)"
    and "\<And>a. a \<in> set (''soc2-evidence.tar.gz'' # args) \<Longrightarrow> args ! 0 = ''bundle'' \<Longrightarrow> may_write a"
  shows "framed s0 R (runAudit bin args)"
  unfolding runAudit_def
  using assms
  by (auto intro!: frame_tail frame_verify frame_export frame_bundle frame_history framed_rules)

lemma frame_about: "framed s0 R (runAbout bin)"
  unfolding runAbout_def by (auto intro!: framed_rules framed_latest split: sum.splits option.splits)

lemma framed_new_snapshot: "framed s0 R (new_snapshot bin ss ctx)"
  unfolding new_snapshot_def previous_id_def by (auto intro!: framed_rules framed_latest split: option.splits)

lemma framed_stamped:
  assumes "\<And>x t. SnapshotID x = ''snap-'' @ format_stamp t \<Longrightarrow> framed s0 R (f x)"
  shows "framed s0 R (bnd (new_snapshot bin ss ctx) f)"
  using framed_value [OF framed_new_snapshot] new_snapshot_id assms by metis

lemma framed_Write:
  "(\<And>t. may_write (stamp_file (sdir ss) t)) \<Longrightarrow> SnapshotID x = ''snap-'' @ format_stamp t \<Longrightarrow>
   framed s0 R (call_method (Write ss x))"
  by (intro framed_method R_Write) (simp add: snapshot_file_def stamp_file_def)

lemma frame_snapshot:
  assumes "args ! 0 = ''capture'' \<Longrightarrow> (\<And>t. may_write (stamp_file (snapshotPath s0) t))"
    and "args ! 0 = ''rollback'' \<Longrightarrow> may_append (auditPath s0)"
  shows "framed s0 R (runSnapshot bin args)"
proof -
  have capture: "framed s0 R (snapshot_capture bin ss)" if "\<And>t. may_write (stamp_file (sdir ss) t)" for ss
    unfolding snapshot_capture_def
    by (auto intro!: framed_callerContext framed_stamped framed_ask framed_bnd framed_Write [OF that] frame split: option.splits)
  have list: "framed s0 R snapshot_list" and shown: "framed s0 R (snapshot_show ss k)" for ss k
    unfolding snapshot_list_def snapshot_show_def by (auto intro!: framed_rules split: sum.splits)
  have "framed s0 R (rollback_dispatch snap k l)" if "may_append (lf l)" for snap k l
    unfolding rollback_dispatch_def using that
    by (auto intro!: framed_rules framed_Dispatch R_nil_handler split: option.splits)
  then have "framed s0 R (bnd (ask auditPath) (\<lambda>ap. bnd (call (Open ap)) (\<lambda>lr.
      case lr of Inl err \<Rightarrow> die (''audit log: '' @ Error err)
      | Inr log \<Rightarrow> defer_call (Close log) (rollback_dispatch snap k log))))" if "may_append (auditPath s0)" for snap k
    using that by (auto intro!: framed_open_rules)
  then have rollback: "framed s0 R (runSnapshotRollback ss k)" if "may_append (auditPath s0)" for ss k
    unfolding runSnapshotRollback_def Let_def using that by (auto intro!: framed_rules split: sum.splits)
  show ?thesis
    unfolding runSnapshot_def
    by (auto intro!: framed_rules) (use assms capture list shown rollback in auto)
qed

lemma frame_fs:
  assumes "may_append (auditPath s0)" and "\<And>t. may_write (stamp_file (snapshotPath s0) t)"
    and "caller_role s0 = RoleAdmin \<Longrightarrow> may_exec"
  shows "framed s0 R (runFs bin args)"
proof -
  have recorded: "framed s0 R (fs_record bin ss ctx v i p)" if "sdir ss = snapshotPath s0" for ss ctx v i p
    unfolding fs_record_def
    by (auto intro!: framed_stamped framed_bnd framed_Write frame split: option.splits) (use assms(2) that in auto)
  have handler: "R s (snd (snd (fs_handler bin v i p ctx obj meta s)))"
    if "fs_verb_of sub = Some v" "HasCapability (VRole ctx) (fs_cap v)" "VRole ctx = caller_role s0" for sub v i p ctx obj meta s
  proof -
    obtain xs where "snd (snd (fs_handler bin v i p ctx obj meta s)) = s\<lparr>execs := xs\<rparr>"
      using fs_verb_cases(2) [OF \<open>fs_verb_of sub = Some v\<close>, of "setfacl bin" i p s] by (auto simp: fs_handler_def split_def)
    moreover have may_exec using that fs_verb_cases(1) assms(3) by auto
    ultimately show ?thesis using R_exec by simp
  qed
  have "framed s0 R (fs_dispatch bin sub i p l)" if "lf l = auditPath s0" for sub i p l
    unfolding fs_dispatch_def using that assms(1)
    by (auto intro!: framed_rules framed_Dispatch recorded split: option.splits) (use handler in auto)
  then show ?thesis
    unfolding runFs_def using assms(1) by (auto intro!: framed_open_rules)
qed

text \<open>What each command needs to be allowed, for arguments after the flags.\<close>

definition allowed :: "string list \<Rightarrow> bool" where
  "allowed args \<longleftrightarrow>
     (take 2 args = [''posture'', ''set''] \<and> caller_role s0 = RoleAdmin \<longrightarrow> may_write (posturePath s0)) \<and>
     (take 2 args = [''posture'', ''set''] \<and> caller_role s0 = RoleAdmin \<or> take 1 args \<in> {[''verb''], [''fs'']} \<or>
        take 2 args \<in> {[''audit'', ''bundle''], [''snapshot'', ''rollback'']} \<longrightarrow> may_append (auditPath s0)) \<and>
     (take 1 args = [''fs''] \<or> take 2 args = [''snapshot'', ''capture''] \<longrightarrow> (\<forall>t. may_write (stamp_file (snapshotPath s0) t))) \<and>
     (take 2 args = [''audit'', ''export''] \<longrightarrow>
        (\<forall>a\<in>set args. may_write (filepath_Join a ''audit.jsonl'') \<and> may_write (filepath_Join a ''manifest.json''))) \<and>
     (take 2 args = [''audit'', ''bundle''] \<longrightarrow> (\<forall>a\<in>set (''soc2-evidence.tar.gz'' # args). may_write a)) \<and>
     (take 1 args = [''fs''] \<and> caller_role s0 = RoleAdmin \<longrightarrow> may_exec)"

lemma frame_command:
  assumes "allowed args" and "args \<noteq> []"
  shows "framed s0 R (run_command bin args)"
proof -
  obtain cmd rest where args: "args = cmd # rest" using assms(2) by (cases args) auto
  have two: "rest ! 0 = sub \<Longrightarrow> rest \<noteq> [] \<Longrightarrow> take 2 args = [cmd, sub]" for sub
    by (cases rest) (simp_all add: args)
  have "framed s0 R (runPosture rest)" if "cmd = ''posture''"
    using that assms(1) two [of "''set''"] by (intro frame_posture) (simp add: allowed_def)
  moreover have "framed s0 R (runVerb rest)" if "cmd = ''verb''"
    using that assms(1) by (intro frame_verb) (simp add: allowed_def args)
  moreover have "framed s0 R (runAudit bin rest)" if "cmd = ''audit''"
  proof (cases "rest = []")
    case True
    then show ?thesis by (simp add: runAudit_def frame)
  next
    case False
    then show ?thesis
      using that assms(1) two [of "''export''"] two [of "''bundle''"]
      by (intro frame_audit) (auto simp: allowed_def args)
  qed
  moreover have "framed s0 R (runAbout bin)" by (rule frame_about)
  moreover have "framed s0 R (runSnapshot bin rest)" if "cmd = ''snapshot''"
  proof (cases "rest = []")
    case True
    then show ?thesis by (simp add: runSnapshot_def frame)
  next
    case False
    then show ?thesis
      using that assms(1) two [of "''capture''"] two [of "''rollback''"]
      by (intro frame_snapshot) (simp_all add: allowed_def)
  qed
  moreover have "framed s0 R (runFs bin rest)" if "cmd = ''fs''"
    using that assms(1) by (intro frame_fs) (simp_all add: allowed_def args)
  moreover have "framed s0 R usage" unfolding usage_def by (rule frame)
  ultimately show ?thesis
    unfolding run_command_def args by (auto intro!: framed_rules)
qed

lemma frame_main:
  assumes "allowed (arguments argv)"
  shows "framed s0 R (main bin argv)"
proof -
  have "framed s0 R usage" unfolding usage_def by (rule frame)
  then show ?thesis
    unfolding main_def using assms frame_command
    by (auto simp: arguments_def intro!: framed_rules split: flag_outcome.splits)
qed

end

end
