(* ===== verification/Cli_Safety.thy ===== *)
theory Cli_Safety
  imports Cli_Frame "HOL-Library.Sublist"
begin

text \<open>
  Four frames of the command line, each an interpretation of \<open>command_frame\<close>, and what they say of
  every command under every fault: the log is append-only, the posture and the programs are the
  administrator's, looking changes nothing.
\<close>

section \<open>The frames of the program\<close>

definition extends :: "string \<Rightarrow> os \<Rightarrow> os \<Rightarrow> bool" where
  "extends p s s' \<longleftrightarrow> same_env s s' \<and> prefix (contents s p) (contents s' p)"

definition keeps_file :: "string \<Rightarrow> os \<Rightarrow> os \<Rightarrow> bool" where
  "keeps_file p s s' \<longleftrightarrow> same_env s s' \<and> file_at s' p = file_at s p"

definition keeps_execs :: "os \<Rightarrow> os \<Rightarrow> bool" where
  "keeps_execs s s' \<longleftrightarrow> same_env s s' \<and> execs s' = execs s"

lemma io_only_contents: "io_only s s' \<Longrightarrow> file_at s' p = file_at s p \<and> contents s' p = contents s p \<and> same_env s s'"
  by (simp add: io_only_def file_at_def contents_def same_env_def)

lemma same_env_frame [simp]: "same_env s (set_file p d s)" "same_env s (s\<lparr>execs := xs\<rparr>)"
  by (simp_all add: same_env_def)

lemma same_env_trans: "same_env s t \<Longrightarrow> same_env t u \<Longrightarrow> same_env s u"
  by (simp add: same_env_def)

interpretation log_kept: command_frame s0 "extends p" "\<lambda>q. True" "\<lambda>q. \<not> same_path q p" True for s0 p
proof
  show "extends p s s' \<Longrightarrow> same_env s s'" for s s' by (simp add: extends_def)
  show "io_only s s' \<Longrightarrow> extends p s s'" for s s' using io_only_contents [of s s' p] by (simp add: extends_def)
  show "extends p s t \<Longrightarrow> extends p t u \<Longrightarrow> extends p s u" for s t u
    using same_env_trans by (auto simp: extends_def)
  show "extends p s (set_file q (contents s q @ d) s)" for q s d
    using contents_same [of q p s] by (auto simp: extends_def contents_set_file)
qed (simp_all add: extends_def contents_set_file)

interpretation file_kept: command_frame s0 "keeps_file p" "\<lambda>q. \<not> same_path q p" "\<lambda>q. \<not> same_path q p" True for s0 p
proof
  show "io_only s s' \<Longrightarrow> keeps_file p s s'" for s s' using io_only_contents [of s s' p] by (simp add: keeps_file_def)
  show "keeps_file p s t \<Longrightarrow> keeps_file p t u \<Longrightarrow> keeps_file p s u" for s t u
    using same_env_trans by (auto simp: keeps_file_def)
qed (auto simp: keeps_file_def same_path_def)

interpretation execs_kept: command_frame s0 keeps_execs "\<lambda>q. True" "\<lambda>q. True" False for s0
  by unfold_locales (auto simp: keeps_execs_def io_only_def same_env_def)

interpretation read_only: command_frame s0 io_only "\<lambda>q. False" "\<lambda>q. False" False for s0
  by unfold_locales (auto simp: io_only_def same_env_def)

text \<open>
  The paths the user gives are apart from a file: the snapshots are in another directory, and no
  argument names the file or its directory.
\<close>

definition apart :: "string \<Rightarrow> string list \<Rightarrow> os \<Rightarrow> bool" where
  "apart p args s \<longleftrightarrow>
     filepath_Clean (snapshotPath s) \<noteq> filepath_Dir (filepath_Clean p) \<and>
     (\<forall>a\<in>set (''soc2-evidence.tar.gz'' # args). \<not> same_path a p \<and> filepath_Clean a \<noteq> filepath_Dir (filepath_Clean p))"

lemma Join_apart:
  assumes "filepath_Clean d \<noteq> filepath_Dir (filepath_Clean p)" and "plain_elem x" and "d \<noteq> []"
  shows "\<not> same_path (filepath_Join d x) p"
  using assms Dir_Join [OF assms(3,2)] by (auto simp: same_path_def Clean_Join)

lemma stamp_plain: "plain_elem ((''snap-'' @ format_stamp t) @ ''.json'')"
  using digits_fixed_digits [of "CHR ''/''"] dec_digits [of "CHR ''/''"]
  by (auto simp: plain_elem_def format_stamp_def fmt_year_def is_digit_def simp del: digits_fixed.simps)

lemma Join_empty_apart:
  assumes "filepath_Clean [] \<noteq> filepath_Dir (filepath_Clean p)" and "x \<in> {''audit.jsonl'', ''manifest.json''}"
  shows "\<not> same_path (filepath_Join [] x) p"
proof -
  have "filepath_Dir (filepath_Clean (filepath_Join [] x)) = filepath_Clean []"
    using assms(2) by auto code_simp+
  then show ?thesis using assms(1) by (auto simp: same_path_def)
qed

lemma snapshotPath_nonempty: "snapshotPath s \<noteq> []"
  by (simp add: snapshotPath_def getenvOr_def Let_def)

lemma apart_writes:
  assumes "apart p args s"
  shows "\<not> same_path (stamp_file (snapshotPath s) t) p"
    and "a \<in> set args \<Longrightarrow> x \<in> {''audit.jsonl'', ''manifest.json''} \<Longrightarrow> \<not> same_path (filepath_Join a x) p"
    and "a \<in> set (''soc2-evidence.tar.gz'' # args) \<Longrightarrow> \<not> same_path a p"
proof -
  show "\<not> same_path (stamp_file (snapshotPath s) t) p"
    unfolding stamp_file_def using assms by (intro Join_apart stamp_plain snapshotPath_nonempty) (simp add: apart_def)
  show "\<not> same_path (filepath_Join a x) p" if "a \<in> set args" "x \<in> {''audit.jsonl'', ''manifest.json''}"
  proof (cases "a = []")
    case True
    then show ?thesis using assms that Join_empty_apart [of p x] by (simp add: apart_def)
  next
    case False
    have "plain_elem x" using that(2) export_plain by auto
    with False show ?thesis using assms that(1) by (intro Join_apart) (auto simp: apart_def)
  qed
  show "a \<in> set (''soc2-evidence.tar.gz'' # args) \<Longrightarrow> \<not> same_path a p"
    using assms unfolding apart_def by blast
qed

section \<open>Properties\<close>

text \<open>
  C3. The audit log is append-only. No command, with any arguments, whichever calls of the
  operating system fail and however it ends, takes away or changes a byte of the log: what was
  in the file before is a prefix of what is in it after. The posture file and the snapshots must
  be elsewhere, and no argument may name the log or its directory.
\<close>

theorem log_is_append_only:
  assumes "apart (auditPath s) (arguments argv) s" and "\<not> same_path (posturePath s) (auditPath s)"
  shows "prefix (contents s (auditPath s)) (contents (snd (main bin argv s)) (auditPath s))"
proof -
  have "log_kept.allowed s (auditPath s) (arguments argv)"
    using assms(2) apart_writes [OF assms(1)] by (auto simp: log_kept.allowed_def)
  from log_kept.frame_main [OF this] show ?thesis
    by (simp add: framed_def extends_def same_env_def)
qed

lemma demo_clean:
  "filepath_Clean ''var/audit.jsonl'' = ''var/audit.jsonl''" "filepath_Clean ''var/posture.json'' = ''var/posture.json''"
  "filepath_Clean ''var/snapshots'' = ''var/snapshots''" "filepath_Dir ''var/audit.jsonl'' = ''var''"
  "filepath_Dir ''var/posture.json'' = ''var''"
  by code_simp+

lemma demo_clean_args:
  "map filepath_Clean [''soc2-evidence.tar.gz'', ''verb'', ''dispatch'', ''EXEC'', ''x'', ''posture'', ''set'', ''SIEGE''] =
   [''soc2-evidence.tar.gz'', ''verb'', ''dispatch'', ''EXEC'', ''x'', ''posture'', ''set'', ''SIEGE'']"
  by code_simp

lemma demo_apart:
  "apart ''var/audit.jsonl'' [''verb'', ''dispatch'', ''EXEC'', ''x''] (demo_os ''operator'')"
  "apart ''var/posture.json'' [''posture'', ''set'', ''SIEGE''] (demo_os ''operator'')"
  "\<not> same_path ''var/posture.json'' ''var/audit.jsonl''" "\<not> same_path ''var/audit.jsonl'' ''var/posture.json''"
  using demo_clean_args by (simp_all add: apart_def same_path_def demo_clean demo_paths)

theorem log_is_append_only_witness:
  "prefix (contents (demo_os ''operator'') ''var/audit.jsonl'')
     (contents (snd (main demo_binary [''verb'', ''dispatch'', ''EXEC'', ''x''] (demo_os ''operator''))) ''var/audit.jsonl'')"
  using log_is_append_only [of "demo_os ''operator''" "[''verb'', ''dispatch'', ''EXEC'', ''x'']" demo_binary]
  by (simp add: demo_paths demo_arguments demo_apart)



text \<open>
  C14. Programs are run for the administrator only: unless the caller's role is \<^verbatim>\<open>admin\<close> and the
  command is \<^verbatim>\<open>fs\<close>, no command starts a program.
\<close>

theorem programs_need_admin:
  assumes "caller_role s \<noteq> RoleAdmin \<or> take 1 (arguments argv) \<noteq> [''fs'']"
  shows "execs (snd (main bin argv s)) = execs s"
proof -
  have "execs_kept.allowed s (arguments argv)" using assms unfolding execs_kept.allowed_def by blast
  from execs_kept.frame_main [OF this] show ?thesis by (simp add: framed_def keeps_execs_def same_env_def)
qed

theorem programs_need_admin_witness:
  "execs (snd (main demo_binary [''fs'', ''grant'', ''bob'', ''/srv''] (demo_os ''operator''))) = []"
proof -
  have "caller_role (demo_os ''operator'') \<noteq> RoleAdmin" by code_simp
  then show ?thesis
    using programs_need_admin [of "demo_os ''operator''" "[''fs'', ''grant'', ''bob'', ''/srv'']" demo_binary]
    by (simp add: demo_os_def fresh_os_def)
qed

text \<open>
  C30. The commands that only look, among them the verification of the log, change no file and run
  nothing, whichever calls fail.
\<close>

theorem looking_changes_nothing:
  assumes "take 1 (arguments argv) = [''about''] \<or> take 2 (arguments argv) \<in>
    {[''posture'', ''get''], [''audit'', ''tail''], [''audit'', ''verify''], [''audit'', ''history''],
     [''snapshot'', ''list''], [''snapshot'', ''show'']}"
  shows "files (snd (main bin argv s)) = files s \<and> execs (snd (main bin argv s)) = execs s"
proof -
  have "read_only.allowed s (arguments argv)"
    using assms by (cases "arguments argv"; cases "tl (arguments argv)") (auto simp: read_only.allowed_def)
  from read_only.frame_main [OF this] show ?thesis by (simp add: framed_def io_only_def same_env_def)
qed

theorem looking_changes_nothing_witness:
  "files (snd (main demo_binary [''audit'', ''verify''] fresh_os)) = []"
  using looking_changes_nothing [of "[''audit'', ''verify'']" demo_binary fresh_os]
  by (simp add: demo_arguments fresh_os_def)

end
