(* ===== verification/Cli_Exit.thy ===== *)
theory Cli_Exit
  imports Cli_Main
begin

text \<open>
  How a command ends. The process ends normally, with an exit code, or with a panic; \<open>ends E P m\<close>
  bounds the exit codes of \<open>m\<close> by \<open>E\<close> and permits a panic only if \<open>P\<close>.
\<close>

section \<open>Ends\<close>

definition ends :: "int set \<Rightarrow> bool \<Rightarrow> 'a cli \<Rightarrow> bool" where
  "ends E P m \<longleftrightarrow> (\<forall>s. case fst (m s) of Done x \<Rightarrow> True | Exit c \<Rightarrow> c \<in> E | Panic msg \<Rightarrow> P)"

named_theorems ending "how the parts of a command end"

lemma ends_basic [ending]:
  "ends E P (ret x)" "ends E P (call f)" "ends E P (call_method g)" "ends E P (ask h)" "ends E P callerContext"
  "ends E P (fmt_Print t)" "ends E P (fmt_Println t)" "ends E P (fmt_Eprint t)"
  by (simp_all add: ends_def ret_def call_def call_method_def ask_def fmt_Print_def fmt_Println_def fmt_Eprint_def
      callerContext_eq split: prod.splits)

lemma ends_stop [ending]: "c \<in> E \<Longrightarrow> ends E P (os_Exit c)" "1 \<in> E \<Longrightarrow> ends E P (die t)"
  by (simp_all add: ends_def os_Exit_def die_eq)

lemma ends_panic:
  "ends E True (panic t)" "ends E True nil_dereference" "ends E True (slice_to t n)" "ends E True (slice_from xs w)"
  by (simp_all add: ends_def panic_def nil_dereference_def slice_to_def slice_from_def ret_def)

lemma ends_value:
  assumes "ends E P m" and "\<And>x s s'. m s = (Done x, s') \<Longrightarrow> ends E P (f x)"
  shows "ends E P (bnd m f)"
  unfolding ends_def
proof
  fix s
  obtain r s1 where m: "m s = (r, s1)" by fastforce
  show "case fst (bnd m f s) of Done x \<Rightarrow> True | Exit c \<Rightarrow> c \<in> E | Panic msg \<Rightarrow> P"
  proof (cases r)
    case (Done x)
    then show ?thesis using m assms(2) by (simp add: ends_def bnd_def)
  next
    case (Exit c)
    have "c \<in> E" using assms(1) m Exit by (auto simp: ends_def dest: spec [of _ s])
    then show ?thesis using m Exit by (simp add: bnd_def)
  next
    case (Panic msg)
    have P using assms(1) m Panic by (auto simp: ends_def dest: spec [of _ s])
    then show ?thesis using m Panic by (simp add: bnd_def)
  qed
qed

lemma ends_bnd: "ends E P m \<Longrightarrow> (\<And>x. ends E P (f x)) \<Longrightarrow> ends E P (bnd m f)"
  by (rule ends_value)

lemma ends_andthen: "ends E P m \<Longrightarrow> ends E P k \<Longrightarrow> ends E P (andthen m k)"
  unfolding andthen_def by (rule ends_bnd)

lemma ends_defer: "ends E P m \<Longrightarrow> ends E P (defer_call c m)"
  by (auto simp: ends_def defer_call_def split: prod.splits outcome.splits) (metis fst_conv)+

lemma ends_mono: "ends E P m \<Longrightarrow> E \<subseteq> E' \<Longrightarrow> (P \<Longrightarrow> P') \<Longrightarrow> ends E' P' m"
  by (fastforce simp: ends_def split: outcome.splits)

lemma ends_lines [ending]: "ends E P (print_lines ts)"
  by (induction ts) (auto intro: ends_bnd ending)

lemmas ends_rules = ends_bnd ends_andthen ends_defer

lemma ends_Exit: "ends E P m \<Longrightarrow> fst (m s) = Exit c \<Longrightarrow> c \<in> E"
  by (auto simp: ends_def dest: spec [of _ s])

lemma ends_Panic: "ends E P m \<Longrightarrow> fst (m s) = Panic msg \<Longrightarrow> P"
  by (auto simp: ends_def dest: spec [of _ s])

section \<open>Commands\<close>

lemma ends_posture: "ends {1} False (runPosture args)"
  unfolding runPosture_def posture_set_def
  by (auto intro!: ends_rules ending split: sum.splits option.splits)

lemma ends_verb: "ends {1, 2} False (runVerb args)"
  unfolding runVerb_def verb_dispatch_def
  by (auto intro!: ends_rules ending split: sum.splits option.splits)

lemma ends_tail: "ends {0, 1, 2} True (audit_tail args)"
  unfolding audit_tail_def tail_count_def Let_def
  by (auto intro!: ends_rules ending ends_panic split: sum.splits flag_outcome.splits)

lemma ends_verify: "ends {3} False audit_verify"
  unfolding audit_verify_def Let_def by (auto intro!: ends_rules ending split: option.splits)

lemma ends_history: "0 \<le> n \<Longrightarrow> ends {1} False (runAuditHistory n)"
  unfolding runAuditHistory_def Let_def last_rows_def by (auto intro!: ends_rules ending split: sum.splits)

lemma ends_warning [ending]: "ends E P (chain_warning es)"
  unfolding chain_warning_def by (auto intro!: ends_rules ending split: option.splits)

lemma ends_export: "ends {1, 3} False (runAuditExport out)"
  unfolding runAuditExport_def write_export_def Let_def by (auto intro!: ends_rules ending split: option.splits sum.splits)

lemma ends_tar: "1 \<in> E \<Longrightarrow> ends E P (write_tar bin p past fs)"
  by (induction fs arbitrary: past) (auto simp: Let_def intro!: ends_rules ending split: option.splits)

lemma ends_entries: "ends E True (print_entries es)"
  by (induction es) (auto intro!: ends_rules ending ends_panic)

lemma ends_latest: "ends E True (latest_or_nil ss)" "ends E P (latest_or_nil (Inr st))"
  unfolding latest_or_nil_def by (auto intro!: ends_rules ending ends_panic split: sum.splits)

lemma ends_bundle: "ends {1, 3} True (runAuditBundle bin out)"
proof -
  have "ends {1, 3} True (write_bundle bin out es fs ents)" for es fs ents
    unfolding write_bundle_def by (auto intro!: ends_rules ending ends_tar ends_entries)
  then have "ends {1, 3} True (collect_bundle bin out)"
    unfolding collect_bundle_def Let_def
    by (auto intro!: ends_rules ending ends_latest split: option.splits sum.splits)
  then show ?thesis
    unfolding runAuditBundle_def by (auto intro!: ends_rules ending split: option.splits sum.splits)
qed

lemma ends_about: "ends {} True (runAbout bin)"
  unfolding runAbout_def by (auto intro!: ends_rules ending ends_latest split: option.splits sum.splits)

lemma ends_new_snapshot [ending]: "ends E P (new_snapshot bin ss ctx)"
  unfolding new_snapshot_def previous_id_def by (auto intro!: ends_rules ending ends_latest)

text \<open>A snapshot that was written has a hash of 71 characters.\<close>

lemma ends_written:
  assumes "\<And>err snap. length (SHash snap) = 71 \<Longrightarrow> ends E P (f (err, snap))"
  shows "ends E P (bnd (call_method (Write ss x)) f)"
proof (rule ends_value [OF ends_basic(3)])
  fix r s s' assume "call_method (Write ss x) s = (Done r, s')"
  moreover have "length (SHash (fst (snd (Write ss x s)))) = 71"
    by (auto simp: Write_def Let_def computeSnapshotHash_def length_sha256_hex split: option.splits prod.splits)
  ultimately show "ends E P (f r)"
    using assms by (cases r) (auto simp: call_method_def split: prod.splits)
qed

lemma ends_slice: "n \<le> length t \<Longrightarrow> ends E P (slice_to t n)"
  by (simp add: slice_to_def ending)

lemma ends_capture: "ends {1} False (snapshot_capture bin ss)"
  unfolding snapshot_capture_def
  by (intro ends_bnd ends_written) (auto intro!: ends_bnd ends_slice ending split: option.splits)

lemma ends_rollback: "ends {1} True (runSnapshotRollback ss k)"
  unfolding runSnapshotRollback_def rollback_dispatch_def Let_def
  by (auto intro!: ends_rules ending ends_panic split: option.splits sum.splits)

lemma ends_snapshot: "ends {1} (take 1 args = [''rollback'']) (runSnapshot bin args)"
proof -
  have "ends {1} P snapshot_list" "ends {1} P (snapshot_show ss k)" for P ss k
    unfolding snapshot_list_def snapshot_show_def by (auto intro!: ends_rules ending split: sum.splits)
  moreover have "ends {1} (take 1 args = [''rollback'']) (runSnapshotRollback ss k)" if "args ! 0 = ''rollback''" "args \<noteq> []" for ss k
    using ends_rollback that by (cases args) simp_all
  moreover have "ends {1} P (snapshot_capture bin ss)" for P ss
    using ends_mono [OF ends_capture] by blast
  ultimately show ?thesis
    unfolding runSnapshot_def by (auto intro!: ends_rules ending split: sum.splits)
qed

lemma ends_fs: "ends {1} False (runFs bin args)"
proof -
  have "ends {1} False (fs_record bin ss ctx v i p)" for ss ctx v i p
    unfolding fs_record_def
    by (intro ends_bnd ends_written) (auto intro!: ends_bnd ends_slice ending split: option.splits)
  then show ?thesis
    unfolding runFs_def fs_dispatch_def
    by (auto intro!: ends_rules ending split: option.splits sum.splits)
qed

lemma ends_audit:
  "ends {0, 1, 2, 3} (take 1 args \<in> {[''tail''], [''bundle'']}) (runAudit bin args)"
  "take 1 args \<notin> {[''verify''], [''export''], [''bundle'']} \<Longrightarrow> ends {0, 1, 2} True (runAudit bin args)"
  "take 1 args \<noteq> [''tail''] \<Longrightarrow> ends {1, 3} True (runAudit bin args)"
proof -
  have one: "take 1 args = [sub]" if "args ! 0 = sub" "args \<noteq> []" for sub
    using that by (cases args) simp_all
  have h: "ends {1} False (runAuditHistory (history_count args))"
    by (intro ends_history) (simp add: history_count_def split: sum.splits)
  note ends_all = ends_tail ends_verify ends_export ends_bundle h
  show "ends {0, 1, 2, 3} (take 1 args \<in> {[''tail''], [''bundle'']}) (runAudit bin args)"
    unfolding runAudit_def using one by (auto intro!: ending intro: ends_all [THEN ends_mono])
  show "ends {0, 1, 2} True (runAudit bin args)" if "take 1 args \<notin> {[''verify''], [''export''], [''bundle'']}"
    unfolding runAudit_def using one that by (auto intro!: ending intro: ends_all [THEN ends_mono])
  show "ends {1, 3} True (runAudit bin args)" if "take 1 args \<noteq> [''tail'']"
    unfolding runAudit_def using one that by (auto intro!: ending intro: ends_all [THEN ends_mono])
qed

lemma ends_usage [ending]: "ends E P usage"
  unfolding usage_def by (rule ending)

lemma ends_command:
  assumes "1 \<in> E" and "cmd = ''verb'' \<Longrightarrow> 2 \<in> E" and "cmd = ''about'' \<Longrightarrow> P"
    and "cmd = ''audit'' \<Longrightarrow> ends E P (runAudit bin args)" and "cmd = ''snapshot'' \<Longrightarrow> take 1 args = [''rollback''] \<Longrightarrow> P"
  shows "ends E P (run_command bin (cmd # args))"
  unfolding run_command_def
  using assms ends_posture [of args, THEN ends_mono, of E P] ends_verb [of args, THEN ends_mono, of E P]
    ends_about [of bin, THEN ends_mono, of E P] ends_snapshot [of args bin, THEN ends_mono, of E P]
    ends_fs [of bin args, THEN ends_mono, of E P]
  by (auto intro!: ends_rules ending)

lemma ends_main:
  assumes "{0, 1} \<subseteq> E" and "\<And>msg. flag_parse main_flags argv = FlagsError msg \<Longrightarrow> 2 \<in> E"
    and "\<And>cmd args. arguments argv = cmd # args \<Longrightarrow> ends E P (run_command bin (cmd # args))"
  shows "ends E P (main bin argv)"
proof -
  have "ends E P (run_command bin args)" if "flag_parse main_flags argv = FlagsParsed fs args" "args \<noteq> []" for fs args
    using assms(3) that by (cases args) (auto simp: arguments_def)
  then show ?thesis
    unfolding main_def using assms(1,2) by (auto intro!: ends_rules ending split: flag_outcome.splits)
qed

section \<open>Properties\<close>



end
