(* ===== verification/Cli_Results.thy ===== *)
theory Cli_Results
  imports Cli_Main
begin

text \<open>
  What the commands that act do from beginning to end when no call fails: the decision, the
  effect, and the events in the log.
\<close>

section \<open>A session\<close>

definition log_opened :: "os \<Rightarrow> os" where
  "log_opened s = set_file (auditPath s) (contents s (auditPath s)) (made_parent (auditPath s) s)"

text \<open>A file beside the log is not below another file.\<close>

lemma beside_log:
  assumes "filepath_Dir p = filepath_Dir (auditPath s)"
  shows "\<not> below_file (log_opened s) p" "openable (auditPath s) s \<Longrightarrow> \<not> below_file s p"
  using assms dir_exists_made_parent [of "auditPath s" s] openable_not_below [of "auditPath s" s]
  by (simp_all add: log_opened_def below_file_def)

text \<open>
  No call fails; the log holds the events \<open>es\<close> as honest runs left them, the posture file says
  \<open>st\<close> or is absent (and not below another file) in NORMAL, the two are different files, and the caller's names are text.
\<close>

definition session_ready :: "os \<Rightarrow> event list \<Rightarrow> string \<Rightarrow> bool" where
  "session_ready s es st \<longleftrightarrow> quiet s \<and> openable (auditPath s) s \<and>
     contents s (auditPath s) = concat (map event_line es) \<and> honest_log es \<and>
     \<not> same_path (posturePath s) (auditPath s) \<and> \<not> dir_exists (made_parent (auditPath s) s) (posturePath s) \<and>
     (if file_at s (posturePath s) = None then st = Normal \<and> \<not> below_file s (posturePath s) \<and> \<not> below_file (log_opened s) (posturePath s)
      else stored_posture (posturePath s) s = Some st \<and> isValidState st) \<and>
     valid_utf8 (VActorID (caller_context s)) \<and> valid_utf8 (VSessionID (caller_context s)) \<and>
     valid_utf8 (VDeviceID (caller_context s))"

lemma log_opened_frame [simp]:
  "faults (log_opened s) = faults s" "env (log_opened s) = env s" "hostname (log_opened s) = hostname s"
  "pid (log_opened s) = pid s" "stdout (log_opened s) = stdout s" "stderr (log_opened s) = stderr s"
  "execs (log_opened s) = execs s" "quiet (log_opened s) = quiet s" "clock (log_opened s) = clock s"
  by (simp_all add: log_opened_def)

text \<open>The caller's context is a function of the environment, the process and the coming fault.\<close>

lemma caller_context_cong:
  assumes "env s' = env s" and "hostname s' = hostname s" and "pid s' = pid s" and "faults s' = faults s"
  shows "caller_context s' = caller_context s"
proof -
  have "os_Getenv k s' = os_Getenv k s" "getenvOr k d s' = getenvOr k d s" for k d
    using assms(1) by (simp_all add: os_Getenv_def getenvOr_def)
  moreover have "fst (os_Hostname s') = fst (os_Hostname s)"
    using assms by (auto simp: os_Hostname_def take_fault_def split: list.splits option.splits)
  ultimately show ?thesis
    using assms(3) by (simp add: caller_context_def caller_actor_def caller_session_def caller_device_def caller_role_def)
qed

lemma path_cong: "env s' = env s \<Longrightarrow> auditPath s' = auditPath s \<and> posturePath s' = posturePath s \<and> snapshotPath s' = snapshotPath s"
  by (simp add: auditPath_def posturePath_def snapshotPath_def getenvOr_def os_Getenv_def)

lemma capForVerb_cong: "env s' = env s \<Longrightarrow> capForVerb v s' = capForVerb v s"
  by (simp add: capForVerb_def os_Getenv_def)

lemma session_open:
  assumes "session_ready s es st"
  shows "Open (auditPath s) s = (Inr (resume (auditPath s) es), log_opened s)"
    and "log_state (resume (auditPath s) es) (log_opened s) es"
    and "posture_New (posturePath s) (log_opened s) = (Inr \<lparr>current = st, mpath = posturePath s\<rparr>, log_opened s)"
proof -
  have r: "quiet s" "openable (auditPath s) s" "contents s (auditPath s) = concat (map event_line es)" "honest_log es"
    using assms by (auto simp: session_ready_def)
  then have "\<forall>e\<in>set es. storable e" by (simp add: honest_log_def)
  from Open_eq [OF r(1-3) this] show o: "Open (auditPath s) s = (Inr (resume (auditPath s) es), log_opened s)"
    using r(3) by (simp add: log_opened_def)
  show "log_state (resume (auditPath s) es) (log_opened s) es"
    using Open_state [OF r] o by auto
  have f: "file_at (log_opened s) (posturePath s) = file_at s (posturePath s)"
    using assms by (simp add: session_ready_def log_opened_def same_path_def)
  have d: "\<not> dir_exists (log_opened s) (posturePath s)"
    using assms by (simp add: session_ready_def log_opened_def)
  show "posture_New (posturePath s) (log_opened s) = (Inr \<lparr>current = st, mpath = posturePath s\<rparr>, log_opened s)"
  proof (cases "file_at s (posturePath s) = None")
    case True
    with assms f d show ?thesis by (simp add: New_absent session_ready_def)
  next
    case False
    then have "stored_posture (posturePath s) (log_opened s) = Some st" "isValidState st"
      using assms f by (auto simp: session_ready_def stored_posture_def)
    with d r(1) show ?thesis by (intro New_stored) (simp_all add: quiet_def)
  qed
qed

lemma session_state_valid: "session_ready s es st \<Longrightarrow> isValidState st"
  by (auto simp: session_ready_def isValidState_def split: if_splits)

lemma session_New:
  assumes "session_ready s es st"
  shows "posture_New (posturePath s) s = (Inr \<lparr>current = st, mpath = posturePath s\<rparr>, s)"
proof -
  have "\<not> dir_exists s (posturePath s)"
    using assms by (auto simp: session_ready_def dir_exists_def made_parent_def)
  then show ?thesis using assms by (cases "file_at s (posturePath s) = None")
    (auto simp: session_ready_def New_absent quiet_def intro!: New_stored)
qed

section \<open>The decision\<close>

definition decision :: "string \<Rightarrow> string \<Rightarrow> string \<Rightarrow> string \<Rightarrow> string option" where
  "decision role cap st obj =
     (let vd = CapabilityVerdict cap \<lparr>current = st, mpath = []\<rparr> in
      if \<not> HasCapability role cap then Some (''rbac.'' @ cap @ ''.missing'')
      else if vd = ForceOff then Some (''posture.'' @ st @ ''.denied'')
      else if vd = PinnedOnly then Some (''posture.'' @ st @ ''.pinned_only'')
      else if vd = GameDomainOnly \<and> obj \<noteq> ''domain:game'' then Some (''posture.'' @ st @ ''.game_domain_only'')
      else None)"

lemma refusal_decision:
  "refusal ctx v obj (Register v cap h (verb_New l \<lparr>current = st, mpath = p\<rparr>)) = decision (VRole ctx) cap st obj"
  by (simp add: refusal_def decision_def Register_def verb_New_def Let_def CapabilityVerdict_def)

lemma decision_utf8:
  assumes "decision role cap st obj = Some rc" and "valid_utf8 cap" and "isValidState st"
  shows "valid_utf8 rc"
proof -
  have "valid_utf8 st" using assms(3) by (auto simp: isValidState_def state_defs valid_utf8_ascii)
  then have "valid_utf8 (x @ cap @ y)" "valid_utf8 (x @ st @ y)" if "valid_utf8 x" "valid_utf8 y" for x y
    using that assms(2) by (simp_all add: valid_utf8_append)
  then show ?thesis
    using assms(1) by (auto simp: decision_def Let_def valid_utf8_ascii simp del: append.simps split: if_splits)
qed

section \<open>Dispatching a verb\<close>

text \<open>The error that the caller gets, and the events that the request leaves, for the handler's result \<open>r\<close>.\<close>

definition answer :: "string \<Rightarrow> string option \<Rightarrow> go_error option \<Rightarrow> go_error option" where
  "answer v dcn r = (case dcn of Some rc \<Rightarrow> Some (ErrDenied v rc) | None \<Rightarrow> r)"

definition request_trail :: "vcontext \<Rightarrow> string \<Rightarrow> string \<Rightarrow> gomap option \<Rightarrow> string option \<Rightarrow> go_error option \<Rightarrow> event list" where
  "request_trail ctx v obj meta dcn r =
     (case dcn of
        Some rc \<Rightarrow> [deny_event (VActorID ctx) (VSessionID ctx) (VDeviceID ctx) v obj rc meta]
      | None \<Rightarrow> [allow_event (VActorID ctx) (VSessionID ctx) (VDeviceID ctx) v obj ''pending'' meta,
                allow_event (VActorID ctx) (VSessionID ctx) (VDeviceID ctx) v obj (result_text r) meta])"

lemma Log_keeps:
  "stdout (snd (snd (Log e l s))) = stdout s" "execs (snd (snd (Log e l s))) = execs s" "dirs (snd (snd (Log e l s))) = dirs s"
  "env (snd (snd (Log e l s))) = env s" "clock (snd (snd (Log e l s))) = clock s"
  by (auto simp: Log_def time_Now_def Let_def file_Write_def file_Sync_def split: option.splits prod.splits dest!: take_fault_frame)

text \<open>A permitted request on a working log: announced, carried out, its result recorded.\<close>

lemma permitted_execute:
  assumes "log_state (dlog d) s es" and "request_ok (ctx, v, obj, meta) d"
    and "map_of (verbs d) v = Some def" and "refusal ctx v obj d = None"
  shows "\<exists>l1 s1 l2 s3. Allow (VActorID ctx) (VSessionID ctx) (VDeviceID ctx) v obj ''pending'' meta (dlog d) s = (None, l1, s1) \<and>
    (\<exists>e. Allow (VActorID ctx) (VSessionID ctx) (VDeviceID ctx) v obj (result_text (fst (handler def ctx obj meta s1)))
      (map_after meta (fst (snd (handler def ctx obj meta s1)))) l1 (snd (snd (handler def ctx obj meta s1))) = (e, l2, s3)) \<and>
    Dispatch ctx v obj meta d s = (fst (handler def ctx obj meta s1), d\<lparr>dlog := l2\<rparr>, s3)"
proof -
  have "loggable (allow_event (VActorID ctx) (VSessionID ctx) (VDeviceID ctx) v obj ''pending'' meta)"
    using assms(2) by (simp add: request_ok_def loggable_allow valid_utf8_ascii)
  then obtain l1 s1 where a: "Allow (VActorID ctx) (VSessionID ctx) (VDeviceID ctx) v obj ''pending'' meta (dlog d) s = (None, l1, s1)"
    using Allow_log [OF assms(1)] by blast
  have "Dispatch ctx v obj meta d s = execute ctx v obj meta def d s"
    using Dispatch_allowed [OF assms(4), of meta s] assms(3) by auto
  with a show ?thesis
    by (cases "handler def ctx obj meta s1") (auto simp: execute_def result_text_def split: prod.splits option.splits)
qed

lemma dispatch_answer:
  assumes "log_state (dlog d) s es" and "request_ok (ctx, v, obj, meta) d"
    and "map_of (verbs d) v = Some def" and "\<And>t. execs t = execs s \<Longrightarrow> fst (handler def ctx obj meta t) = r"
    and "\<And>t. fst (snd (handler def ctx obj meta t)) = meta"
  shows "\<exists>d' s' fs. Dispatch ctx v obj meta d s = (answer v (refusal ctx v obj d) r, d', s') \<and>
    list_all2 same_entry (request_trail ctx v obj meta (refusal ctx v obj d) r) fs \<and>
    log_state (dlog d') s' (es @ fs) \<and> lf (dlog d') = lf (dlog d)"
proof -
  obtain r' d' s' fs where 1: "Dispatch ctx v obj meta d s = (r', d', s')" "trail_of (ctx, v, obj, meta) d r' fs"
      "log_state (dlog d') s' (es @ fs)"
    using dispatch_audit.run_ok [of d s es "(ctx, v, obj, meta)"] assms(1,2)
    by (auto simp: dispatcher_log_def dispatch_request_def)
  have "r' = answer v (refusal ctx v obj d) r"
  proof (cases "refusal ctx v obj d")
    case (Some rc)
    then show ?thesis using 1(1) by (auto simp: Dispatch_refused deny_with_def answer_def split: prod.splits)
  next
    case None
    obtain l1 s1 l2 s3 where a: "Allow (VActorID ctx) (VSessionID ctx) (VDeviceID ctx) v obj ''pending'' meta (dlog d) s = (None, l1, s1)"
      "Dispatch ctx v obj meta d s = (fst (handler def ctx obj meta s1), d\<lparr>dlog := l2\<rparr>, s3)"
      using permitted_execute [OF assms(1-3) None] by blast
    have "execs s1 = execs s" using a(1) Log_keeps(2) unfolding Allow_def by (metis snd_conv)
    with a(2) 1(1) assms(4) None show ?thesis by (simp add: answer_def)
  qed
  moreover have "map_after meta m = meta" if "map_of (verbs d) v = Some def'" "handler def' ctx obj meta w = (r', m, w')" for def' w m w'
    using that assms(3) assms(5) [of w] by simp
  ultimately show ?thesis
    using 1 Dispatch_static [OF 1(1)]
    by (fastforce simp: trail_of_def request_trail_def answer_def split: option.splits)
qed

text \<open>What a dispatch does to a part of the world that logging leaves alone.\<close>

lemma dispatch_observed:
  assumes "\<And>e l t. lf l = lf (dlog d) \<Longrightarrow> obs (snd (snd (Log e l t))) = obs t"
    and "\<And>t. obs (snd (snd (handler def ctx obj meta t))) = g (obs t)"
    and "log_state (dlog d) s es" and "request_ok (ctx, v, obj, meta) d"
    and "map_of (verbs d) v = Some def" and "Dispatch ctx v obj meta d s = (r, d', s')"
  shows "obs s' = (if refusal ctx v obj d = None then g (obs s) else obs s)"
proof -
  have al: "obs t' = obs t" if "Allow a b c v o' res m l t = (e, l', t')" "lf l = lf (dlog d)" for a b c v o' res m l t e l' t'
    using assms(1) that unfolding Allow_def by (metis snd_conv)
  have de: "obs t' = obs t" if "Deny a b c v o' res m l t = (e, l', t')" "lf l = lf (dlog d)" for a b c v o' res m l t e l' t'
    using assms(1) that unfolding Deny_def by (metis snd_conv)
  show ?thesis
  proof (cases "refusal ctx v obj d")
    case (Some rc)
    then show ?thesis using assms(6) by (auto simp: Dispatch_refused deny_with_def split: prod.splits dest: de)
  next
    case None
    obtain l1 s1 l2 s3 e where
      a: "Allow (VActorID ctx) (VSessionID ctx) (VDeviceID ctx) v obj ''pending'' meta (dlog d) s = (None, l1, s1)"
        "Allow (VActorID ctx) (VSessionID ctx) (VDeviceID ctx) v obj (result_text (fst (handler def ctx obj meta s1)))
          (map_after meta (fst (snd (handler def ctx obj meta s1)))) l1 (snd (snd (handler def ctx obj meta s1))) = (e, l2, s3)"
        "Dispatch ctx v obj meta d s = (fst (handler def ctx obj meta s1), d\<lparr>dlog := l2\<rparr>, s3)"
      using permitted_execute [OF assms(3-5) None] by blast
    then show ?thesis using al [OF a(1)] al [OF a(2)] Allow_lf [OF a(1)] assms(2) [of s1] assms(6) None by simp
  qed
qed

lemma log_state_output [simp]:
  "log_state l (s\<lparr>stderr := t\<rparr>) es = log_state l s es" "log_state l (s\<lparr>stdout := t\<rparr>) es = log_state l s es"
  by (simp_all add: log_state_def)

lemma log_state_results: "log_state l s es \<Longrightarrow> ReadFile (lf l) s = (Inr es, s) \<and> VerifyChain (lf l) s = (None, s)"
  by (simp add: ReadFile_log_state VerifyChain_log_state)

text \<open>One request through a fresh dispatcher, as the commands make it, on a log that was just opened.\<close>

lemma session_request:
  assumes "session_ready s es st" and "valid_utf8 v" and "valid_utf8 obj" and "valid_utf8 cap"
    and "meta \<noteq> Some []" and "norm_map meta" and "json_depth (tree_of_map meta) < max_nesting_depth"
    and "log_safe (auditPath s) meta (h ctx obj meta)" and "\<And>u. execs u = execs t \<Longrightarrow> fst (h ctx obj meta u) = r"
    and "\<And>t. fst (snd (h ctx obj meta t)) = meta"
    and "ctx = caller_context s" and "log_state (resume (auditPath s) es) t es" and "dcn = decision (caller_role s) cap st obj"
  shows "\<exists>d' s' fs. Dispatch ctx v obj meta
      (Register v cap h (verb_New (resume (auditPath s) es) \<lparr>current = st, mpath = posturePath s\<rparr>)) t =
      (answer v dcn r, d', s') \<and>
    list_all2 same_entry (request_trail ctx v obj meta dcn r) fs \<and>
    log_state (dlog d') s' (es @ fs) \<and> lf (dlog d') = auditPath s \<and>
    (\<forall>obs g. (\<forall>e l t. lf l = auditPath s \<longrightarrow> obs (snd (snd (Log e l t))) = obs t) \<longrightarrow> (\<forall>t. obs (snd (snd (h ctx obj meta t))) = g (obs t)) \<longrightarrow>
       obs s' = (if dcn = None then g (obs t) else obs t :: 'b))"
proof -
  let ?d = "Register v cap h (verb_New (resume (auditPath s) es) \<lparr>current = st, mpath = posturePath s\<rparr>)"
  have ref: "refusal ctx v obj ?d = dcn"
    using assms(11,13) by (simp add: refusal_decision caller_context_def)
  have l: "log_state (dlog ?d) t es" "lf (dlog ?d) = auditPath s"
    using assms(12) by (simp_all add: Register_def verb_New_def resume_def)
  have def: "map_of (verbs ?d) v = Some \<lparr>capability = cap, handler = h\<rparr>" by (simp add: Register_def verb_New_def)
  have "valid_utf8 rc" if "dcn = Some rc" for rc
    using that decision_utf8 session_state_valid [OF assms(1)] assms(4,13) by metis
  then have ok: "request_ok (ctx, v, obj, meta) ?d"
    using assms(1-8) l(2) def ref unfolding assms(11) by (auto simp: request_ok_def meta_ok_def session_ready_def split: option.splits)
  from dispatch_answer [OF l(1) ok def, of r] assms(9,10) obtain d' s' fs where
    1: "Dispatch ctx v obj meta ?d t = (answer v dcn r, d', s')"
      "list_all2 same_entry (request_trail ctx v obj meta dcn r) fs"
      "log_state (dlog d') s' (es @ fs)" "lf (dlog d') = lf (dlog ?d)"
    by (auto simp: ref)
  have "obs s' = (if dcn = None then g (obs t) else obs t)"
    if "\<forall>e l t. lf l = auditPath s \<longrightarrow> obs (snd (snd (Log e l t))) = obs t" "\<forall>t. obs (snd (snd (h ctx obj meta t))) = g (obs t)" for obs :: "os \<Rightarrow> 'b" and g
    using dispatch_observed [where obs = obs and g = g, OF _ _ l(1) ok def 1(1)] that ref l(2) by simp
  with 1 l(2) show ?thesis by auto
qed

text \<open>The same for a handler that reports no error and only prints.\<close>

lemma session_dispatch:
  assumes "session_ready s es st" and "valid_utf8 v" and "valid_utf8 obj" and "valid_utf8 cap"
    and "meta \<noteq> Some []" and "norm_map meta" and "json_depth (tree_of_map meta) < max_nesting_depth"
    and "log_safe (auditPath s) meta (h ctx obj meta)" and "\<And>t. fst (h ctx obj meta t) = None"
    and "\<And>t. fst (snd (h ctx obj meta t)) = meta" and "\<And>t. stdout (snd (snd (h ctx obj meta t))) = stdout t @ out"
    and "ctx = caller_context s" and "t = (log_opened s)\<lparr>stderr := w\<rparr>" and "dcn = decision (caller_role s) cap st obj"
  shows "\<exists>d' s' fs. Dispatch ctx v obj meta
      (Register v cap h (verb_New (resume (auditPath s) es) \<lparr>current = st, mpath = posturePath s\<rparr>)) t =
      (map_option (ErrDenied v) dcn, d', s') \<and>
    list_all2 same_entry (request_trail ctx v obj meta dcn None) fs \<and>
    log_state (dlog d') s' (es @ fs) \<and> lf (dlog d') = auditPath s \<and>
    stdout s' = stdout s @ (if dcn = None then out else [])"
proof -
  have "log_state (resume (auditPath s) es) t es" using session_open(2) [OF assms(1)] assms(13) by simp
  from session_request [where h = h and ctx = ctx and obj = obj and meta = meta and r = None, OF assms(1-10) assms(12) this assms(14)]
  obtain d' s' fs where
    1: "Dispatch ctx v obj meta (Register v cap h (verb_New (resume (auditPath s) es) \<lparr>current = st, mpath = posturePath s\<rparr>)) t =
      (answer v dcn None, d', s')" "list_all2 same_entry (request_trail ctx v obj meta dcn None) fs"
    "log_state (dlog d') s' (es @ fs)" "lf (dlog d') = auditPath s"
    and obs: "\<forall>obs g. (\<forall>e l t. lf l = auditPath s \<longrightarrow> obs (snd (snd (Log e l t))) = obs t) \<longrightarrow> (\<forall>t. obs (snd (snd (h ctx obj meta t))) = g (obs t)) \<longrightarrow>
       obs s' = (if dcn = None then g (obs t) else obs t :: string)"
    by blast
  have "stdout s' = (if dcn = None then stdout t @ out else stdout t)"
    using obs [rule_format, of stdout "\<lambda>x. x @ out"] Log_keeps(1) assms(11) by simp
  moreover have "answer v dcn None = map_option (ErrDenied v) dcn" by (simp add: answer_def split: option.splits)
  ultimately show ?thesis using 1 assms(13) by auto
qed

lemma log_safe_print: "log_safe p meta (print_handler v ctx obj meta)"
  by (auto simp: log_safe_def print_handler_def)

lemma Close_quiet: "quiet s \<Longrightarrow> Close l s = (None, s)"
  by (simp add: Close_def quiet_def)


lemma demo_session: "session_ready (demo_os role) [] Normal"
proof -
  have "quiet (demo_os role)" by (simp add: demo_os_def)
  moreover have "openable ''var/audit.jsonl'' (demo_os role)"
    using openable_demo(1) by (simp add: openable_def demo_os_def dir_exists_def file_at_def)
  moreover have "file_at (demo_os role) p = None" "contents (demo_os role) p = []" for p
    by (simp_all add: demo_os_def contents_def file_at_def fresh_os_def)
  moreover have "\<not> same_path ''var/posture.json'' ''var/audit.jsonl''" by code_simp
  moreover have "path_prefixes (filepath_Clean (filepath_Dir ''var/audit.jsonl'')) = [''var'']"
    "filepath_Clean ''var/posture.json'' = ''var/posture.json''" by code_simp+
  then have "\<not> dir_exists (made_parent ''var/audit.jsonl'' (demo_os role)) ''var/posture.json''"
    by (simp add: dir_exists_def made_parent_def demo_os_def fresh_os_def)
  moreover have "filepath_Dir ''var/posture.json'' = filepath_Dir ''var/audit.jsonl''" by code_simp
  then have "\<not> below_file (log_opened (demo_os role)) ''var/posture.json''" "\<not> below_file (demo_os role) ''var/posture.json''"
    using beside_log [of "''var/posture.json''" "demo_os role"] calculation(2) by (simp_all add: demo_paths)
  moreover have "dec (Suc 0) = ''1''" by code_simp
  then have "caller_actor (demo_os role) = ''eo''" "caller_session (demo_os role) = ''pid-1''" "caller_device (demo_os role) = ''host''"
    by (simp_all add: caller_actor_def caller_session_def caller_device_def os_Hostname_def getenvOr_def os_Getenv_def demo_os_def fresh_os_def)
  ultimately show ?thesis
    by (simp add: session_ready_def demo_paths honest_nil caller_context_def valid_utf8_ascii)
qed


section \<open>Setting the posture\<close>

lemma loggable_ctx:
  assumes "session_ready s es st" and "valid_utf8 v" and "valid_utf8 obj" and "valid_utf8 x"
    and "meta \<noteq> Some []" and "norm_map meta" and "json_depth (tree_of_map meta) < max_nesting_depth"
    and "ctx = caller_context s"
  shows "loggable (allow_event (VActorID ctx) (VSessionID ctx) (VDeviceID ctx) v obj x meta)"
    and "loggable (deny_event (VActorID ctx) (VSessionID ctx) (VDeviceID ctx) v obj x meta)"
  using assms by (simp_all add: loggable_allow loggable_deny meta_ok_def session_ready_def)

text \<open>The error of a transition that the table does not have.\<close>

definition transition_error :: "string \<Rightarrow> string \<Rightarrow> go_error" where
  "transition_error st target =
     (if st = Exited then ErrorString ''system exited''
      else ErrInvalidTransition st (if st = Game \<and> target = Game then Normal else target))"

lemma transition_error_utf8: "isValidState st \<Longrightarrow> valid_utf8 target \<Longrightarrow> valid_utf8 (Error (transition_error st target))"
proof -
  assume "isValidState st" and v: "valid_utf8 target"
  then have "valid_utf8 st" "valid_utf8 Normal" by (auto simp: isValidState_def state_defs valid_utf8_ascii)
  moreover have "valid_utf8 [CHR 0xE2, CHR 0x86, CHR 0x92]" by code_simp
  moreover have "valid_utf8 ''invalid posture transition: ''" "valid_utf8 '' ''" "valid_utf8 ''system exited''"
    by (simp_all add: valid_utf8_ascii)
  ultimately show ?thesis
    using v by (simp add: transition_error_def ErrInvalidTransition_Error_def valid_utf8_append del: append.simps)
qed

lemma Transition_refused:
  assumes "st = Exited \<or> \<not> permitted st (if st = Game \<and> target = Game then Normal else target)"
  shows "Transition target a sid \<lparr>current = st, mpath = p\<rparr> s =
    ((st, Some (transition_error st target)), \<lparr>current = st, mpath = p\<rparr>, s)"
  using assms by (auto simp: Transition_def transition_error_def Let_def)

text \<open>The record of a change: the states as the caller named them.\<close>

definition posture_meta :: "string \<Rightarrow> string \<Rightarrow> gomap option" where
  "posture_meta old target = Some [(''from'', AStr old), (''to'', AStr target)]"

lemma posture_meta_ok:
  "valid_utf8 old \<Longrightarrow> valid_utf8 target \<Longrightarrow>
   posture_meta old target \<noteq> Some [] \<and> norm_map (posture_meta old target) \<and>
   json_depth (tree_of_map (posture_meta old target)) < max_nesting_depth"
  by (simp add: posture_meta_def norm_map_def tree_of_map_def max_nesting_depth_def valid_utf8_ascii)

lemma Log_other_file: "\<not> same_path p (lf l) \<Longrightarrow> file_at (snd (snd (Log e l s))) p = file_at s p"
  by (auto simp: Log_def time_Now_def Let_def file_Write_def file_Sync_def same_path_def
      split: option.splits prod.splits dest!: take_fault_frame)

lemma session_ready_stderr [simp]: "session_ready (s\<lparr>stderr := w\<rparr>) es st = session_ready s es st"
proof -
  let ?s = "s\<lparr>stderr := w\<rparr>"
  have "caller_context ?s = caller_context s" by (rule caller_context_cong) simp_all
  moreover have "auditPath ?s = auditPath s" "posturePath ?s = posturePath s" using path_cong [of ?s s] by simp_all
  moreover have "openable p ?s = openable p s" "contents ?s p = contents s p" "stored_posture p ?s = stored_posture p s" for p
    by (simp_all add: openable_def contents_def stored_posture_def)
  moreover have "dir_exists (made_parent q ?s) p = dir_exists (made_parent q s) p" for p q
    by (simp add: made_parent_def dir_exists_def)
  moreover have "below_file ?s p = below_file s p" for p by (simp add: below_file_def dir_exists_def)
  moreover have "dir_exists (log_opened ?s) p = dir_exists (log_opened s) p" "file_at (log_opened ?s) p = file_at (log_opened s) p" for p
    using calculation by (simp_all add: log_opened_def)
  then have "below_file (log_opened ?s) p = below_file (log_opened s) p" for p by (simp add: below_file_def)
  ultimately show ?thesis by (simp add: session_ready_def)
qed

lemma log_opened_posture:
  assumes "session_ready s es st"
  shows "file_at (log_opened s) (posturePath s) = file_at s (posturePath s)"
    and "dir_exists (made_parent (auditPath s) s) (filepath_Dir (posturePath s)) \<Longrightarrow> writable (posturePath s) (log_opened s)"
  using assms by (simp_all add: session_ready_def log_opened_def same_path_def writable_def)

text \<open>The body of \<^verbatim>\<open>posture set\<close> on an open log, for a request that the table has and for one it has not.\<close>

lemma posture_set_done:
  assumes "log_state l t es" and "\<not> same_path (mpath m) (lf l)" and "writable (mpath m) t"
    and "current m \<noteq> Exited" and "to = (if current m = Game \<and> target = Game then Normal else target)" and "permitted (current m) to"
    and "loggable (allow_event (VActorID ctx) (VSessionID ctx) (VDeviceID ctx) ''posture.set'' (''posture:'' @ target) ResultSuccess
      (posture_meta (current m) target))"
  shows "\<exists>s' l' e. posture_set target ctx m l t = (Done (), s') \<and> stored_posture (mpath m) s' = Some to \<and>
    log_state l' s' (es @ [e]) \<and> lf l' = lf l \<and>
    same_entry (allow_event (VActorID ctx) (VSessionID ctx) (VDeviceID ctx) ''posture.set'' (''posture:'' @ target) ResultSuccess
      (posture_meta (current m) target)) e"
proof -
  obtain d where tr: "Transition target (VActorID ctx) (VSessionID ctx) m t =
      ((current m, None), m\<lparr>current := to\<rparr>, set_file (mpath m) d (t\<lparr>ticks := Suc (ticks t)\<rparr>))"
    using Transition_writes [OF assms(3-6)] by blast
  let ?t = "set_file (mpath m) d (t\<lparr>ticks := Suc (ticks t)\<rparr>)"
  have v: "valid_time (clock t (ticks t))" using assms(3) by (simp add: writable_def quiet_def)
  have st: "stored_posture (mpath m) ?t = Some to" using Transition_stores [OF tr v] by simp
  have "log_state l ?t es"
    using assms(1,2) by (intro log_state_frame [OF assms(1)]) (auto simp: log_state_def same_path_def)
  from Allow_log [OF this assms(7)] obtain e l' s' where a:
    "Allow (VActorID ctx) (VSessionID ctx) (VDeviceID ctx) ''posture.set'' (''posture:'' @ target) ResultSuccess
       (posture_meta (current m) target) l ?t = (None, l', s')"
    "same_entry (allow_event (VActorID ctx) (VSessionID ctx) (VDeviceID ctx) ''posture.set'' (''posture:'' @ target) ResultSuccess
      (posture_meta (current m) target)) e" "log_state l' s' (es @ [e])" "lf l' = lf l" by blast
  have "file_at s' (mpath m) = file_at ?t (mpath m)"
    using Log_other_file [OF assms(2)] a(1) unfolding Allow_def by (metis snd_conv)
  then have "stored_posture (mpath m) s' = Some to" using st by (simp add: stored_posture_def)
  moreover have "posture_set target ctx m l t = fmt_Print (current m @ '' '' @ arrow @ '' '' @ target @ [newline]) s'"
    using tr a(1) by (simp add: posture_set_def cli_run posture_meta_def)
  ultimately show ?thesis
    using a by (auto simp: fmt_Print_def stored_posture_def intro!: exI [of _ l'] exI [of _ e])
qed

lemma posture_set_refused:
  assumes "log_state l t es" and "\<not> same_path (mpath m) (lf l)"
    and "current m = Exited \<or> \<not> permitted (current m) (if current m = Game \<and> target = Game then Normal else target)"
    and "loggable (deny_event (VActorID ctx) (VSessionID ctx) (VDeviceID ctx) ''posture.set'' (''posture:'' @ target)
      (''transition.invalid:'' @ Error (transition_error (current m) target)) None)"
  shows "\<exists>s' l' e. posture_set target ctx m l t = (Exit 1, s') \<and> file_at s' (mpath m) = file_at t (mpath m) \<and>
    log_state l' s' (es @ [e]) \<and> lf l' = lf l \<and>
    same_entry (deny_event (VActorID ctx) (VSessionID ctx) (VDeviceID ctx) ''posture.set'' (''posture:'' @ target)
      (''transition.invalid:'' @ Error (transition_error (current m) target)) None) e"
proof -
  have tr: "Transition target (VActorID ctx) (VSessionID ctx) m t = ((current m, Some (transition_error (current m) target)), m, t)"
    using Transition_refused [OF assms(3), of _ _ "mpath m"] by (cases m) simp
  from Deny_log [OF assms(1,4)] obtain e l' s' where a:
    "Deny (VActorID ctx) (VSessionID ctx) (VDeviceID ctx) ''posture.set'' (''posture:'' @ target)
      (''transition.invalid:'' @ Error (transition_error (current m) target)) None l t = (None, l', s')"
    "same_entry (deny_event (VActorID ctx) (VSessionID ctx) (VDeviceID ctx) ''posture.set'' (''posture:'' @ target)
      (''transition.invalid:'' @ Error (transition_error (current m) target)) None) e" "log_state l' s' (es @ [e])" "lf l' = lf l" by blast
  have "file_at s' (mpath m) = file_at t (mpath m)"
    using Log_other_file [OF assms(2)] a(1) unfolding Deny_def by (metis snd_conv)
  moreover have "posture_set target ctx m l t = die (''transition failed: '' @ Error (transition_error (current m) target)) s'"
    using tr a(1) by (simp add: posture_set_def cli_run)
  ultimately show ?thesis
    using a by (auto simp: die_eq intro!: exI [of _ l'] exI [of _ e])
qed



section \<open>Rolling back\<close>

definition rollback_meta :: "string \<Rightarrow> snapshot \<Rightarrow> string \<Rightarrow> gomap option" where
  "rollback_meta role x k = Some [(''actor_role'', AStr role), (''snap_hash'', AStr (SHash x)), (''snapshot_id'', AStr k)]"

lemma rollback_meta_ok:
  "valid_utf8 role \<Longrightarrow> valid_utf8 (SHash x) \<Longrightarrow> valid_utf8 k \<Longrightarrow>
   rollback_meta role x k \<noteq> Some [] \<and> norm_map (rollback_meta role x k) \<and>
   json_depth (tree_of_map (rollback_meta role x k)) < max_nesting_depth"
  by (simp add: rollback_meta_def norm_map_def tree_of_map_def max_nesting_depth_def valid_utf8_ascii)

lemma role_utf8: "valid_utf8 (caller_role s)"
proof -
  have "caller_role s \<in> set AllRoles" using caller_role_valid ValidRole_iff by blast
  then show ?thesis by (auto simp: AllRoles_def role_defs valid_utf8_ascii)
qed

lemma log_safe_nil: "log_safe p meta (nil_handler ctx obj meta)"
  by (auto simp: log_safe_def nil_handler_def)

lemma rollback_run:
  assumes "session_ready s es st" and "valid_utf8 k" and "SHash x = ComputeSnapshotHash x"
    and "dcn = decision (caller_role s) CapPolicyWrite st (''snapshot:'' @ k)"
  shows "\<exists>s' fs. rollback_dispatch x k (resume (auditPath s) es) (log_opened s) = (if dcn = None then Done () else Exit 1, s') \<and>
    list_all2 same_entry (request_trail (caller_context s) ''POLICY_ROLLBACK'' (''snapshot:'' @ k) (rollback_meta (caller_role s) x k) dcn None) fs \<and>
    ReadFile (auditPath s) s' = (Inr (es @ fs), s') \<and> VerifyChain (auditPath s) s' = (None, s') \<and> quiet s'"
proof -
  let ?l = "resume (auditPath s) es" and ?t = "(log_opened s)\<lparr>stderr := stderr s @ caller_warning s\<rparr>"
  let ?meta = "rollback_meta (caller_role s) x k"
  have q: "quiet s" using assms(1) by (simp add: session_ready_def)
  have ctx: "caller_context (log_opened s) = caller_context s" by (intro caller_context_cong) simp_all
  have warn: "caller_warning (log_opened s) = caller_warning s" by (simp add: caller_warning_def getenvOr_def os_Getenv_def)
  have len: "length (SHash x) = 71" "valid_utf8 (SHash x)"
    using assms(3) by (simp_all add: ComputeSnapshotHash_def computeSnapshotHash_def length_sha256_hex valid_utf8_sha256_hex)
  have role: "VRole (caller_context s) = caller_role s" by (simp add: caller_context_def)
  have obj: "valid_utf8 (''snapshot:'' @ k)" "valid_utf8 ''POLICY_ROLLBACK''" "valid_utf8 CapPolicyWrite"
    using assms(2) valid_utf8_append [of "''snapshot:''" k] by (simp_all add: valid_utf8_ascii cap_defs)
  obtain d' s' fs where d: "Dispatch (caller_context s) ''POLICY_ROLLBACK'' (''snapshot:'' @ k) ?meta
        (Register ''POLICY_ROLLBACK'' CapPolicyWrite nil_handler (verb_New ?l \<lparr>current = st, mpath = posturePath s\<rparr>)) ?t =
        (map_option (ErrDenied ''POLICY_ROLLBACK'') dcn, d', s')"
      "list_all2 same_entry (request_trail (caller_context s) ''POLICY_ROLLBACK'' (''snapshot:'' @ k) ?meta dcn None) fs"
      "log_state (dlog d') s' (es @ fs)" "lf (dlog d') = auditPath s"
    using session_dispatch [OF assms(1) obj(2,1,3), of ?meta nil_handler "caller_context s" "[]" ?t "stderr s @ caller_warning s" dcn]
      log_safe_nil rollback_meta_ok [OF role_utf8 len(2) assms(2), of s] assms(4)
    by (auto simp: nil_handler_def)
  have "\<exists>t. rollback_dispatch x k ?l (log_opened s) = (if dcn = None then Done () else Exit 1, t) \<and> log_state (dlog d') t (es @ fs)"
    using session_open(3) [OF assms(1)] d(1,3) q path_cong [of "log_opened s" s] len(1)
    by (cases dcn)
      (auto simp: rollback_dispatch_def cli_run bnd_context ctx warn role slice_to_def fmt_Print_def die_eq IsDenied_def rollback_meta_def)
  then obtain t where t: "rollback_dispatch x k ?l (log_opened s) = (if dcn = None then Done () else Exit 1, t)"
    "log_state (dlog d') t (es @ fs)" by blast
  show ?thesis using t(1) d(2) log_state_results [OF t(2)] t(2) d(4) by (auto simp: log_state_def)
qed

lemma length_ComputeSnapshotHash: "length (ComputeSnapshotHash x) = 71"
  by (simp add: ComputeSnapshotHash_def computeSnapshotHash_def length_sha256_hex)

text \<open>
  C20. \<^verbatim>\<open>snapshot rollback\<close> trusts a snapshot only if its hash is right. With a wrong hash the command
  fails, by a panic when the stored hash has fewer than 16 bytes, changes no file and records nothing. With the right one the request is decided by role
  and posture like any other verb, and the log gets the announcement and the result, or the
  denial, with the identifier and the hash of the snapshot.
\<close>

theorem rollback_checks_hash:
  assumes "NewSnapshotStore (snapshotPath s) s = (Inr ss, s1)" and "Get ss k s1 = (Inr x, s1)"
    and "session_ready s1 es st" and "valid_utf8 k"
    and "dcn = decision (caller_role s) CapPolicyWrite st (''snapshot:'' @ k)"
  shows "case main bin [''snapshot'', ''rollback'', k] s of (r, s') \<Rightarrow>
    if SHash x \<noteq> ComputeSnapshotHash x 
      then (if length (SHash x) < 16 then \<exists>msg. r = Panic msg else r = Exit 1) \<and> files s' = files s
    else r = (if dcn = None then Done () else Exit 1) \<and>
      (\<exists>fs. list_all2 same_entry (request_trail (caller_context s1) ''POLICY_ROLLBACK'' (''snapshot:'' @ k)
          (rollback_meta (caller_role s) x k) dcn None) fs \<and>
        ReadFile (auditPath s) s' = (Inr (es @ fs), s') \<and> VerifyChain (auditPath s) s' = (None, s'))"
proof -
  have io: "files s1 = files s" "env s1 = env s"
    using assms(1) by (auto simp: NewSnapshotStore_def os_MkdirAll_def split: prod.splits option.splits if_splits dest!: take_fault_frame)
  have p: "auditPath s1 = auditPath s" "caller_role s1 = caller_role s"
    using io(2) path_cong [of s1 s] by (simp_all add: caller_role_def getenvOr_def os_Getenv_def)
  have run: "main bin [''snapshot'', ''rollback'', k] s = runSnapshotRollback ss k s1"
    by (simp add: main_command runSnapshot_def cli_run assms(1))
  show ?thesis
  proof (cases "SHash x = ComputeSnapshotHash x")
    case False
    then have "\<exists>r t. runSnapshotRollback ss k s1 = (r, t) \<and> files t = files s1 \<and>
        (if length (SHash x) < 16 then \<exists>msg. r = Panic msg else r = Exit 1)"
      by (auto simp: runSnapshotRollback_def cli_run assms(2) slice_to_def die_eq Let_def length_ComputeSnapshotHash)
    with False io(1) show ?thesis by (auto simp: run)
  next
    case True
    have dcn: "dcn = decision (caller_role s1) CapPolicyWrite st (''snapshot:'' @ k)" using assms(5) p(2) by simp
    obtain s' fs where r: "rollback_dispatch x k (resume (auditPath s1) es) (log_opened s1) = (if dcn = None then Done () else Exit 1, s')"
      "list_all2 same_entry (request_trail (caller_context s1) ''POLICY_ROLLBACK'' (''snapshot:'' @ k) (rollback_meta (caller_role s1) x k) dcn None) fs"
      "ReadFile (auditPath s1) s' = (Inr (es @ fs), s')" "VerifyChain (auditPath s1) s' = (None, s')" "quiet s'"
      using rollback_run [OF assms(3,4) True dcn] by blast
    have "runSnapshotRollback ss k s1 = (if dcn = None then Done () else Exit 1, s')"
      using session_open(1) [OF assms(3)] r(1,5) True
      by (auto simp: runSnapshotRollback_def cli_run assms(2) Let_def Close_quiet)
    with True r p show ?thesis by (auto simp: run)
  qed
qed

definition forged_os :: "string list \<Rightarrow> os" where
  "forged_os ds = (demo_os ''admin'')\<lparr>files := [(''var/snapshots/x.json'', ''{}'')], dirs := ds\<rparr>"

abbreviation forged_dirs :: "string list" where
  "forged_dirs \<equiv> [''var'', ''var/snapshots'', ''var'', ''var/snapshots'']"

lemma forged_session: "session_ready (forged_os forged_dirs) [] Normal"
proof -
  let ?s = "forged_os forged_dirs"
  have p: "auditPath ?s = ''var/audit.jsonl''" "posturePath ?s = ''var/posture.json''" by code_simp+
  have "quiet ?s" by (simp add: forged_os_def demo_os_def quiet_def) (simp add: fresh_os_def valid_epoch)
  moreover have "openable ''var/audit.jsonl'' ?s" "contents ?s ''var/audit.jsonl'' = []"
    "\<not> same_path ''var/posture.json'' ''var/audit.jsonl''"
    "\<not> dir_exists (made_parent ''var/audit.jsonl'' ?s) ''var/posture.json''" "file_at ?s ''var/posture.json'' = None"
    by code_simp+
  moreover have "filepath_Dir ''var/posture.json'' = filepath_Dir ''var/audit.jsonl''" by code_simp
  then have "\<not> below_file (log_opened ?s) ''var/posture.json''" "\<not> below_file ?s ''var/posture.json''"
    using beside_log [of "''var/posture.json''" ?s] calculation(2) by (simp_all add: p)
  moreover have "caller_actor ?s = ''eo''" "caller_session ?s = ''pid-1''" "caller_device ?s = ''host''" by code_simp+
  ultimately show ?thesis by (simp add: session_ready_def p honest_nil caller_context_def valid_utf8_ascii)
qed

theorem rollback_checks_hash_witness:
  "case main demo_binary [''snapshot'', ''rollback'', ''x''] (forged_os [''var'', ''var/snapshots'']) of (r, s') \<Rightarrow>
    (\<exists>msg. r = Panic msg) \<and> files s' = files (forged_os [''var'', ''var/snapshots''])"
proof -
  let ?s = "forged_os [''var'', ''var/snapshots'']" and ?t = "forged_os forged_dirs" and ?ss = "\<lparr>sdir = ''var/snapshots''\<rparr>"
  have s: "snapshotPath ?s = ''var/snapshots''" by code_simp
  have "path_prefixes (filepath_Clean ''var/snapshots'') = [''var'', ''var/snapshots'']"
    "file_at ?s ''var'' = None" "file_at ?s ''var/snapshots'' = None" by code_simp+
  then have 1: "NewSnapshotStore (snapshotPath ?s) ?s = (Inr ?ss, ?t)"
    by (simp add: s NewSnapshotStore_def os_MkdirAll_def) (simp add: forged_os_def demo_os_def fresh_os_def)
  have "\<not> dir_exists ?t (snapshot_file ?ss ''x'')" "file_at ?t (snapshot_file ?ss ''x'') = Some ''{}''"
    "unmarshal_snapshot ''{}'' = Some zero_snapshot" by code_simp+
  moreover have "faults ?t = []" by (simp add: forged_os_def demo_os_def fresh_os_def)
  ultimately have 2: "Get ?ss ''x'' ?t = (Inr zero_snapshot, ?t)" by (simp add: Get_def os_ReadFile_ok)
  have "length (SHash zero_snapshot) \<noteq> length (ComputeSnapshotHash zero_snapshot)"
    by (simp add: length_ComputeSnapshotHash zero_snapshot_def)
  then have "SHash zero_snapshot \<noteq> ComputeSnapshotHash zero_snapshot" by metis
  with rollback_checks_hash [OF 1 2 forged_session, of _ demo_binary] show ?thesis
    by (simp add: valid_utf8_ascii zero_snapshot_def)
qed

end
