(* ===== verification/Cli_Log_Results.thy ===== *)
theory Cli_Log_Results
  imports Cli_Main
begin

text \<open>
  What the commands on the audit log do when no call fails: the verdict of \<^verbatim>\<open>audit verify\<close>, the lines
  of \<^verbatim>\<open>audit tail\<close>, and the files that \<^verbatim>\<open>audit export\<close> writes.
\<close>

text \<open>
  What a log file holds, an absent file being an empty log; a path below a regular file is an
  error.
\<close>

definition events_at :: "string \<Rightarrow> os \<Rightarrow> event list option" where
  "events_at p s = (if file_at s p = None \<and> below_file s p then None else decode_events (contents s p))"

definition stored_events :: "os \<Rightarrow> event list option" where
  "stored_events s = events_at (auditPath s) s"

lemma ReadFile_quiet:
  assumes "faults s = []" and "\<not> dir_exists s p"
  shows "\<exists>err. ReadFile p s = (case events_at p s of None \<Rightarrow> Inl err | Some es \<Rightarrow> Inr es, s)"
proof -
  have "decode_events [] = Some []" by (simp add: decode_events.simps decoder_More_def skip_ws_def)
  then show ?thesis
    using assms by (auto simp: events_at_def ReadFile_def os_ReadFile_def contents_def split: option.splits)
qed

section \<open>Verify\<close>

text \<open>
  C21. The exit code of \<^verbatim>\<open>audit verify\<close> is the verdict on the log: 0 with the number of events when the
  file holds events that form a chain, 3 when it does not or when it cannot be decoded.
\<close>

theorem verify_exit_code:
  assumes "faults s = []" and "\<not> dir_exists s (auditPath s)"
  shows "case stored_events s of
      Some es \<Rightarrow>
        if VerifyEvents es = None
        then main bin [''audit'', ''verify''] s =
          (Done (), s\<lparr>stdout := stdout s @ ''ok '' @ em_dash @ '' '' @ dec (length es) @ '' events, chain intact'' @ [newline]\<rparr>)
        else fst (main bin [''audit'', ''verify''] s) = Exit 3
    | None \<Rightarrow> fst (main bin [''audit'', ''verify''] s) = Exit 3"
proof -
  note read = ReadFile_quiet [OF assms]
  have "main bin [''audit'', ''verify''] = audit_verify" by (simp add: main_command runAudit_def)
  then show ?thesis
    using read
    by (auto simp: audit_verify_def cli_run stored_events_def VerifyChain_def fmt_Print_def split: option.splits)
qed

theorem verify_exit_code_witness:
  "fst (main demo_binary [''audit'', ''verify''] (fresh_os\<lparr>files := [(''var/audit.jsonl'', [])]\<rparr>)) = Done () \<and>
   fst (main demo_binary [''audit'', ''verify''] (fresh_os\<lparr>files := [(''var/audit.jsonl'', ''x'')]\<rparr>)) = Exit 3"
proof -
  let ?s = "\<lambda>d. fresh_os\<lparr>files := [(''var/audit.jsonl'', d)]\<rparr>"
  have p: "auditPath (?s d) = ''var/audit.jsonl''" for d
    by (simp add: auditPath_def getenvOr_def os_Getenv_def fresh_os_def)
  have q: "faults (?s d) = []" "\<not> dir_exists (?s d) (auditPath (?s d))" for d
    unfolding p by (simp_all add: fresh_os_def dir_exists_def) code_simp
  have "stored_events (?s []) = Some []" "stored_events (?s ''x'') = None"
    unfolding stored_events_def p by code_simp+
  with verify_exit_code [OF q [of "[]"], of demo_binary] verify_exit_code [OF q [of "''x''"], of demo_binary]
  show ?thesis by (simp add: VerifyEvents_def)
qed

section \<open>Tail\<close>

lemma print_lines_eq: "print_lines ts s = (Done (), s\<lparr>stdout := stdout s @ concat (map (\<lambda>t. t @ [newline]) ts)\<rparr>)"
  by (induction ts arbitrary: s) (simp_all add: ret_def fmt_Println_def)

lemma sint_small: "- (2 ^ 63) \<le> i \<Longrightarrow> i < 2 ^ 63 \<Longrightarrow> sint (word_of_int i :: int64) = i"
  by (simp add: signed_take_bit_int_eq_self sint_sbintrunc')

lemma sint_wrapped: "2 ^ 63 \<le> i \<Longrightarrow> i < 2 ^ 64 \<Longrightarrow> sint (word_of_int i :: int64) = i - 2 ^ 64"
proof -
  assume "2 ^ 63 \<le> i" "i < 2 ^ 64"
  then have "sint (word_of_int (i - 2 ^ 64) :: int64) = i - 2 ^ 64" by (intro sint_small) simp_all
  moreover have "(word_of_int (i - 2 ^ 64) :: int64) = word_of_int i"
    by (simp add: word_of_int_eq_iff take_bit_eq_mod)
  ultimately show ?thesis by metis
qed

text \<open>The start index, for a length and a count within the range of an \<^verbatim>\<open>int\<close>.\<close>

lemma tail_start_eq:
  assumes "len < 2 ^ 63" and "- (2 ^ 63) \<le> n" and "n < 2 ^ 63"
  shows "sint (tail_start len n) = (if int len - n < 0 \<or> 2 ^ 63 \<le> int len - n then 0 else int len - n)"
proof -
  have w: "word_of_nat len - word_of_int n = (word_of_int (int len - n) :: int64)" by simp
  show ?thesis
  proof (cases "2 ^ 63 \<le> int len - n")
    case True
    then have "sint (word_of_int (int len - n) :: int64) = int len - n - 2 ^ 64" using assms by (intro sint_wrapped) simp_all
    with True assms show ?thesis by (simp add: tail_start_def w Let_def del: of_int_diff)
  next
    case False
    then have "sint (word_of_int (int len - n) :: int64) = int len - n" using assms by (intro sint_small) simp_all
    with False show ?thesis by (simp add: tail_start_def w Let_def del: of_int_diff)
  qed
qed

text \<open>
  C29. \<^verbatim>\<open>audit tail\<close> for the count \<open>n\<close> that its arguments ask for: it prints the last \<open>n\<close> events, all of
  them when there are fewer, one line of JSON each. A negative count is not refused: the program
  panics, unless the difference overflows, when it prints the whole log.
\<close>

theorem tail_prints_last:
  assumes "faults s = []" and "\<not> dir_exists s (auditPath s)" and "stored_events s = Some es"
    and "tail_count args s = (Done n, s)" and "- (2 ^ 63) \<le> n" and "n < 2 ^ 63" and "length es < 2 ^ 63"
  shows "if 0 \<le> n \<or> 2 ^ 63 \<le> int (length es) - n
    then main bin (''audit'' # ''tail'' # args) s = (Done (), s\<lparr>stdout := stdout s @
      concat (map (\<lambda>e. marshal_or_nil (marshal_event e) @ [newline])
        (drop (if 0 \<le> n then length es - nat n else 0) es))\<rparr>)
    else \<exists>msg. main bin (''audit'' # ''tail'' # args) s = (Panic msg, s)"
proof -
  have m: "main bin (''audit'' # ''tail'' # args) = audit_tail args" by (simp add: main_command runAudit_def)
  have read: "ReadFile (auditPath s) s = (Inr es, s)"
    using ReadFile_quiet [OF assms(1,2)] assms(3) by (simp add: stored_events_def)
  let ?start = "tail_start (length es) n"
  have run: "audit_tail args s = bnd (slice_from es ?start)
      (\<lambda>shown. print_lines (map (\<lambda>e. marshal_or_nil (marshal_event e)) shown)) s"
    using assms(4) by (simp add: audit_tail_def bnd_def [of "tail_count args"] cli_run read)
  have st: "sint ?start = (if int (length es) - n < 0 \<or> 2 ^ 63 \<le> int (length es) - n then 0 else int (length es) - n)"
    using assms(5-7) by (intro tail_start_eq)
  show ?thesis
  proof (cases "0 \<le> n \<or> 2 ^ 63 \<le> int (length es) - n")
    case True
    have "slice_from es ?start = ret (drop (if 0 \<le> n then length es - nat n else 0) es)"
    proof -
      have "nat (sint ?start) = (if 0 \<le> n then length es - nat n else 0)" "0 \<le> sint ?start" "sint ?start \<le> int (length es)"
        unfolding st using True assms(5-7) by auto
      then show ?thesis by (simp add: slice_from_def)
    qed
    with True show ?thesis by (simp add: m run print_lines_eq comp_def)
  next
    case False
    then have "int (length es) < sint ?start" using st by auto
    then have "\<exists>msg. slice_from es ?start = panic msg" by (auto simp: slice_from_def)
    with False show ?thesis by (auto simp: m run) (simp add: panic_def)
  qed
qed

theorem tail_prints_last_witness:
  "\<exists>msg. main demo_binary [''audit'', ''tail'', ''-n'', ''-5''] fresh_os = (Panic msg, fresh_os)"
proof -
  have p: "auditPath fresh_os = ''var/audit.jsonl''"
    by (simp add: auditPath_def getenvOr_def os_Getenv_def fresh_os_def)
  have q: "faults fresh_os = []" "\<not> dir_exists fresh_os (auditPath fresh_os)"
    unfolding p by (simp add: fresh_os_def) code_simp
  have e: "stored_events fresh_os = Some []" unfolding stored_events_def p by code_simp
  have "flag_parse tail_flags [''-n'', ''-5''] = FlagsParsed [(''n'', IntFlag (- 5))] []" by code_simp
  then have "tail_count [''-n'', ''-5''] fresh_os = (Done (- 5), fresh_os)" by (simp add: tail_count_def ret_def)
  from tail_prints_last [OF q e this, of demo_binary] show ?thesis by simp
qed

section \<open>Export\<close>

definition made_dir :: "string \<Rightarrow> os \<Rightarrow> os" where
  "made_dir p s = s\<lparr>dirs := path_prefixes (filepath_Clean p) @ dirs s\<rparr>"

text \<open>No call fails, the log is a file, and nothing is in the way of the directory and its two files.\<close>

definition export_ready :: "string \<Rightarrow> os \<Rightarrow> bool" where
  "export_ready out s \<longleftrightarrow> quiet s \<and> out \<noteq> [] \<and> file_at s (auditPath s) \<noteq> None \<and> \<not> dir_exists s (auditPath s) \<and>
     (\<forall>q\<in>set (path_prefixes (filepath_Clean out)). file_at s q = None) \<and>
     (\<forall>x\<in>{''audit.jsonl'', ''manifest.json''}. \<not> dir_exists (made_dir out s) (filepath_Join out x))"

lemma copyFile_quiet:
  assumes "quiet s" and "src \<noteq> []" and "file_at s src = Some d" and "\<not> dir_exists s src"
    and "\<not> dir_exists s dst" and "dir_exists s (filepath_Dir dst)"
  shows "copyFile src dst s = (None, set_file dst (if same_path dst src then [] else d) s)"
proof -
  have "os_Open src s = (None, s)" using assms by (simp add: os_Open_def quiet_def)
  moreover have "os_OpenTrunc dst s = (None, set_file dst [] s)"
    using assms by (simp add: os_OpenTrunc_def open_file_def quiet_def)
  moreover have "io_Copy dst src (set_file dst [] s) = (None, set_file dst (if same_path dst src then [] else d) s)"
    using assms by (simp add: io_Copy_def contents_set_file) (simp add: file_Write_def quiet_def contents_def)
  ultimately show ?thesis using assms(1) by (simp add: copyFile_def quiet_def)
qed

lemma chain_warning_run: "\<exists>w. bnd (chain_warning es) f s = f () (s\<lparr>stderr := stderr s @ w\<rparr>)"
proof (cases "VerifyEvents es")
  case None
  then have "bnd (chain_warning es) f s = f () (s\<lparr>stderr := stderr s @ []\<rparr>)" by (simp add: chain_warning_def)
  then show ?thesis by blast
qed (auto simp: chain_warning_def)

lemma WriteFile_quiet:
  "quiet s \<Longrightarrow> \<not> dir_exists s p \<Longrightarrow> dir_exists s (filepath_Dir p) \<Longrightarrow> os_WriteFile p d s = (None, set_file p d s)"
  by (simp add: WriteFile_writable writable_def)

definition manifest_text :: "gotime \<Rightarrow> event list \<Rightarrow> string \<Rightarrow> string \<Rightarrow> string" where
  "manifest_text now es src actor = print_tree True 0 (tree_of_map (Some (export_manifest now es src actor))) @ [newline]"

lemma export_dirs:
  assumes "export_ready out s"
  shows "\<not> dir_exists (made_dir out s) (auditPath s)"
    and "x \<in> {''audit.jsonl'', ''manifest.json''} \<Longrightarrow> dir_exists (made_dir out s) (filepath_Dir (filepath_Join out x))"
proof -
  have "filepath_Clean (auditPath s) \<notin> set (path_prefixes (filepath_Clean out))"
    using assms by (auto simp: export_ready_def file_at_def)
  then show "\<not> dir_exists (made_dir out s) (auditPath s)"
    using assms by (auto simp: export_ready_def made_dir_def dir_exists_def)
  assume "x \<in> {''audit.jsonl'', ''manifest.json''}"
  then have "plain_elem x" using export_plain by auto
  then have "filepath_Dir (filepath_Join out x) = filepath_Clean out"
    using assms by (intro Dir_Join) (simp add: export_ready_def)
  then show "dir_exists (made_dir out s) (filepath_Dir (filepath_Join out x))"
    using dir_exists_made [of out s] by (simp add: made_dir_def dir_exists_def)
qed

lemma write_export_run:
  assumes "copyFile src (filepath_Join out ''audit.jsonl'') s = (None, t)" and "quiet t"
    and "\<not> dir_exists t (filepath_Join out ''manifest.json'')" and "dir_exists t (filepath_Dir (filepath_Join out ''manifest.json''))"
  shows "\<exists>n e o'. write_export out src es s =
    (if VerifyEvents es = None then Done () else Exit 3,
     (set_file (filepath_Join out ''manifest.json'') (manifest_text (clock t (ticks t)) es src (caller_actor t))
       (t\<lparr>ticks := n, stderr := e\<rparr>))\<lparr>stdout := o'\<rparr>)"
proof -
  let ?man = "filepath_Join out ''manifest.json''"
  have wr: "os_WriteFile ?man x (t\<lparr>ticks := n, stderr := e\<rparr>) = (None, set_file ?man x (t\<lparr>ticks := n, stderr := e\<rparr>))" for x n e
    using assms(2-4) by (intro WriteFile_quiet) simp_all
  have ctx: "VActorID (caller_context (t\<lparr>ticks := n\<rparr>)) = caller_actor t" for n
    by (simp add: caller_context_def caller_actor_def)
  show ?thesis
    unfolding write_export_def Let_def using assms(2)
    by (cases "VerifyEvents es")
      (auto simp: cli_run assms(1) time_Now_def bnd_context ctx wr simp flip: manifest_text_def)
qed

lemma export_run:
  assumes "export_ready out s" and "stored_events s = Some es" and "file_at s (auditPath s) = Some d"
  shows "\<exists>s'. runAuditExport out s = (if VerifyEvents es = None then Done () else Exit 3, s') \<and>
    (\<forall>q. file_at s' q =
      (if same_path q (filepath_Join out ''manifest.json'') then Some (manifest_text (clock s (ticks s)) es (auditPath s) (caller_actor s))
       else if same_path q (filepath_Join out ''audit.jsonl'')
         then Some (if same_path (filepath_Join out ''audit.jsonl'') (auditPath s) then [] else d)
       else file_at s q))"
proof -
  let ?s = "made_dir out s" and ?log = "filepath_Join out ''audit.jsonl''" and ?man = "filepath_Join out ''manifest.json''"
  let ?d = "if same_path ?log (auditPath s) then [] else d"
  have q: "quiet s" "faults s = []" "quiet ?s" "auditPath s \<noteq> []"
    using assms(1) by (auto simp: export_ready_def quiet_def made_dir_def)
      (simp add: auditPath_def getenvOr_def Let_def split: if_splits)
  have mk: "os_MkdirAll out s = (None, ?s)"
    using assms(1) by (auto simp: os_MkdirAll_def export_ready_def quiet_def made_dir_def)
  have f: "file_at ?s p = file_at s p" for p by (simp add: made_dir_def)
  have p: "auditPath ?s = auditPath s" by (simp add: made_dir_def auditPath_def getenvOr_def os_Getenv_def)
  have read: "ReadFile (auditPath s) ?s = (Inr es, ?s)"
    using assms(2,3) q ReadFile_quiet [OF _ export_dirs(1) [OF assms(1)]]
    by (auto simp: events_at_def contents_def f stored_events_def quiet_def split: option.splits)
  have dest: "\<not> dir_exists ?s ?log" "\<not> dir_exists ?s ?man" "dir_exists ?s (filepath_Dir ?log)" "dir_exists ?s (filepath_Dir ?man)"
    using assms(1) export_dirs(2) [OF assms(1)] by (auto simp: export_ready_def)
  have copy: "copyFile (auditPath s) ?log (?s\<lparr>stderr := w\<rparr>) = (None, set_file ?log ?d (?s\<lparr>stderr := w\<rparr>))" for w
    using q dest export_dirs(1) [OF assms(1)] assms(3) by (intro copyFile_quiet) (simp_all add: f)
  have run: "runAuditExport out s = bnd (chain_warning es) (\<lambda>_. write_export out (auditPath s) es) ?s"
    by (simp add: runAuditExport_def cli_run mk p read)
  obtain w where w: "runAuditExport out s = write_export out (auditPath s) es (?s\<lparr>stderr := stderr ?s @ w\<rparr>)"
    using chain_warning_run [of es "\<lambda>_. write_export out (auditPath s) es" ?s] run by auto
  let ?t = "set_file ?log ?d (?s\<lparr>stderr := stderr ?s @ w\<rparr>)"
  have "\<exists>n e o'. write_export out (auditPath s) es (?s\<lparr>stderr := stderr ?s @ w\<rparr>) =
      (if VerifyEvents es = None then Done () else Exit 3,
       (set_file ?man (manifest_text (clock ?t (ticks ?t)) es (auditPath s) (caller_actor ?t)) (?t\<lparr>ticks := n, stderr := e\<rparr>))\<lparr>stdout := o'\<rparr>)"
    using copy q(3) dest by (intro write_export_run) simp_all
  moreover have "clock ?t = clock s" "ticks ?t = ticks s" "caller_actor ?t = caller_actor s"
    by (simp_all add: caller_actor_def) (simp_all add: made_dir_def getenvOr_def os_Getenv_def)
  ultimately show ?thesis using w by (auto simp: same_path_def f)
qed

lemma main_export: "main bin [''audit'', ''export'', out] = runAuditExport out"
  by (simp add: main_command runAudit_def)

text \<open>
  C19. \<^verbatim>\<open>audit export\<close> to a directory apart from the log: the exported file is a copy of the log, byte for
  byte, the manifest says how many events it holds and whether they form a chain, the log is as
  before, and the exit code is 0 if they do and 3 if not.
\<close>

theorem export_copies_log:
  assumes "export_ready out s" and "file_at s (auditPath s) = Some d" and "stored_events s = Some es"
    and "\<not> same_path (auditPath s) (filepath_Join out ''audit.jsonl'')"
    and "\<not> same_path (auditPath s) (filepath_Join out ''manifest.json'')"
  shows "\<exists>s'. main bin [''audit'', ''export'', out] s = (if VerifyEvents es = None then Done () else Exit 3, s') \<and>
    file_at s' (filepath_Join out ''audit.jsonl'') = Some d \<and>
    file_at s' (filepath_Join out ''manifest.json'') = Some (manifest_text (clock s (ticks s)) es (auditPath s) (caller_actor s)) \<and>
    file_at s' (auditPath s) = Some d"
proof -
  have "out \<noteq> []" using assms(1) by (simp add: export_ready_def)
  then have "\<not> same_path (filepath_Join out ''audit.jsonl'') (filepath_Join out ''manifest.json'')"
    using export_plain by (simp add: same_path_def Clean_Join Join_inject)
  then show ?thesis
    using export_run [OF assms(1,3,2)] assms(2,4,5) by (auto simp: main_export same_path_def)
qed

definition export_os :: "string \<Rightarrow> os" where
  "export_os d = fresh_os\<lparr>files := [(''var/audit.jsonl'', d)], dirs := [''var'']\<rparr>"

lemma export_os_facts:
  "auditPath (export_os d) = ''var/audit.jsonl''" "file_at (export_os d) ''var/audit.jsonl'' = Some d"
  "export_ready ''out'' (export_os d)" "export_ready ''var'' (export_os d)"
proof -
  show p: "auditPath (export_os d) = ''var/audit.jsonl''"
    by (simp add: auditPath_def getenvOr_def os_Getenv_def fresh_os_def export_os_def)
  have c: "filepath_Clean ''var/audit.jsonl'' = ''var/audit.jsonl''" by code_simp
  then show f: "file_at (export_os d) ''var/audit.jsonl'' = Some d" by (simp add: file_at_def export_os_def)
  have q: "quiet (export_os d)" by (simp add: export_os_def quiet_def) (simp add: fresh_os_def valid_epoch)
  have "file_at (export_os d) ''out'' = None" "file_at (export_os d) ''var'' = None" by code_simp+
  moreover have "path_prefixes (filepath_Clean ''out'') = [''out'']" "path_prefixes (filepath_Clean ''var'') = [''var'']" by code_simp+
  moreover have "\<not> dir_exists (export_os d) ''var/audit.jsonl''"
    "\<not> dir_exists (made_dir ''out'' (export_os d)) (filepath_Join ''out'' ''audit.jsonl'')"
    "\<not> dir_exists (made_dir ''out'' (export_os d)) (filepath_Join ''out'' ''manifest.json'')"
    "\<not> dir_exists (made_dir ''var'' (export_os d)) (filepath_Join ''var'' ''audit.jsonl'')"
    "\<not> dir_exists (made_dir ''var'' (export_os d)) (filepath_Join ''var'' ''manifest.json'')"
    by code_simp+
  ultimately show "export_ready ''out'' (export_os d)" "export_ready ''var'' (export_os d)"
    using q f by (auto simp: export_ready_def p)
qed

theorem export_copies_log_witness:
  "\<exists>s'. main demo_binary [''audit'', ''export'', ''out''] (export_os ''{}'') = (Exit 3, s') \<and>
    file_at s' (filepath_Join ''out'' ''audit.jsonl'') = Some ''{}''"
proof -
  let ?s = "export_os ''{}''"
  note p = export_os_facts(1) [of "''{}''"]
  have "\<not> same_path (auditPath ?s) (filepath_Join ''out'' ''audit.jsonl'')"
      "\<not> same_path (auditPath ?s) (filepath_Join ''out'' ''manifest.json'')" unfolding p by code_simp+
  moreover have "stored_events ?s = Some [zero_event]"
    using export_os_facts(2) [of "''{}''"] by (simp add: stored_events_def p contents_def) code_simp
  moreover have "VerifyEvents [zero_event] \<noteq> None" by code_simp
  ultimately show ?thesis
    using export_copies_log [OF export_os_facts(3), of "''{}''" "''{}''" "[zero_event]" demo_binary] export_os_facts(2)
    by (auto simp: p)
qed

text \<open>
  C35. \<^verbatim>\<open>audit export\<close> to the directory of the log destroys the log: the destination is the source, it is
  truncated before it is copied, and the program reports success, with a manifest that counts the
  events that are gone. With the default path this is \<^verbatim>\<open>emilyos audit export var\<close>.
\<close>

theorem export_into_own_directory_destroys_log:
  assumes "export_ready out s" and "stored_events s = Some es" and "VerifyEvents es = None"
    and "same_path (filepath_Join out ''audit.jsonl'') (auditPath s)"
  shows "\<exists>s'. main bin [''audit'', ''export'', out] s = (Done (), s') \<and> file_at s' (auditPath s) = Some [] \<and>
    file_at s' (filepath_Join out ''manifest.json'') = Some (manifest_text (clock s (ticks s)) es (auditPath s) (caller_actor s))"
proof -
  obtain d where d: "file_at s (auditPath s) = Some d" using assms(1) by (auto simp: export_ready_def)
  have "out \<noteq> []" using assms(1) by (simp add: export_ready_def)
  then have "\<not> same_path (filepath_Join out ''audit.jsonl'') (filepath_Join out ''manifest.json'')"
    using export_plain by (simp add: same_path_def Clean_Join Join_inject)
  then show ?thesis
    using export_run [OF assms(1,2) d] assms(3,4) by (auto simp: main_export same_path_def)
qed

theorem export_into_own_directory_destroys_log_witness:
  "\<exists>s'. main demo_binary [''audit'', ''export'', ''var''] (export_os [newline]) = (Done (), s') \<and>
    file_at s' ''var/audit.jsonl'' = Some []"
proof -
  let ?s = "export_os [newline]"
  note p = export_os_facts(1) [of "[newline]"]
  have "same_path (filepath_Join ''var'' ''audit.jsonl'') (auditPath ?s)" unfolding p by code_simp
  moreover have "stored_events ?s = Some []"
    using export_os_facts(2) [of "[newline]"] by (simp add: stored_events_def p contents_def) code_simp
  moreover have "VerifyEvents [] = None" by (simp add: VerifyEvents_def)
  ultimately show ?thesis
    using export_into_own_directory_destroys_log [OF export_os_facts(4), of "[newline]" "[]" demo_binary] by (auto simp: p)
qed

end
