(* ===== verification/Cli_Capture.thy ===== *)
theory Cli_Capture
  imports Cli_Main "HOL-Library.Multiset"
begin

text \<open>
  What \<^verbatim>\<open>snapshot capture\<close> records when no call fails. The order in which Go ranges over a map is any
  permutation.
\<close>

section \<open>The captured roles\<close>

lemma captured_roles_eq:
  "capturePolicyRoles bin s =
     (let f = (\<lambda>role. ASlice (map AStr (map_order bin (ticks s) (map fst (CapsForRole role))))) in
      [(RoleAdmin, f RoleAdmin), (RoleAuditor, f RoleAuditor), (RoleOperator, f RoleOperator)])"
  by (simp add: capturePolicyRoles_def AllRoles_def Let_def insort_key.simps role_defs less_eq_list_code less_eq_char_def)

text \<open>A permutation of the keys, whatever the moment.\<close>

definition ranges_over :: "(nat \<Rightarrow> string list \<Rightarrow> string list) \<Rightarrow> bool" where
  "ranges_over ord \<longleftrightarrow> (\<forall>n xs. mset (ord n xs) = mset xs)"

lemma role_caps: "role \<in> set AllRoles \<Longrightarrow> set (map fst (CapsForRole role)) = {c. HasCapability role c}"
proof -
  have keys: "map fst (CapsForRole RoleAdmin) = [CapSessionOpen, CapPostureSet, CapPostureAdmin, CapExec, CapNet, CapDomainStart,
      CapDomainStop, CapSSHConnect, CapSSHManageHosts, CapSSHManageKeys, CapPolicyWrite, CapAuditRead, CapExport, CapFsGrant, CapFsRevoke]"
    "map fst (CapsForRole RoleOperator) = [CapSessionOpen, CapPostureSet, CapExec, CapNet, CapDomainStart, CapDomainStop, CapSSHConnect]"
    "map fst (CapsForRole RoleAuditor) = [CapAuditRead, CapExport]"
    by code_simp+
  have "set (map fst (CapsForRole RoleAdmin)) = {c. HasCapability RoleAdmin c}"
    "set (map fst (CapsForRole RoleOperator)) = {c. HasCapability RoleOperator c}"
    "set (map fst (CapsForRole RoleAuditor)) = {c. HasCapability RoleAuditor c}"
    unfolding keys HasCapability_admin HasCapability_operator HasCapability_auditor list.set Collect_mem_eq by (rule refl)+
  then show "role \<in> set AllRoles \<Longrightarrow> set (map fst (CapsForRole role)) = {c. HasCapability role c}"
    unfolding AllRoles_def by auto
qed

lemma cap_utf8: "HasCapability role c \<Longrightarrow> valid_utf8 c"
  by (subst (asm) HasCapability_roles)
    (auto simp: HasCapability_admin HasCapability_operator HasCapability_auditor cap_defs valid_utf8_ascii)

lemma keys_distinct: "distinct (map fst (CapsForRole role))"
proof -
  have "distinct (map fst (fold (\<lambda>(k, v) caps. AList.update k v caps) kvs m))" if "distinct (map fst m)" for kvs and m :: "(string \<times> bool) list"
    using that by (induction kvs arbitrary: m) (auto simp: distinct_update)
  then show ?thesis unfolding CapsForRole_def by simp
qed

lemma captured_roles:
  assumes "ranges_over (map_order bin)"
  shows "role \<in> set AllRoles \<Longrightarrow> \<exists>caps. map_of (capturePolicyRoles bin s) role = Some (ASlice (map AStr caps)) \<and>
      distinct caps \<and> set caps = {c. HasCapability role c}"
    and "map_ok (Some (capturePolicyRoles bin s))"
proof -
  let ?caps = "\<lambda>role. map_order bin (ticks s) (map fst (CapsForRole role))"
  have m: "mset (?caps r) = mset (map fst (CapsForRole r))" for r using assms by (simp add: ranges_over_def)
  have c: "set (?caps r) = {c. HasCapability r c}" "distinct (?caps r)" if "r \<in> set AllRoles" for r
    using role_caps [OF that] mset_eq_setD [OF m [of r]] keys_distinct [of r] mset_eq_imp_distinct_iff [OF m [of r]] by auto
  have look: "map_of (capturePolicyRoles bin s) r = Some (ASlice (map AStr (?caps r)))" if "r \<in> set AllRoles" for r
    using that by (auto simp: captured_roles_eq Let_def AllRoles_def role_defs)
  then show "role \<in> set AllRoles \<Longrightarrow> \<exists>caps. map_of (capturePolicyRoles bin s) role = Some (ASlice (map AStr caps)) \<and>
      distinct caps \<and> set caps = {c. HasCapability role c}"
    using c [of role] by blast
  have "\<forall>c\<in>set (?caps r). valid_utf8 c" if "r \<in> set AllRoles" for r using c(1) [OF that] cap_utf8 by auto
  then have "\<forall>c\<in>set (?caps RoleAdmin). valid_utf8 c" "\<forall>c\<in>set (?caps RoleAuditor). valid_utf8 c" "\<forall>c\<in>set (?caps RoleOperator). valid_utf8 c"
    unfolding AllRoles_def by auto
  moreover have srt: "sorted [RoleAdmin, RoleAuditor, RoleOperator]" and "distinct [RoleAdmin, RoleAuditor, RoleOperator]"
    by (simp_all add: role_defs less_eq_list_code less_eq_char_def)
  moreover have "valid_utf8 RoleAdmin" "valid_utf8 RoleAuditor" "valid_utf8 RoleOperator" by (simp_all add: role_defs valid_utf8_ascii)
  ultimately have "norm_map (Some (capturePolicyRoles bin s))"
    by (simp add: norm_map_def captured_roles_eq Let_def)
  moreover have "json_depth (TArr (map (tree_of_any \<circ> AStr) cs)) \<le> 1" for cs
  proof -
    have "fold max (map (json_depth \<circ> (tree_of_any \<circ> AStr)) cs) 0 \<le> 0" unfolding fold_max_le by auto
    then show ?thesis by simp
  qed
  then have "json_depth (tree_of_map (Some (capturePolicyRoles bin s))) \<le> 2"
    using srt by (simp add: tree_of_map_def captured_roles_eq Let_def tree_of_any_map del: tree_of_any.simps(7))
  ultimately show "map_ok (Some (capturePolicyRoles bin s))" by (simp add: map_ok_def max_nesting_depth_def)
qed

section \<open>Capture\<close>

lemma main_capture:
  "NewSnapshotStore (snapshotPath s) s = (Inr ss, s1) \<Longrightarrow> main bin [''snapshot'', ''capture''] s = snapshot_capture bin ss s1"
  by (simp add: main_command runSnapshot_def cli_run)

lemma entries_of_output [simp]: "entries_of (s\<lparr>stderr := w\<rparr>) d = entries_of s d"
  by (simp add: entries_of_def)

lemma store_ready_frame [simp]:
  "store_ready ss (s\<lparr>stderr := w\<rparr>) = store_ready ss s" "store_ready ss (s\<lparr>stdout := w\<rparr>) = store_ready ss s"
  "store_ready ss (s\<lparr>ticks := n\<rparr>) = store_ready ss s"
  by (simp_all add: store_ready_def)

text \<open>Finding the latest snapshot does not depend on what was printed.\<close>

lemma Latest_output:
  assumes "quiet s"
  shows "Latest ss (s\<lparr>stderr := w\<rparr>) = (fst (Latest ss s), s\<lparr>stderr := w\<rparr>)"
proof -
  have f: "faults s = []" using assms by (simp add: quiet_def)
  have r: "os_ReadFile p (s\<lparr>stderr := w\<rparr>) = (fst (os_ReadFile p s), s\<lparr>stderr := w\<rparr>)" "snd (os_ReadFile p s) = s" for p
    using f by (auto simp: os_ReadFile_def split: option.splits)
  have g: "Get ss k (s\<lparr>stderr := w\<rparr>) = (fst (Get ss k s), s\<lparr>stderr := w\<rparr>)" "snd (Get ss k s) = s" for k
    using r [of "snapshot_file ss k"] by (auto simp: Get_def split: prod.splits sum.splits option.splits)
  have d: "os_ReadDir p (s\<lparr>stderr := w\<rparr>) = (fst (os_ReadDir p s), s\<lparr>stderr := w\<rparr>)" "snd (os_ReadDir p s) = s" for p
    using f by (auto simp: os_ReadDir_def)
  show ?thesis
  proof (cases "os_ReadDir (sdir ss) s")
    case (Pair r t)
    then have "t = s" using d(2) [of "sdir ss"] by simp
    with Pair show ?thesis
      using d(1) [of "sdir ss"] g by (cases r) (auto simp: Latest_def Let_def split: prod.splits sum.splits)
  qed
qed

text \<open>The snapshot before it is hashed.\<close>

definition captured :: "binary \<Rightarrow> string \<Rightarrow> string \<Rightarrow> os \<Rightarrow> snapshot" where
  "captured bin actor prev s =
     zero_snapshot\<lparr>SnapshotID := ''snap-'' @ format_stamp (clock s (ticks s)), CreatedAt := clock s (Suc (ticks s)),
       SActorID := actor, GitCommit := buildCommit bin, BuildID := bversion bin @ ''+'' @ buildDate bin,
       PrevSnapshotID := prev, Roles := Some (capturePolicyRoles bin (s\<lparr>ticks := Suc (Suc (ticks s))\<rparr>))\<rparr>"

lemma captured_ok:
  assumes "quiet s" and "ranges_over (map_order bin)" and "valid_utf8 actor" and "valid_utf8 prev"
    and "valid_utf8 (buildCommit bin)" and "valid_utf8 (bversion bin)" and "valid_utf8 (buildDate bin)"
  shows "snapshot_ok (captured bin actor prev s)" and "id_ok (SnapshotID (captured bin actor prev s))"
proof -
  have v: "valid_time (clock s n)" for n using assms(1) by (simp add: quiet_def)
  show id: "id_ok (SnapshotID (captured bin actor prev s))" using id_ok_stamp [OF v] by (simp add: captured_def)
  have dig: "is_digit c \<Longrightarrow> byte c < 128" for c by (simp add: is_digit_def)
  have "byte c < 128" if "c \<in> set (format_stamp u)" for c u
    using that dig [OF digits_fixed_digits, of c] dig [OF dec_digits, of c]
    by (auto simp: format_stamp_def fmt_year_def simp del: digits_fixed.simps split: if_splits)
  then have "valid_utf8 (''snap-'' @ format_stamp (clock s (ticks s)))" by (intro valid_utf8_ascii) auto
  moreover have "valid_utf8 (bversion bin @ ''+'' @ buildDate bin)"
    using assms(6,7) valid_utf8_append [of "''+''"] valid_utf8_append [of "bversion bin"] by (simp add: valid_utf8_ascii)
  moreover have "map_ok None" by (simp add: map_ok_def norm_map_def tree_of_map_def max_nesting_depth_def)
  ultimately show "snapshot_ok (captured bin actor prev s)"
    using assms v captured_roles(2) [OF assms(2)] by (simp add: snapshot_ok_def captured_def zero_snapshot_def)
qed

text \<open>
  C17. \<^verbatim>\<open>snapshot capture\<close> leaves a true record of the policy. Whatever order the maps are walked in, the
  snapshot it writes is found under an identifier made from the clock, has a valid hash, names the
  latest snapshot before it, and lists for every role exactly the capabilities that the dispatcher
  grants it, each once.
\<close>

theorem capture_records_policy:
  assumes "NewSnapshotStore (snapshotPath s) s = (Inr ss, s1)" and "store_ready ss s1" and "Latest ss s1 = (Inr prev, s1)"
    and "ranges_over (map_order bin)" and "valid_utf8 (caller_actor s)"
    and "valid_utf8 (buildCommit bin)" and "valid_utf8 (bversion bin)" and "valid_utf8 (buildDate bin)"
    and "valid_utf8 (case prev of None \<Rightarrow> [] | Some y \<Rightarrow> SnapshotID y)"
  shows "\<exists>x s'. main bin [''snapshot'', ''capture''] s = (Done (), s') \<and> Get ss (SnapshotID x) s' = (Inr x, s') \<and>
    SnapshotID x = ''snap-'' @ format_stamp (clock s (ticks s)) \<and> SHash x = ComputeSnapshotHash x \<and>
    SActorID x = caller_actor s \<and> PrevSnapshotID x = (case prev of None \<Rightarrow> [] | Some y \<Rightarrow> SnapshotID y) \<and>
    (\<forall>role\<in>set AllRoles. \<exists>roles caps. Roles x = Some roles \<and> map_of roles role = Some (ASlice (map AStr caps)) \<and>
       distinct caps \<and> set caps = {c. HasCapability role c})"
proof -
  let ?prev = "case prev of None \<Rightarrow> [] | Some y \<Rightarrow> SnapshotID y"
  have s1: "clock s1 = clock s" "ticks s1 = ticks s" "env s1 = env s"
    using assms(1)
    by (auto simp: NewSnapshotStore_def os_MkdirAll_def split: prod.splits option.splits if_splits dest!: take_fault_frame)
  have q: "quiet s1" using assms(2) by (simp add: store_ready_def)
  have same: "clock s1 = clock s" "ticks s1 = ticks s" "caller_actor s1 = caller_actor s"
    using s1 by (simp_all add: caller_actor_def getenvOr_def os_Getenv_def)
  let ?x = "captured bin (caller_actor s) ?prev s1"
  let ?t = "s1\<lparr>stderr := stderr s1 @ caller_warning s1, ticks := Suc (Suc (ticks s1))\<rparr>"
  have ok: "snapshot_ok ?x" "id_ok (SnapshotID ?x)" using captured_ok [OF q assms(4)] assms(5-9) by blast+
  obtain d where d: "marshal_snapshot (hashed ?x) = Some d" "Write ss ?x ?t = (None, hashed ?x, set_file (snapshot_file ss (SnapshotID ?x)) d ?t)"
    using Write_eq [of ss ?t ?x] assms(2) ok by auto
  have len: "16 \<le> length (SHash (hashed ?x))" by (simp add: hashed_def computeSnapshotHash_def length_sha256_hex)
  let ?s' = "(set_file (snapshot_file ss (SnapshotID ?x)) d ?t)\<lparr>stdout := stdout s1 @ ''snapshot captured: '' @ SnapshotID ?x @ '' (hash='' @
    take 16 (SHash (hashed ?x)) @ '')'' @ [newline]\<rparr>"
  let ?u = "s1\<lparr>stderr := stderr s1 @ caller_warning s1\<rparr>" and ?new = "?x\<lparr>Roles := None\<rparr>"
  have "Latest ss ?u = (Inr prev, ?u)" using Latest_output [OF q, of ss] assms(3) by simp
  then have new: "new_snapshot bin ss (caller_context s1) ?u = (Done ?new, ?t)"
    using same(3) by (simp add: new_snapshot_def previous_id_def latest_or_nil_def bnd_assoc bnd_call NewSnapshotID_def time_Now_def
        captured_def caller_context_def zero_snapshot_def) (simp add: ret_def)
  have roles: "?x\<lparr>Roles := Some (capturePolicyRoles bin ?t)\<rparr> = ?x"
    by (simp add: captured_def capturePolicyRoles_def)
  have "snapshot_capture bin ss s1 = (Done (), ?s')"
    unfolding snapshot_capture_def bnd_context [OF q]
    using len by (simp add: bnd_def [of "new_snapshot bin ss (caller_context s1)"] new cli_run roles d(2) slice_to_def fmt_Print_def hashed_def)
  moreover have "Get ss (SnapshotID (hashed ?x)) ?s' = (Inr (hashed ?x), ?s')"
    using Get_eq [of ss ?s' "SnapshotID ?x"] assms(2) ok unmarshal_hashed [OF ok(1) d(1)] by (simp add: hashed_def)
  moreover have "Roles (hashed ?x) = Some (capturePolicyRoles bin (s1\<lparr>ticks := Suc (Suc (ticks s1))\<rparr>))"
    "SnapshotID (hashed ?x) = ''snap-'' @ format_stamp (clock s (ticks s))" "SHash (hashed ?x) = ComputeSnapshotHash (hashed ?x)"
    "SActorID (hashed ?x) = caller_actor s" "PrevSnapshotID (hashed ?x) = ?prev"
    using same by (simp_all add: hashed_def captured_def ComputeSnapshotHash_def)
  ultimately show ?thesis
    using main_capture [OF assms(1)] captured_roles(1) [OF assms(4)] by (intro exI [of _ "hashed ?x"] exI [of _ ?s']) auto
qed

lemma demo_ranges: "ranges_over (map_order demo_binary)"
  by (simp add: ranges_over_def demo_binary_def)

theorem capture_records_policy_witness:
  "\<exists>x s'. main demo_binary [''snapshot'', ''capture''] demo_store_os = (Done (), s') \<and>
     Get demo_store (SnapshotID x) s' = (Inr x, s') \<and> SHash x = ComputeSnapshotHash x \<and>
     (\<exists>roles caps. Roles x = Some roles \<and> map_of roles RoleAuditor = Some (ASlice (map AStr caps)) \<and>
        set caps = {c. HasCapability RoleAuditor c})"
proof -
  let ?t = "demo_store_os\<lparr>dirs := [''var'', ''var/snapshots''] @ dirs demo_store_os\<rparr>"
  have p: "snapshotPath demo_store_os = ''var/snapshots''" by code_simp
  have "path_prefixes (filepath_Clean ''var/snapshots'') = [''var'', ''var/snapshots'']" by code_simp
  then have 1: "NewSnapshotStore (snapshotPath demo_store_os) demo_store_os = (Inr demo_store, ?t)"
    by (simp add: p NewSnapshotStore_def os_MkdirAll_def demo_store_def) (simp add: demo_store_os_def fresh_os_def file_at_def)
  have "dir_exists ?t q = dir_exists demo_store_os q" for q by (auto simp: dir_exists_def demo_store_os_def)
  then have 2: "store_ready demo_store ?t" using demo_store_ready by (simp add: store_ready_def)
  have "entries_of ?t (sdir demo_store) = []" "dir_exists ?t (sdir demo_store)" by code_simp+
  moreover have "faults ?t = []" by (simp add: demo_store_os_def fresh_os_def)
  ultimately have 3: "Latest demo_store ?t = (Inr None, ?t)" by (simp add: Latest_def os_ReadDir_def demo_store_def)
  have a: "caller_actor demo_store_os = ''unknown''" by code_simp
  show ?thesis
    using capture_records_policy [OF 1 2 3 demo_ranges] a
    by (auto simp: demo_binary_def valid_utf8_ascii AllRoles_def)
qed

end
