(* ===== verification/Cli_Fs.thy ===== *)
theory Cli_Fs
  imports Cli_Safety Cli_Results Cli_Capture
begin

text \<open>
  What \<^verbatim>\<open>fs grant\<close> and \<^verbatim>\<open>fs revoke\<close> do from beginning to end when no call of the operating system fails,
  whatever \<^verbatim>\<open>setfacl\<close> answers: who may, what runs, what is logged, and the snapshot that records the
  change.
\<close>

section \<open>The handler\<close>

definition fs_commands :: "string \<Rightarrow> string \<Rightarrow> string \<Rightarrow> string list list" where
  "fs_commands sub i p = (if sub = ''grant'' then grant_commands i p else revoke_commands i p)"

text \<open>
  The outcome of an attempt depends on the commands attempted before, and on nothing else of the
  world.
\<close>

lemma acl_local:
  assumes "execs t = execs s"
  shows "fst (Grant run i p t) = fst (Grant run i p s)" "execs (snd (Grant run i p t)) = execs (snd (Grant run i p s))"
    "fst (Revoke run i p t) = fst (Revoke run i p s)" "execs (snd (Revoke run i p t)) = execs (snd (Revoke run i p s))"
  using assms by (auto simp: Grant_def Revoke_def exec_command_def Let_def split: option.splits)

lemma fs_action_local:
  assumes "fs_verb_of sub = Some v" and "execs t = execs s"
  shows "fst (fs_action v run i p t) = fst (fs_action v run i p s)"
    and "execs (snd (fs_action v run i p t)) = execs (snd (fs_action v run i p s))"
proof -
  note g = acl_local(1,2) [OF assms(2), of run "c_string i" "c_string p"]
  have "fst (TriggerGrant run i p t) = fst (TriggerGrant run i p s)"
    "execs (snd (TriggerGrant run i p t)) = execs (snd (TriggerGrant run i p s))"
    using g(1) acl_local(1,2) [OF g(2), of run i p] by (simp_all add: grant.trigger_eq split_def g(2))
  moreover note r = acl_local(3,4) [OF assms(2), of run "c_string i" "c_string p"]
  have "fst (TriggerRevoke run i p t) = fst (TriggerRevoke run i p s)"
    "execs (snd (TriggerRevoke run i p t)) = execs (snd (TriggerRevoke run i p s))"
    using r(1) acl_local(3,4) [OF r(2), of run i p] by (simp_all add: revoke.trigger_eq split_def r(2))
  ultimately show "fst (fs_action v run i p t) = fst (fs_action v run i p s)"
    "execs (snd (fs_action v run i p t)) = execs (snd (fs_action v run i p s))"
    using assms(1) by (auto simp: fs_verb_of_def split: if_splits)
qed

text \<open>What an attempt runs, by the contract of the mod.\<close>

lemma fs_action_runs:
  assumes "fs_verb_of sub = Some v" and "CHR 0x00 \<notin> set i" and "CHR 0x00 \<notin> set p" and "fs_action v run i p s = (r, s')"
  shows "\<exists>cs. s' = s\<lparr>execs := execs s @ cs\<rparr> \<and> set cs \<subseteq> set (fs_commands sub i p) \<and>
      (r = None \<longrightarrow> (\<exists>earlier. cs = earlier @ fs_commands sub i p))"
    and "denied_path p \<Longrightarrow> r = checkDenylist p \<and> s' = s"
proof -
  have v: "fs_action v = TriggerGrant \<and> fs_commands sub = grant_commands \<or> fs_action v = TriggerRevoke \<and> fs_commands sub = revoke_commands"
    using assms(1) by (auto simp: fs_verb_of_def fs_commands_def fun_eq_iff split: if_splits)
  show "\<exists>cs. s' = s\<lparr>execs := execs s @ cs\<rparr> \<and> set cs \<subseteq> set (fs_commands sub i p) \<and>
      (r = None \<longrightarrow> (\<exists>earlier. cs = earlier @ fs_commands sub i p))"
    using v
  proof (elim disjE conjE)
    assume "fs_action v = TriggerGrant" "fs_commands sub = grant_commands"
    then show ?thesis using grant.trigger_runs [OF assms(2,3), of run s r s'] assms(4) by simp blast
  next
    assume "fs_action v = TriggerRevoke" "fs_commands sub = revoke_commands"
    then show ?thesis using revoke.trigger_runs [OF assms(2,3), of run s r s'] assms(4) by simp blast
  qed
  assume d: "denied_path p"
  have c: "c_string i = i" "c_string p = p" using grant.c_string_id assms(2,3) by blast+
  have "checkDenylist p \<noteq> None" using checkDenylist_None [of p] d by simp
  then have "Grant run i p s = (checkDenylist p, s)" "Revoke run i p s = (checkDenylist p, s)" for s
    by (auto simp: Grant_def Revoke_def)
  with \<open>checkDenylist p \<noteq> None\<close> v assms(4) c show "r = checkDenylist p \<and> s' = s"
    by (auto simp: grant.trigger_eq revoke.trigger_eq)
qed

text \<open>The answers of \<^verbatim>\<open>setfacl\<close> are text: its error and its output are valid UTF-8.\<close>

definition setfacl_utf8 :: "binary \<Rightarrow> bool" where
  "setfacl_utf8 bin \<longleftrightarrow> (\<forall>h c err out. setfacl bin h c = Some (err, out) \<longrightarrow> valid_utf8 (Error err) \<and> valid_utf8 out)"

lemma denylisted_utf8: "valid_utf8 p \<Longrightarrow> checkDenylist p = Some e \<Longrightarrow> valid_utf8 (Error e)"
proof -
  assume p: "valid_utf8 p" and "checkDenylist p = Some e"
  then obtain q where e: "e = ErrDenylisted p q" "\<forall>c\<in>set q. byte c < 128"
    unfolding checkDenylist_def denylist_def check_patterns.simps by (auto split: if_splits)
  have "valid_utf8 (''fsacl: path '' @ fmt_q p @ '' matches standing denylist pattern '' @ fmt_q q @ '' -- refused'')"
    using valid_utf8_fmt_q [OF p] valid_utf8_fmt_q [OF valid_utf8_ascii [OF e(2)]]
    by (intro valid_utf8_append) (simp_all add: valid_utf8_ascii)
  then show ?thesis by (simp add: e(1) ErrDenylisted_Error_def)
qed

lemma wrapped_utf8:
  "valid_utf8 pre \<Longrightarrow> valid_utf8 (Error err) \<Longrightarrow> valid_utf8 out \<Longrightarrow> valid_utf8 (Error (WrapError pre err (CHR '':'' # CHR '' '' # out)))"
  using valid_utf8_append [of "'': ''" out] by (simp add: valid_utf8_append valid_utf8_ascii)

lemma acl_error_utf8:
  assumes "setfacl_utf8 bin" and "valid_utf8 p"
  shows "fst (Grant (setfacl bin) i p s) = Some e \<Longrightarrow> valid_utf8 (Error e)"
    and "fst (Revoke (setfacl bin) i p s) = Some e \<Longrightarrow> valid_utf8 (Error e)"
  using assms denylisted_utf8 [OF assms(2)]
  by (auto simp: Grant_def Revoke_def exec_command_def Let_def setfacl_utf8_def valid_utf8_ascii
      simp del: Error.simps intro!: wrapped_utf8 split: option.splits)

lemma fs_error_utf8:
  assumes "fs_verb_of sub = Some v" and "setfacl_utf8 bin" and "valid_utf8 p" and "fs_action v (setfacl bin) i p s = (Some e, s')"
  shows "valid_utf8 (Error e)"
proof -
  have "\<exists>t. fst (Grant (setfacl bin) i p t) = Some e \<or> fst (Revoke (setfacl bin) i p t) = Some e"
    using assms(1,4)
    by (auto simp: fs_verb_of_def grant.trigger_eq revoke.trigger_eq split: if_splits prod.splits) (metis fst_conv)+
  then show ?thesis using acl_error_utf8 [OF assms(2,3)] by blast
qed

lemma fs_handler_safe:
  assumes "fs_verb_of sub = Some v" and "setfacl_utf8 bin" and "valid_utf8 p"
  shows "log_safe q meta (fs_handler bin v i p ctx obj meta)"
proof -
  have "\<exists>xs. s' = s\<lparr>execs := xs\<rparr>" if "fs_action v (setfacl bin) i p s = (r, s')" for s r s'
    using fs_verb_cases(2) [OF assms(1), of "setfacl bin" i p s] that by simp
  then show ?thesis
    using fs_error_utf8 [OF assms]
    by (fastforce simp: log_safe_def fs_handler_def split: prod.splits)
qed

lemma fs_capabilities:
  "HasCapability role CapFsGrant \<longleftrightarrow> role = RoleAdmin" "HasCapability role CapFsRevoke \<longleftrightarrow> role = RoleAdmin"
  by (subst HasCapability_roles, simp add: HasCapability_operator HasCapability_admin HasCapability_auditor cap_defs)+

lemma fs_verdicts: "CapabilityVerdict CapFsGrant m = PassThrough" "CapabilityVerdict CapFsRevoke m = PassThrough"
  by (simp_all add: CapabilityVerdict_def postureCapOverrides_def cap_defs)

text \<open>No posture overrides the two capabilities, so the role alone decides.\<close>

lemma fs_decision:
  assumes "fs_verb_of sub = Some v"
  shows "decision role (fs_cap v) st obj = (if role = RoleAdmin then None else Some (''rbac.'' @ fs_cap v @ ''.missing''))"
  using assms by (auto simp: fs_verb_of_def decision_def fs_capabilities fs_verdicts split: if_splits)

section \<open>The session\<close>

lemma store_opened:
  assumes "session_ready s es st" and "NewSnapshotStore (snapshotPath s) (log_opened s) = (Inr ss, t)"
  shows "log_state (resume (auditPath s) es) t es" and "sdir ss = snapshotPath s"
    and "env t = env s" "hostname t = hostname s" "pid t = pid s" "faults t = []" "execs t = execs s"
proof -
  have q: "faults (log_opened s) = []" using assms(1) by (simp add: session_ready_def quiet_def)
  then have t: "t = (log_opened s)\<lparr>dirs := path_prefixes (filepath_Clean (snapshotPath s)) @ dirs (log_opened s)\<rparr>"
      "sdir ss = snapshotPath s" "\<forall>r\<in>set (path_prefixes (filepath_Clean (snapshotPath s))). file_at (log_opened s) r = None"
    using assms(2) by (auto simp: NewSnapshotStore_def os_MkdirAll_def split: if_splits)
  show "sdir ss = snapshotPath s" "env t = env s" "hostname t = hostname s" "pid t = pid s" "faults t = []" "execs t = execs s"
    using t(1,2) q by simp_all
  note l = session_open(2) [OF assms(1)]
  have "filepath_Clean (auditPath s) \<notin> set (path_prefixes (filepath_Clean (snapshotPath s)))"
    using t(3) l by (force simp: log_state_def resume_def file_at_def)
  then show "log_state (resume (auditPath s) es) t es"
    using l by (auto simp: log_state_def t(1) dir_exists_def resume_def quiet_def file_at_def)
qed

section \<open>The record\<close>

definition fs_change :: "fs_verb \<Rightarrow> string \<Rightarrow> string \<Rightarrow> gomap option" where
  "fs_change v i p = Some [(''identity'', AStr i), (''path'', AStr p), (''verb'', AStr (fs_name v))]"

text \<open>\<^verbatim>\<open>latest, _ := ss.Latest()\<close>: an error counts as no snapshot.\<close>

definition found :: "(go_error + snapshot option) \<Rightarrow> snapshot option" where
  "found r = (case r of Inl _ \<Rightarrow> None | Inr x \<Rightarrow> x)"

lemma latest_run: "quiet u \<Longrightarrow> latest_or_nil (Inr ss) u = (Done (found (fst (Latest ss u))), u)"
proof -
  assume q: "quiet u"
  have "Latest ss u = (fst (Latest ss u), u)" using Latest_output [OF q, of ss "stderr u"] by simp
  then obtain r where "Latest ss u = (r, u)" by metis
  then show ?thesis by (simp add: latest_or_nil_def bnd_call found_def) (simp add: ret_def)
qed

lemma previous_id_run: "quiet u \<Longrightarrow> \<exists>prev. previous_id ss u = (Done prev, u)"
  by (simp add: previous_id_def bnd_def [of "latest_or_nil (Inr ss)"] latest_run) (simp add: ret_def)

lemma new_snapshot_run:
  assumes "quiet u"
  shows "\<exists>x. new_snapshot bin ss ctx u = (Done x, u\<lparr>ticks := Suc (Suc (ticks u))\<rparr>) \<and> valid_time (CreatedAt x) \<and>
    id_ok (SnapshotID x) \<and> SActorID x = VActorID ctx"
proof -
  obtain prev where "previous_id ss u = (Done prev, u)" using previous_id_run [OF assms] by blast
  then show ?thesis
    using assms id_ok_stamp [of "clock u (ticks u)"]
    by (simp add: new_snapshot_def bnd_def [of "previous_id ss"] bnd_call NewSnapshotID_def time_Now_def ret_def quiet_def)
qed

lemma fs_record_run:
  assumes "store_ready ss u"
  shows "\<exists>x d out n. fs_record bin ss ctx v i p u =
      (Done (), (set_file (snapshot_file ss (SnapshotID x)) d (u\<lparr>ticks := n\<rparr>))\<lparr>stdout := out\<rparr>) \<and>
    marshal_snapshot x = Some d \<and> id_ok (SnapshotID x) \<and> SHash x = ComputeSnapshotHash x \<and>
    SActorID x = VActorID ctx \<and> Capabilities x = fs_change v i p"
proof -
  have q: "quiet u" using assms by (simp add: store_ready_def)
  let ?u = "u\<lparr>ticks := Suc (Suc (ticks u))\<rparr>"
  obtain x0 where new: "new_snapshot bin ss ctx u = (Done x0, ?u)"
      and ok0: "valid_time (CreatedAt x0)" "id_ok (SnapshotID x0)" "SActorID x0 = VActorID ctx"
    using new_snapshot_run [OF q] by blast
  let ?x = "x0\<lparr>Capabilities := fs_change v i p\<rparr>"
  obtain d where d: "marshal_snapshot (hashed ?x) = Some d"
      "Write ss ?x ?u = (None, hashed ?x, set_file (snapshot_file ss (SnapshotID x0)) d ?u)"
    using Write_stored [of ss ?u ?x] assms ok0 by auto
  have len: "16 \<le> length (SHash (hashed ?x))" by (simp add: hashed_def computeSnapshotHash_def length_sha256_hex)
  obtain out where "fs_record bin ss ctx v i p u = (Done (), (set_file (snapshot_file ss (SnapshotID x0)) d ?u)\<lparr>stdout := out\<rparr>)"
    using len d(2) by (simp add: fs_record_def bnd_def [of "new_snapshot bin ss ctx"] new cli_run slice_to_def fmt_Print_def
        fs_change_def)
  moreover have "id_ok (SnapshotID (hashed ?x))" "SHash (hashed ?x) = ComputeSnapshotHash (hashed ?x)"
    "SActorID (hashed ?x) = VActorID ctx" "Capabilities (hashed ?x) = fs_change v i p" "SnapshotID (hashed ?x) = SnapshotID x0"
    using ok0 by (simp_all add: hashed_def ComputeSnapshotHash_def)
  ultimately show ?thesis using d(1) by metis
qed

section \<open>From beginning to end\<close>

definition fs_meta :: "string \<Rightarrow> string \<Rightarrow> string \<Rightarrow> gomap option" where
  "fs_meta role i p = Some [(''actor_role'', AStr role), (''identity'', AStr i), (''path'', AStr p)]"

lemma fs_meta_ok:
  "valid_utf8 role \<Longrightarrow> valid_utf8 i \<Longrightarrow> valid_utf8 p \<Longrightarrow>
   fs_meta role i p \<noteq> Some [] \<and> norm_map (fs_meta role i p) \<and> json_depth (tree_of_map (fs_meta role i p)) < max_nesting_depth"
  by (simp add: fs_meta_def norm_map_def tree_of_map_def max_nesting_depth_def valid_utf8_ascii less_eq_list_code less_eq_char_def)

lemma fs_dispatch_run:
  assumes "session_ready s es st" and "NewSnapshotStore (snapshotPath s) (log_opened s) = (Inr ss, t)" and "store_ready ss t"
    and "fs_verb_of sub = Some v" and "setfacl_utf8 bin" and "valid_utf8 i" and "valid_utf8 p"
    and "dcn = decision (caller_role s) (fs_cap v) st (''fs:'' @ p)" and "fs_action v (setfacl bin) i p s = (r, sr)"
  shows "\<exists>d' u fs. Dispatch (caller_context s) (fs_name v) (''fs:'' @ p) (fs_meta (caller_role s) i p)
      (Register (fs_name v) (fs_cap v) (fs_handler bin v i p) (verb_New (resume (auditPath s) es) \<lparr>current = st, mpath = posturePath s\<rparr>))
      (t\<lparr>stderr := w\<rparr>) = (answer (fs_name v) dcn r, d', u) \<and>
    list_all2 same_entry (request_trail (caller_context s) (fs_name v) (''fs:'' @ p) (fs_meta (caller_role s) i p) dcn r) fs \<and>
    log_state (dlog d') u (es @ fs) \<and> lf (dlog d') = auditPath s \<and> store_ready ss u \<and>
    execs u = (if dcn = None then execs sr else execs s)"
proof -
  let ?h = "fs_handler bin v i p" and ?ctx = "caller_context s" and ?meta = "fs_meta (caller_role s) i p"
  let ?act = "fs_action v (setfacl bin) i p"
  note t = store_opened [OF assms(1,2)]
  have res: "fst (?h ?ctx (''fs:'' @ p) ?meta u) = r" if "execs u = execs (t\<lparr>stderr := w\<rparr>)" for u
    using fs_action_local(1) [OF assms(4), of u s "setfacl bin" i p] that t(7) assms(9) by (simp add: fs_handler_def split_def)
  have keep: "fst (snd (?h ?ctx (''fs:'' @ p) ?meta u)) = ?meta" for u by (simp add: fs_handler_def split_def)
  have utf: "valid_utf8 (fs_name v)" "valid_utf8 (fs_cap v)" "valid_utf8 (''fs:'' @ p)" "valid_utf8 (caller_role s)"
    using assms(4,7) role_utf8 valid_utf8_append [of "''fs:''" p]
    by (auto simp: fs_verb_of_def cap_defs valid_utf8_ascii split: if_splits)
  note meta = fs_meta_ok [OF utf(4) assms(6,7)]
  have l: "log_state (resume (auditPath s) es) (t\<lparr>stderr := w\<rparr>) es" using t(1) by simp
  obtain d' u fs where 1: "Dispatch ?ctx (fs_name v) (''fs:'' @ p) ?meta
      (Register (fs_name v) (fs_cap v) ?h (verb_New (resume (auditPath s) es) \<lparr>current = st, mpath = posturePath s\<rparr>))
      (t\<lparr>stderr := w\<rparr>) = (answer (fs_name v) dcn r, d', u)"
    "list_all2 same_entry (request_trail ?ctx (fs_name v) (''fs:'' @ p) ?meta dcn r) fs"
    "log_state (dlog d') u (es @ fs)" "lf (dlog d') = auditPath s"
    and obs: "\<forall>obs g. (\<forall>e l t. lf l = auditPath s \<longrightarrow> obs (snd (snd (Log e l t))) = obs t) \<longrightarrow>
       (\<forall>t. obs (snd (snd (?h ?ctx (''fs:'' @ p) ?meta t))) = g (obs t)) \<longrightarrow>
       obs u = (if dcn = None then g (obs (t\<lparr>stderr := w\<rparr>)) else obs (t\<lparr>stderr := w\<rparr>) :: string list list \<times> string list)"
    using session_request [where h = ?h and ctx = ?ctx and obj = "''fs:'' @ p" and meta = ?meta and r = r,
        OF assms(1) utf(1,3,2) _ _ _ fs_handler_safe [OF assms(4,5,7)] res keep refl l assms(8)] meta by blast
  let ?g = "\<lambda>(xs, ds). (execs (snd (?act (fresh_os\<lparr>execs := xs\<rparr>))), ds)"
  have act: "execs (snd (?act w)) = execs (snd (?act (fresh_os\<lparr>execs := execs w\<rparr>)))" "dirs (snd (?act w)) = dirs w" for w
    using fs_action_local(2) [OF assms(4), of w "fresh_os\<lparr>execs := execs w\<rparr>"]
      fs_verb_cases(2) [OF assms(4), of "setfacl bin" i p w] by auto
  have "(\<lambda>s. (execs s, dirs s)) (snd (snd (?h ?ctx (''fs:'' @ p) ?meta w))) = ?g ((\<lambda>s. (execs s, dirs s)) w)" for w
    using act [of w] by (simp add: fs_handler_def split_def)
  then have "(execs u, dirs u) = (if dcn = None then ?g (execs t, dirs t) else (execs t, dirs t))"
    using obs [rule_format, of "\<lambda>s. (execs s, dirs s)" ?g] Log_keeps by simp
  then have d: "dirs u = dirs t" and x: "execs u = (if dcn = None then execs sr else execs s)"
    using act(1) [of s] t(7) assms(9) by (auto split: if_splits)
  from d have "dir_exists u q = dir_exists t q" for q by (simp add: dir_exists_def)
  then have "store_ready ss u" using assms(3) 1(3) by (simp add: store_ready_def log_state_def)
  with 1 x show ?thesis by auto
qed

lemma fs_dispatch_eq:
  assumes "session_ready s es st" and "NewSnapshotStore (snapshotPath s) (log_opened s) = (Inr ss, t)" and "quiet t"
    and "fs_verb_of sub = Some v"
    and "Dispatch (caller_context s) (fs_name v) (''fs:'' @ p) (fs_meta (caller_role s) i p)
      (Register (fs_name v) (fs_cap v) (fs_handler bin v i p) (verb_New (resume (auditPath s) es) \<lparr>current = st, mpath = posturePath s\<rparr>))
      (t\<lparr>stderr := stderr t @ caller_warning t\<rparr>) = (a, d', u)"
  shows "fs_dispatch bin sub i p (resume (auditPath s) es) (log_opened s) =
      (case a of
         Some e \<Rightarrow> die (fs_name v @ (if IsDenied a then '' denied: '' else '' error: '') @ Error e) u
       | None \<Rightarrow> fs_record bin ss (caller_context s) v i p u)"
proof -
  note t = store_opened [OF assms(1,2)]
  have "faults s = []" using assms(1) by (simp add: session_ready_def quiet_def)
  then have ctx: "caller_context t = caller_context s" using t by (intro caller_context_cong) simp_all
  have role: "VRole (caller_context s) = caller_role s" by (simp add: caller_context_def)
  have paths: "posturePath (log_opened s) = posturePath s" "snapshotPath (log_opened s) = snapshotPath s"
    using path_cong [of "log_opened s" s] by simp_all
  note d = assms(5) [unfolded fs_meta_def]
  show ?thesis
    using session_open(3) [OF assms(1)] assms(2,4) d
    by (cases a) (simp_all add: fs_dispatch_def cli_run paths bnd_context [OF assms(3)] ctx role)
qed

text \<open>What runs on behalf of a role, and that nothing does for a denied path or another role.\<close>

lemma fs_attempt:
  assumes "fs_verb_of sub = Some v" and "CHR 0x00 \<notin> set i" and "CHR 0x00 \<notin> set p" and "fs_action v run i p s = (r, sr)"
  shows "\<exists>cs. (if role = RoleAdmin then execs sr else execs s) = execs s @ cs \<and>
    (if role = RoleAdmin \<and> \<not> denied_path p
     then set cs \<subseteq> set (fs_commands sub i p) \<and> (r = None \<longrightarrow> (\<exists>earlier. cs = earlier @ fs_commands sub i p))
     else cs = [] \<and> (denied_path p \<longrightarrow> r = checkDenylist p \<and> r \<noteq> None))"
proof (cases "role = RoleAdmin \<and> \<not> denied_path p")
  case True
  then show ?thesis using fs_action_runs(1) [OF assms] by auto
next
  case False
  have "denied_path p \<Longrightarrow> r = checkDenylist p \<and> sr = s \<and> r \<noteq> None"
    using fs_action_runs(2) [OF assms] checkDenylist_None [of p] by blast
  with False show ?thesis by (intro exI [of _ "[]"]) auto
qed


text \<open>A \<^verbatim>\<open>setfacl\<close> that fails once: the first command runs twice.\<close>

definition flaky_binary :: binary where
  "flaky_binary = demo_binary\<lparr>setfacl := \<lambda>h c. if h = [] then Some (ErrorString ''exit status 1'', ''busy'') else None\<rparr>"


end
