(* ===== verification/Cli_Bundle.thy ===== *)
theory Cli_Bundle
  imports Cli_Fs
begin

text \<open>
  What \<^verbatim>\<open>audit bundle\<close> does from beginning to end when no call fails: who may export, and what the
  archive holds.
\<close>

section \<open>The archive\<close>

text \<open>
  The bytes of the archive, for the writers of the binary: the chunks of each entry and those of
  the end, entry \<open>k\<close> stamped with the clock reading \<open>n + k\<close>.
\<close>

fun archive :: "binary \<Rightarrow> (nat \<Rightarrow> gotime) \<Rightarrow> nat \<Rightarrow> tar_entry list \<Rightarrow> bundleFile list \<Rightarrow> string" where
  "archive bin clk n past [] = concat (tar_close bin past)"
| "archive bin clk n past (f # fs) =
     (let hdr = \<lparr>tname = fname f, tsize = length (fdata f), tmode = 416, tmodtime = clk n, tdata = fdata f\<rparr> in
      concat (tar_header bin past hdr) @ concat (tar_data bin past hdr) @ archive bin clk (Suc n) (past @ [hdr]) fs)"

lemma write_chunks_run:
  "faults s = [] \<Longrightarrow> write_chunks p cs (set_file p d s) = (None, set_file p (d @ concat cs) s)"
  by (induction cs arbitrary: d) (simp_all add: file_Write_ok)

lemma set_file_ticks: "(set_file p d s)\<lparr>ticks := n\<rparr> = set_file p d (s\<lparr>ticks := n\<rparr>)"
  by (simp add: set_file_def)

lemma write_tar_run:
  "faults s = [] \<Longrightarrow> write_tar bin p past fs (set_file p d s) =
     (Done (), set_file p (d @ archive bin (clock s) (ticks s) past fs) (s\<lparr>ticks := ticks s + length fs\<rparr>))"
proof (induction fs arbitrary: past d s)
  case Nil
  then show ?case by (simp add: bnd_call write_chunks_run ret_def)
next
  case (Cons f fs)
  then show ?case
    by (simp add: bnd_call time_Now_def set_file_ticks write_chunks_run Let_def)
qed

lemma print_entries_run:
  "\<forall>e\<in>set es. 16 \<le> length (FSHA256 e) \<Longrightarrow> \<exists>out. \<forall>s. print_entries es s = (Done (), s\<lparr>stdout := stdout s @ out\<rparr>)"
proof (induction es)
  case Nil
  then show ?case by (intro exI [of _ "[]"]) (simp add: ret_def)
next
  case (Cons e es)
  then obtain out where "\<forall>s. print_entries es s = (Done (), s\<lparr>stdout := stdout s @ out\<rparr>)" by auto
  then have "\<forall>s. print_entries (e # es) s = (Done (), s\<lparr>stdout := stdout s @ (''  '' @ pad_right 30 (FName e) @ ''  '' @ take 16 (FSHA256 e) @
      ellipsis @ ''  ('' @ dec (FBytes e) @ '' bytes)'' @ [newline]) @ out\<rparr>)"
    using Cons.prems by (simp add: slice_to_def)
  then show ?case by blast
qed

lemma entry_hash_length: "length (FSHA256 (file_entry f)) = 64"
  by (simp add: file_entry_def length_fmt_x length_sha256_sum)

lemma write_bundle_run:
  assumes "faults s = []" and "VerifyEvents es = None"
  shows "\<exists>out. write_bundle bin p es fs (map file_entry gs) (set_file p [] s) =
    (Done (), (set_file p (archive bin (clock s) (ticks s) [] fs) (s\<lparr>ticks := ticks s + length fs\<rparr>))\<lparr>stdout := out\<rparr>)"
proof -
  obtain out where "\<forall>s. print_entries (map file_entry gs) s = (Done (), s\<lparr>stdout := stdout s @ out\<rparr>)"
    using print_entries_run [of "map file_entry gs"] entry_hash_length by auto
  then show ?thesis
    using write_tar_run [OF assms(1), of bin p "[]" fs "[]"] assms(2)
    by (simp add: write_bundle_def bnd_def [of "write_tar bin p [] fs"] bnd_def [of "print_entries (map file_entry gs)"] ret_def)
      (rule exI, rule refl)
qed

section \<open>Collecting\<close>

definition bundle_files :: "binary \<Rightarrow> gotime \<Rightarrow> event list \<Rightarrow> string \<Rightarrow> bundleFile list \<Rightarrow> bundleFile list" where
  "bundle_files bin now events actor fs = fs @
     [\<lparr>fname = ''manifest.json'', fdata = print_tree True 0 (bundle_manifest bin now events actor (map file_entry fs)) @ [newline]\<rparr>]"

definition snapshot_entry :: "snapshot option \<Rightarrow> bundleFile list" where
  "snapshot_entry latest = (case latest of None \<Rightarrow> []
     | Some x \<Rightarrow> [\<lparr>fname = ''policy-snapshot.json'', fdata = marshal_or_nil (marshal_snapshot x) @ [newline]\<rparr>])"

text \<open>
  After the dispatch: the log is as it should be, the directory of the snapshots can be made and the
  archive opened.
\<close>

lemma collect_bundle_run:
  assumes "log_state l u es" and "lf l = auditPath u"
    and "snapshotPath u \<noteq> []" and "\<forall>q\<in>set (path_prefixes (filepath_Clean (snapshotPath u))). file_at u q = None"
    and "t = u\<lparr>dirs := path_prefixes (filepath_Clean (snapshotPath u)) @ dirs u\<rparr>"
    and "\<not> dir_exists t out" and "dir_exists t (filepath_Dir out)" and "\<not> same_path out (auditPath u)"
    and "latest = found (fst (Latest \<lparr>sdir = snapshotPath u\<rparr> t))"
  shows "\<exists>s' d. collect_bundle bin out u = (Done (), s') \<and> log_state l s' es \<and>
    file_at s' (auditPath u) = Some d \<and>
    file_at s' out = Some (archive bin (clock u) (Suc (ticks u)) []
      (bundle_files bin (clock u (ticks u)) es (caller_actor u) (\<lparr>fname = ''audit.jsonl'', fdata = d\<rparr> # snapshot_entry latest)))"
proof -
  let ?d = "concat (map event_line es)"
  have q: "quiet u" "faults u = []" "file_at u (auditPath u) = Some ?d" "\<not> dir_exists u (auditPath u)"
    using assms(1,2) by (auto simp: log_state_def quiet_def)
  have v: "VerifyEvents es = None" using assms(1) by (simp add: log_state_def honest_log_def)
  have rd: "ReadFile (auditPath u) u = (Inr es, u)" using ReadFile_log_state [OF assms(1)] assms(2) by simp
  have rb: "os_ReadFile (auditPath u) u = (Inr ?d, u)" using q by (simp add: os_ReadFile_ok)
  have st: "NewSnapshotStore (snapshotPath u) u = (Inr \<lparr>sdir = snapshotPath u\<rparr>, t)"
    using assms(3-5) q(2) by (simp add: NewSnapshotStore_def os_MkdirAll_def)
  have qt: "quiet t" using q(1) assms(5) by simp
  have la: "latest_or_nil (Inr \<lparr>sdir = snapshotPath u\<rparr>) t = (Done latest, t)" using latest_run [OF qt] assms(9) by simp
  let ?t = "t\<lparr>ticks := Suc (ticks u), stderr := stderr u @ caller_warning u\<rparr>"
  let ?fs = "\<lparr>fname = ''audit.jsonl'', fdata = ?d\<rparr> # snapshot_entry latest"
  have qt2: "quiet (t\<lparr>ticks := Suc (ticks u)\<rparr>)" using qt by simp
  have ctx: "VActorID (caller_context (t\<lparr>ticks := Suc (ticks u)\<rparr>)) = caller_actor u"
    "caller_warning (t\<lparr>ticks := Suc (ticks u)\<rparr>) = caller_warning u"
    using assms(5) by (simp_all add: caller_context_def caller_actor_def caller_warning_def getenvOr_def os_Getenv_def)
  have op: "os_OpenTrunc out ?t = (None, set_file out [] ?t)"
    using assms(6,7) qt by (simp add: os_OpenTrunc_def open_file_def quiet_def dir_exists_def)
  let ?all = "bundle_files bin (clock u (ticks u)) es (caller_actor u) ?fs"
  have ft: "faults ?t = []" using qt by (simp add: quiet_def)
  obtain o1 where w: "write_bundle bin out es ?all (map file_entry ?fs) (set_file out [] ?t) =
     (Done (), (set_file out (archive bin (clock ?t) (ticks ?t) [] ?all) (?t\<lparr>ticks := ticks ?t + length ?all\<rparr>))\<lparr>stdout := o1\<rparr>)"
    using write_bundle_run [OF ft v, of bin out ?all ?fs] by blast
  let ?s' = "(set_file out (archive bin (clock ?t) (ticks ?t) [] ?all) (?t\<lparr>ticks := ticks ?t + length ?all\<rparr>))\<lparr>stdout := o1\<rparr>"
  have tu: "clock t = clock u" "ticks t = ticks u" "stderr t = stderr u" using assms(5) by simp_all
  have "collect_bundle bin out u = defer_call (file_Close out) (write_bundle bin out es ?all (map file_entry ?fs)) (set_file out [] ?t)"
    using op tu
    by (simp add: collect_bundle_def bnd_ask bnd_call rd chain_warning_def v rb st la time_Now_def bnd_context [OF qt2] ctx
        Let_def bnd_def [of "latest_or_nil (Inr \<lparr>sdir = snapshotPath u\<rparr>)"] bundle_files_def snapshot_entry_def)
  also have "\<dots> = (Done (), ?s')" unfolding defer_call_def w using ft by (simp del: archive.simps)
  finally have run: "collect_bundle bin out u = (Done (), ?s')" .
  have "\<not> dir_exists t (auditPath u)" using assms(4,5) q(3,4) by (auto simp: dir_exists_def file_at_def)
  then have "log_state l ?s' es" "file_at ?s' (auditPath u) = Some ?d"
    using assms(1,2,8) qt q(3) by (simp_all add: log_state_def same_path_def assms(5))
  moreover have "file_at ?s' out = Some (archive bin (clock u) (Suc (ticks u)) [] ?all)" using tu by (simp del: archive.simps)
  ultimately show ?thesis using run by blast
qed

section \<open>The latest snapshot\<close>

text \<open>
  The log may grow between the opening of the store and the search for the latest snapshot; as it
  is not in the directory of the snapshots, the search finds the same one.
\<close>

lemma Base_no_slash: "filepath_Base q \<noteq> ''/'' \<Longrightarrow> CHR ''/'' \<notin> set (filepath_Base q)"
  by (auto simp: filepath_Base_def Let_def split: if_splits dest: set_takeWhileD)

lemma Ext_json_name:
  assumes "filepath_Ext n = ''.json''"
  shows "take (length n - 5) n @ ''.json'' = n" "CHR ''/'' \<notin> set n \<Longrightarrow> plain_elem n"
proof -
  let ?q = "rev (takeWhile (\<lambda>c. c \<noteq> CHR ''/'') (rev n))"
  have dot: "rev (takeWhile (\<lambda>c. c \<noteq> CHR ''.'') (rev ?q)) = ''json''" "CHR ''.'' \<in> set ?q"
    using assms by (auto simp: filepath_Ext_def Let_def split: if_splits)
  let ?x = "rev ?q"
  have "dropWhile (\<lambda>c. c \<noteq> CHR ''.'') ?x \<noteq> []" using dot(2) by (auto simp: dropWhile_eq_Nil_conv)
  then obtain rest where "dropWhile (\<lambda>c. c \<noteq> CHR ''.'') ?x = CHR ''.'' # rest"
    using hd_dropWhile [of "\<lambda>c. c \<noteq> CHR ''.''" ?x] by (cases "dropWhile (\<lambda>c. c \<noteq> CHR ''.'') ?x") auto
  moreover have "takeWhile (\<lambda>c. c \<noteq> CHR ''.'') ?x = rev ''json''" using dot(1) by (metis rev_rev_ident)
  ultimately have "?x = rev ''json'' @ CHR ''.'' # rest"
    using takeWhile_dropWhile_id [of "\<lambda>c. c \<noteq> CHR ''.''" ?x] by simp
  then have pre: "?q = rev rest @ ''.json''" by (simp add: rev_swap)
  have "n = rev (dropWhile (\<lambda>c. c \<noteq> CHR ''/'') (rev n)) @ ?q"
    by (metis rev_append rev_rev_ident takeWhile_dropWhile_id)
  then obtain r where n: "n = r @ ''.json''" using pre by (metis append_assoc)
  then show "take (length n - 5) n @ ''.json'' = n" by simp
  show "plain_elem n" if "CHR ''/'' \<notin> set n" using that n by (auto simp: plain_elem_def append_eq_Cons_conv)
qed

lemma entries_grown:
  assumes "filter (\<lambda>q. q \<noteq> filepath_Clean a) (map fst (files u)) = filter (\<lambda>q. q \<noteq> filepath_Clean a) (map fst (files t))"
    and "dirs u = dirs t" and "filepath_Clean p \<noteq> filepath_Dir (filepath_Clean a)"
  shows "entries_of u p = entries_of t p"
proof -
  have "filter (\<lambda>q. filepath_Dir q = filepath_Clean p \<and> q \<noteq> filepath_Clean p) qs =
      filter (\<lambda>q. filepath_Dir q = filepath_Clean p \<and> q \<noteq> filepath_Clean p) (filter (\<lambda>q. q \<noteq> filepath_Clean a) qs)" for qs
    using assms(3) by (induction qs) auto
  from this [of "map fst (files u)"] this [of "map fst (files t)"] assms(1)
  have "filter (\<lambda>q. filepath_Dir q = filepath_Clean p \<and> q \<noteq> filepath_Clean p) (map fst (files u)) =
      filter (\<lambda>q. filepath_Dir q = filepath_Clean p \<and> q \<noteq> filepath_Clean p) (map fst (files t))" by simp
  then show ?thesis using assms(2) by (simp only: entries_of_def Let_def)
qed

lemma Latest_grown:
  assumes "faults u = []" and "faults t = []" and "dirs u = dirs t"
    and "filter (\<lambda>q. q \<noteq> filepath_Clean a) (map fst (files u)) = filter (\<lambda>q. q \<noteq> filepath_Clean a) (map fst (files t))"
    and "\<And>q. \<not> same_path q a \<Longrightarrow> file_at u q = file_at t q" and "file_at u a \<noteq> None" and "file_at t a \<noteq> None"
    and "filepath_Clean (sdir st) \<noteq> filepath_Dir (filepath_Clean a)" and "sdir st \<noteq> []"
  shows "fst (Latest st u) = fst (Latest st t)"
proof -
  have d: "dir_exists u q = dir_exists t q" for q using assms(3) by (simp add: dir_exists_def)
  have at: "file_at u q = None \<longleftrightarrow> file_at t q = None" for q
    using assms(5) [of q] assms(6,7) by (cases "same_path q a") (auto simp: same_path_def file_at_def)
  have get: "fst (Get st k u) = fst (Get st k t)" if "plain_elem (k @ ''.json'')" for k
  proof -
    have "\<not> same_path (snapshot_file st k) a"
      unfolding snapshot_file_def using assms(8,9) that by (intro Join_apart)
    then have "file_at u (snapshot_file st k) = file_at t (snapshot_file st k)" by (rule assms(5))
    moreover have "missing u q = missing t q" for q unfolding missing_def below_file_def at d ..
    ultimately show ?thesis using assms(1,2) by (simp add: Get_def os_ReadFile_def d split: option.splits)
  qed
  note en = entries_grown [OF assms(4,3,8)]
  have rd: "os_ReadDir (sdir st) u = (fst (os_ReadDir (sdir st) t), u)" "os_ReadDir (sdir st) t = (fst (os_ReadDir (sdir st) t), t)"
    using assms(1,2) at by (simp_all add: os_ReadDir_def d en missing_def below_file_def)
  show ?thesis
  proof (cases "fst (os_ReadDir (sdir st) t)")
    case (Inl e)
    then show ?thesis using rd by (simp add: Latest_def)
  next
    case (Inr es)
    then have es: "es = entries_of t (sdir st)" using assms(2) by (auto simp: os_ReadDir_def split: if_splits)
    let ?ns = "snapshot_names_in st t"
    have "plain_elem (take (length n - 5) n @ ''.json'')" if "n \<in> set ?ns" for n
    proof -
      have e: "filepath_Ext n = ''.json''" and "\<exists>q. n = filepath_Base q" using that by (auto simp: snapshot_names_set)
      moreover have "n \<noteq> ''/''" using e by (auto simp: filepath_Ext_def Let_def split: if_splits)
      ultimately show ?thesis using Ext_json_name Base_no_slash by metis
    qed
    then have "plain_elem (take (length (last (sort ?ns)) - 5) (last (sort ?ns)) @ ''.json'')" if "?ns \<noteq> []"
      using that by (metis last_in_set set_sort set_empty)
    then have "?ns = [] \<or> fst (Get st (take (length (last (sort ?ns)) - 5) (last (sort ?ns))) u) =
        fst (Get st (take (length (last (sort ?ns)) - 5) (last (sort ?ns))) t)" using get by blast
    then show ?thesis
      using rd Inr es by (auto simp: Latest_def snapshot_names_in_def [symmetric] Let_def split: prod.splits sum.splits)
  qed
qed

section \<open>From beginning to end\<close>

lemma export_decision:
  "decision role CapExport st obj = (if role \<in> {RoleAdmin, RoleAuditor} then None else Some ''rbac.cap.export.missing'')"
proof -
  have "HasCapability role CapExport \<longleftrightarrow> role \<in> {RoleAdmin, RoleAuditor}"
    by (subst HasCapability_roles) (auto simp: HasCapability_operator HasCapability_admin HasCapability_auditor cap_defs)
  moreover have "CapabilityVerdict CapExport \<lparr>current = st, mpath = []\<rparr> \<in> {PassThrough, ForceOn}"
    by (simp add: CapabilityVerdict_def postureCapOverrides_def cap_defs state_defs)
  moreover have "''rbac.'' @ CapExport @ ''.missing'' = ''rbac.cap.export.missing''" by (simp add: cap_defs)
  ultimately show ?thesis by (auto simp: decision_def Let_def)
qed

definition bundle_meta :: "string \<Rightarrow> gomap option" where
  "bundle_meta out = Some [(''output'', AStr out)]"

lemma bundle_meta_ok:
  "valid_utf8 out \<Longrightarrow> bundle_meta out \<noteq> Some [] \<and> norm_map (bundle_meta out) \<and> json_depth (tree_of_map (bundle_meta out)) < max_nesting_depth"
  by (simp add: bundle_meta_def norm_map_def tree_of_map_def max_nesting_depth_def valid_utf8_ascii)

text \<open>The names of the files other than the log, which logging does not change.\<close>

definition log_keys :: "os \<Rightarrow> os \<Rightarrow> string list" where
  "log_keys s u = filter (\<lambda>q. q \<noteq> filepath_Clean (auditPath s)) (map fst (files u))"

lemma update_keys: "filter (\<lambda>q. q \<noteq> k) (map fst (AList.update k d xs)) = filter (\<lambda>q. q \<noteq> k) (map fst xs)"
  by (induction xs) auto

lemma Log_keys: "lf l = auditPath s \<Longrightarrow> log_keys s (snd (snd (Log e l u))) = log_keys s u"
  by (auto simp: Log_def time_Now_def Let_def file_Write_def file_Sync_def log_keys_def set_file_def update_keys
      split: option.splits prod.splits dest!: take_fault_frame)

lemma bundle_dispatch:
  assumes "session_ready s es st" and "valid_utf8 out" and "valid_utf8 (filepath_Base out)"
    and "dcn = decision (caller_role s) CapExport st (''bundle:'' @ filepath_Base out)"
  shows "\<exists>d' u fs. Dispatch (caller_context s) ''EXPORT_EVIDENCE'' (''bundle:'' @ filepath_Base out) (bundle_meta out)
      (Register ''EXPORT_EVIDENCE'' CapExport nil_handler (verb_New (resume (auditPath s) es) \<lparr>current = st, mpath = posturePath s\<rparr>))
      ((log_opened s)\<lparr>stderr := w\<rparr>) = (map_option (ErrDenied ''EXPORT_EVIDENCE'') dcn, d', u) \<and>
    list_all2 same_entry (request_trail (caller_context s) ''EXPORT_EVIDENCE'' (''bundle:'' @ filepath_Base out) (bundle_meta out) dcn None) fs \<and>
    log_state (dlog d') u (es @ fs) \<and> lf (dlog d') = auditPath s \<and>
    env u = env s \<and> clock u = clock s \<and> dirs u = dirs (log_opened s) \<and> log_keys s u = log_keys s (log_opened s) \<and>
    (\<forall>q. \<not> same_path q (auditPath s) \<longrightarrow> file_at u q = file_at (log_opened s) q)"
proof -
  let ?obj = "''bundle:'' @ filepath_Base out" and ?ctx = "caller_context s" and ?t = "(log_opened s)\<lparr>stderr := w\<rparr>"
  let ?obs = "\<lambda>u. (env u, clock u, (dirs u, log_keys s u), \<lambda>q. if same_path q (auditPath s) then None else file_at u q)"
  have utf: "valid_utf8 ?obj" "valid_utf8 ''EXPORT_EVIDENCE''" "valid_utf8 CapExport"
    using valid_utf8_append [of "''bundle:''", OF _ assms(3)] by (simp_all add: valid_utf8_ascii cap_defs)
  have l: "log_state (resume (auditPath s) es) ?t es" using session_open(2) [OF assms(1)] by simp
  have safe: "log_safe (auditPath s) (bundle_meta out) (nil_handler ?ctx ?obj (bundle_meta out))" by (rule log_safe_nil)
  have res: "fst (nil_handler ?ctx ?obj (bundle_meta out) u) = None" for u by (simp add: nil_handler_def)
  have keep: "fst (snd (nil_handler ?ctx ?obj (bundle_meta out) u)) = bundle_meta out" for u by (simp add: nil_handler_def)
  obtain d' u fs where 1: "Dispatch ?ctx ''EXPORT_EVIDENCE'' ?obj (bundle_meta out)
      (Register ''EXPORT_EVIDENCE'' CapExport nil_handler (verb_New (resume (auditPath s) es) \<lparr>current = st, mpath = posturePath s\<rparr>)) ?t =
      (answer ''EXPORT_EVIDENCE'' dcn None, d', u)"
    "list_all2 same_entry (request_trail ?ctx ''EXPORT_EVIDENCE'' ?obj (bundle_meta out) dcn None) fs"
    "log_state (dlog d') u (es @ fs)" "lf (dlog d') = auditPath s"
    and obs: "\<forall>obs g. (\<forall>e l t. lf l = auditPath s \<longrightarrow> obs (snd (snd (Log e l t))) = obs t) \<longrightarrow>
       (\<forall>t. obs (snd (snd (nil_handler ?ctx ?obj (bundle_meta out) t))) = g (obs t)) \<longrightarrow>
       obs u = (if dcn = None then g (obs ?t) else
         obs ?t :: (string \<times> string) list \<times> (nat \<Rightarrow> gotime) \<times> (string list \<times> string list) \<times> (string \<Rightarrow> string option))"
    using session_request [where h = nil_handler and ctx = ?ctx and obj = ?obj and meta = "bundle_meta out" and r = None,
        OF assms(1) utf(2,1,3) _ _ _ safe res keep refl l assms(4)] bundle_meta_ok [OF assms(2)] by blast
  have "?obs u = ?obs ?t" using obs [rule_format, of ?obs id] Log_keeps Log_other_file Log_keys by (simp add: nil_handler_def fun_eq_iff)
  then have "env u = env s" "clock u = clock s" "dirs u = dirs (log_opened s)" "log_keys s u = log_keys s (log_opened s)"
    "\<not> same_path q (auditPath s) \<Longrightarrow> file_at u q = file_at (log_opened s) q" for q
    by (auto simp: fun_eq_iff log_keys_def split: if_splits)
  moreover have "answer ''EXPORT_EVIDENCE'' dcn None = map_option (ErrDenied ''EXPORT_EVIDENCE'') dcn"
    by (simp add: answer_def split: option.splits)
  ultimately show ?thesis using 1 by auto
qed

lemma bundle_command:
  assumes "session_ready s es st" and "quiet u"
    and "Dispatch (caller_context s) ''EXPORT_EVIDENCE'' (''bundle:'' @ filepath_Base out) (bundle_meta out)
      (Register ''EXPORT_EVIDENCE'' CapExport nil_handler (verb_New (resume (auditPath s) es) \<lparr>current = st, mpath = posturePath s\<rparr>))
      ((log_opened s)\<lparr>stderr := stderr s @ caller_warning s\<rparr>) = (map_option (ErrDenied ''EXPORT_EVIDENCE'') dcn, d', u)"
  shows "main bin [''audit'', ''bundle'', out] s =
      (case dcn of None \<Rightarrow> collect_bundle bin out u | Some rc \<Rightarrow> die (''EXPORT_EVIDENCE denied: '' @ Error (ErrDenied ''EXPORT_EVIDENCE'' rc)) u)"
proof -
  let ?o = "log_opened s"
  have q: "quiet ?o" using assms(1) by (auto simp: session_ready_def)
  have ctx: "caller_context ?o = caller_context s" "caller_warning ?o = caller_warning s" "posturePath ?o = posturePath s"
    using path_cong [of ?o s] by (auto intro: caller_context_cong simp: caller_warning_def getenvOr_def os_Getenv_def)
  show ?thesis
    using session_open(1,3) [OF assms(1)] assms(3) [unfolded bundle_meta_def] assms(2)
    by (cases dcn) (simp_all add: main_command runAudit_def runAuditBundle_def bnd_ask bnd_call bnd_call_method ctx bnd_context [OF q]
        Close_quiet IsDenied_def)
qed

text \<open>The directory of the snapshots can still be made after the log has grown.\<close>

lemma store_later:
  assumes "faults (log_opened s) = []" and "NewSnapshotStore (snapshotPath s) (log_opened s) = (Inr ss, t)"
    and "\<And>q. \<not> same_path q (auditPath s) \<Longrightarrow> file_at u q = file_at (log_opened s) q" and "dirs u = dirs (log_opened s)"
  shows "\<forall>q\<in>set (path_prefixes (filepath_Clean (snapshotPath s))). file_at u q = None"
    and "dir_exists (u\<lparr>dirs := path_prefixes (filepath_Clean (snapshotPath s)) @ dirs u\<rparr>) r = dir_exists t r"
proof -
  have pre: "t = (log_opened s)\<lparr>dirs := path_prefixes (filepath_Clean (snapshotPath s)) @ dirs (log_opened s)\<rparr>"
      "\<forall>q\<in>set (path_prefixes (filepath_Clean (snapshotPath s))). file_at (log_opened s) q = None"
    using assms(1,2) by (auto simp: NewSnapshotStore_def os_MkdirAll_def split: if_splits)
  show "\<forall>q\<in>set (path_prefixes (filepath_Clean (snapshotPath s))). file_at u q = None"
  proof
    fix q assume a: "q \<in> set (path_prefixes (filepath_Clean (snapshotPath s)))"
    have "file_at (log_opened s) (auditPath s) \<noteq> None" by (simp add: log_opened_def)
    then have "\<not> same_path q (auditPath s)" using pre(2) a by (auto simp: same_path_def file_at_def)
    then show "file_at u q = None" using assms(3) pre(2) a by simp
  qed
  show "dir_exists (u\<lparr>dirs := path_prefixes (filepath_Clean (snapshotPath s)) @ dirs u\<rparr>) r = dir_exists t r"
    using assms(4) by (simp add: dir_exists_def pre(1))
qed

lemma bundle_latest:
  assumes "session_ready s es st" and "NewSnapshotStore (snapshotPath s) (log_opened s) = (Inr ss, t)"
    and "log_state l u fs" and "lf l = auditPath s"
    and "\<And>q. \<not> same_path q (auditPath s) \<Longrightarrow> file_at u q = file_at (log_opened s) q" and "dirs u = dirs (log_opened s)"
    and "log_keys s u = log_keys s (log_opened s)"
    and "filepath_Clean (snapshotPath s) \<noteq> filepath_Dir (filepath_Clean (auditPath s))"
  shows "fst (Latest ss t) = fst (Latest \<lparr>sdir = snapshotPath s\<rparr> (u\<lparr>dirs := path_prefixes (filepath_Clean (snapshotPath s)) @ dirs u\<rparr>))"
proof -
  have f: "faults (log_opened s) = []" "faults u = []" using assms(1,3) by (auto simp: session_ready_def quiet_def log_state_def)
  then have t: "t = (log_opened s)\<lparr>dirs := path_prefixes (filepath_Clean (snapshotPath s)) @ dirs (log_opened s)\<rparr>"
      "ss = \<lparr>sdir = snapshotPath s\<rparr>"
    using assms(2) by (auto simp: NewSnapshotStore_def os_MkdirAll_def split: if_splits)
  have "file_at (log_opened s) (auditPath s) \<noteq> None" by (simp add: log_opened_def)
  moreover have "file_at u (auditPath s) \<noteq> None" using assms(3,4) by (simp add: log_state_def)
  ultimately show ?thesis
    unfolding t using f assms(5-8) snapshotPath_nonempty [of s]
    by (intro Latest_grown [where a = "auditPath s"]) (simp_all add: log_keys_def)
qed



end
