(* ===== verification/Ada_Posture.thy ===== *)
theory Ada_Posture
  imports Posture Rbac
begin

text \<open>
  The Ravenscar port of the posture machine in \<^verbatim>\<open>ada/posture\<close>, which says of itself that it is a
  faithful port of the decisions of the Go machine, without its state file. Here both are models,
  and the claim is a theorem about runs of any length.
\<close>

section \<open>The package Posture\<close>

datatype Posture_State = Ada_Normal | Ada_Siege | Ada_Mercy | Ada_Incident | Ada_Game | Ada_Exited

datatype Capability =
  Cap_Posture_Set | Cap_Posture_Admin | Cap_Session_Open | Cap_Net | Cap_Exec | Cap_Domain_Start | Cap_Domain_Stop |
  Cap_SSH_Connect | Cap_SSH_Manage_Hosts | Cap_SSH_Manage_Keys | Cap_Policy_Write | Cap_Audit_Read | Cap_Export

datatype Capability_Verdict = Pass_Through | Force_Off | Force_On | Pinned_Only | Game_Domain_Only

section \<open>The package Posture.Machine\<close>

fun Allowed :: "Posture_State \<Rightarrow> Posture_State \<Rightarrow> bool" where
  "Allowed Ada_Normal q = (q \<in> {Ada_Siege, Ada_Mercy, Ada_Game, Ada_Incident, Ada_Exited})"
| "Allowed Ada_Siege q = (q \<in> {Ada_Normal, Ada_Game, Ada_Exited})"
| "Allowed Ada_Mercy q = (q \<in> {Ada_Normal, Ada_Siege, Ada_Game, Ada_Exited})"
| "Allowed Ada_Incident q = (q \<in> {Ada_Normal, Ada_Exited})"
| "Allowed Ada_Game q = (q \<in> {Ada_Normal, Ada_Exited})"
| "Allowed Ada_Exited q = False"

fun Overrides :: "Posture_State \<Rightarrow> Capability \<Rightarrow> Capability_Verdict" where
  "Overrides Ada_Siege Cap_Net = Force_Off"
| "Overrides Ada_Siege Cap_Domain_Start = Pinned_Only"
| "Overrides Ada_Mercy Cap_Exec = Pinned_Only"
| "Overrides Ada_Mercy Cap_Domain_Start = Pinned_Only"
| "Overrides Ada_Incident Cap_Net = Force_Off"
| "Overrides Ada_Incident Cap_Exec = Force_Off"
| "Overrides Ada_Incident Cap_Domain_Start = Force_Off"
| "Overrides Ada_Incident Cap_Export = Force_On"
| "Overrides Ada_Game Cap_Net = Force_Off"
| "Overrides Ada_Game Cap_Domain_Start = Game_Domain_Only"
| "Overrides Ada_Game Cap_Exec = Game_Domain_Only"
| "Overrides _ _ = Pass_Through"

text \<open>
  The procedure of the protected object, with its state last: the two \<^verbatim>\<open>out\<close> parameters and the
  state after.
\<close>

definition Guarded_Set :: "Posture_State \<Rightarrow> Posture_State \<Rightarrow> (Posture_State \<times> bool) \<times> Posture_State" where
  "Guarded_Set State_To Current_State =
     (let Old_State = Current_State in
      if Current_State = Ada_Exited then ((Old_State, False), Current_State)
      else
        let Target = (if Current_State = Ada_Game \<and> State_To = Ada_Game then Ada_Normal else State_To) in
        if Allowed Current_State Target then ((Old_State, True), Target)
        else ((Old_State, False), Current_State))"

definition ada_Transition :: "Posture_State \<Rightarrow> Posture_State \<Rightarrow> (Posture_State \<times> bool) \<times> Posture_State" where
  "ada_Transition State_To st = Guarded_Set State_To st"

definition ada_Verdict :: "Capability \<Rightarrow> Posture_State \<Rightarrow> Capability_Verdict" where
  "ada_Verdict Cap st = Overrides st Cap"

section \<open>The port as a guarded machine\<close>

definition ada_step :: "Posture_State \<Rightarrow> Posture_State \<Rightarrow> unit \<Rightarrow> bool \<times> Posture_State \<times> unit" where
  "ada_step q st w = (case ada_Transition q st of ((old, ok), st') \<Rightarrow> (ok, st', w))"

interpretation ada_machine: guarded_machine ada_step "\<lambda>st. st" Allowed
  by unfold_locales (auto simp: ada_step_def ada_Transition_def Guarded_Set_def Let_def split: if_splits)

section \<open>Names\<close>

fun state_name :: "Posture_State \<Rightarrow> string" where
  "state_name Ada_Normal = Normal"
| "state_name Ada_Siege = Siege"
| "state_name Ada_Mercy = Mercy"
| "state_name Ada_Incident = Incident"
| "state_name Ada_Game = Game"
| "state_name Ada_Exited = Exited"

fun cap_name :: "Capability \<Rightarrow> string" where
  "cap_name Cap_Posture_Set = CapPostureSet"
| "cap_name Cap_Posture_Admin = CapPostureAdmin"
| "cap_name Cap_Session_Open = CapSessionOpen"
| "cap_name Cap_Net = CapNet"
| "cap_name Cap_Exec = CapExec"
| "cap_name Cap_Domain_Start = CapDomainStart"
| "cap_name Cap_Domain_Stop = CapDomainStop"
| "cap_name Cap_SSH_Connect = CapSSHConnect"
| "cap_name Cap_SSH_Manage_Hosts = CapSSHManageHosts"
| "cap_name Cap_SSH_Manage_Keys = CapSSHManageKeys"
| "cap_name Cap_Policy_Write = CapPolicyWrite"
| "cap_name Cap_Audit_Read = CapAuditRead"
| "cap_name Cap_Export = CapExport"

fun verdict_name :: "Capability_Verdict \<Rightarrow> verdict" where
  "verdict_name Pass_Through = PassThrough"
| "verdict_name Force_Off = ForceOff"
| "verdict_name Force_On = ForceOn"
| "verdict_name Pinned_Only = PinnedOnly"
| "verdict_name Game_Domain_Only = GameDomainOnly"

lemma state_name_inject [simp]: "state_name p = state_name q \<longleftrightarrow> p = q"
  by (cases p; cases q) (simp_all add: state_defs)

lemma state_name_special: "state_name p = Exited \<longleftrightarrow> p = Ada_Exited" "state_name p = Game \<longleftrightarrow> p = Ada_Game"
  using state_name_inject [of p Ada_Exited] state_name_inject [of p Ada_Game] by (simp_all del: state_name_inject)

lemma permitted_names: "permitted (state_name p) (state_name q) \<longleftrightarrow> Allowed p q"
  by (cases p; cases q) (simp_all add: permitted_iff state_defs)

lemma verdict_names: "current m = state_name p \<Longrightarrow> CapabilityVerdict (cap_name c) m = verdict_name (ada_Verdict c p)"
  by (cases p; cases c) (simp_all add: CapabilityVerdict_def postureCapOverrides_def state_defs ada_Verdict_def cap_defs)

lemma UNIV_Capability: "UNIV = {Cap_Posture_Set, Cap_Posture_Admin, Cap_Session_Open, Cap_Net, Cap_Exec, Cap_Domain_Start,
    Cap_Domain_Stop, Cap_SSH_Connect, Cap_SSH_Manage_Hosts, Cap_SSH_Manage_Keys, Cap_Policy_Write, Cap_Audit_Read, Cap_Export}"
  using Capability.exhaust by auto

lemma range_cap_name: "range cap_name = {CapPostureSet, CapPostureAdmin, CapSessionOpen, CapNet, CapExec, CapDomainStart,
    CapDomainStop, CapSSHConnect, CapSSHManageHosts, CapSSHManageKeys, CapPolicyWrite, CapAuditRead, CapExport}"
  unfolding UNIV_Capability by simp

section \<open>The two machines\<close>

text \<open>One step of the Go machine on a state file that can be written, in the port's words.\<close>

lemma ada_simulates:
  assumes "writable (mpath m) s" and "current m = state_name p"
  shows "\<exists>s'. transition_step (state_name q, a, sid) m s =
      (fst (ada_step q p ()), m\<lparr>current := state_name (fst (snd (ada_step q p ())))\<rparr>, s') \<and> writable (mpath m) s'"
proof -
  let ?t = "if p = Ada_Game \<and> q = Ada_Game then Ada_Normal else q"
  have t: "state_name ?t = (if current m = Game \<and> state_name q = Game then Normal else state_name q)"
    using assms(2) by (simp add: state_name_special)
  have keep: "m\<lparr>current := state_name p\<rparr> = m" using assms(2) by simp
  show ?thesis
  proof (cases "p \<noteq> Ada_Exited \<and> Allowed p ?t")
    case True
    then obtain d where "Transition (state_name q) a sid m s =
        ((current m, None), m\<lparr>current := state_name ?t\<rparr>, set_file (mpath m) d (s\<lparr>ticks := Suc (ticks s)\<rparr>))"
      using Transition_writes [OF assms(1) _ t, of a sid] assms(2) by (auto simp: state_name_special permitted_names)
    then show ?thesis
      using True assms(1)
      by (auto simp: transition_step_def ada_step_def ada_Transition_def Guarded_Set_def Let_def)
  next
    case False
    then have "current m = Exited \<or> \<not> permitted (current m) (state_name ?t)"
      using assms(2) by (auto simp: state_name_special permitted_names)
    then show ?thesis
      using False assms keep
      by (auto simp: transition_step_def ada_step_def ada_Transition_def Guarded_Set_def Let_def Transition_def
          state_name_special permitted_names simp flip: t)
  qed
qed

lemma ada_runs:
  assumes "writable (mpath m) s" and "current m = state_name p"
    and "run_requests ada_step (map fst rs) p () = (oks, p', ())"
  shows "\<exists>s'. run_requests transition_step (map (\<lambda>(q, a, sid). (state_name q, a, sid)) rs) m s =
      (oks, m\<lparr>current := state_name p'\<rparr>, s')"
  using assms
proof (induction rs arbitrary: m s p oks)
  case Nil
  then have "m\<lparr>current := state_name p'\<rparr> = m" by simp
  with Nil show ?case by simp
next
  case (Cons r rs)
  obtain q a sid where r: "r = (q, a, sid)" by (cases r)
  obtain ok p1 where 1: "ada_step q p () = (ok, p1, ())" by (cases "ada_step q p ()") auto
  obtain oks' where 2: "run_requests ada_step (map fst rs) p1 () = (oks', p', ())" "oks = ok # oks'"
    using Cons.prems(3) 1 by (auto simp: r split: prod.splits)
  obtain s1 where 3: "transition_step (state_name q, a, sid) m s = (ok, m\<lparr>current := state_name p1\<rparr>, s1)"
      "writable (mpath m) s1"
    using ada_simulates [OF Cons.prems(1,2), of q a sid] 1 by auto
  obtain s2 where "run_requests transition_step (map (\<lambda>(q, a, sid). (state_name q, a, sid)) rs)
      (m\<lparr>current := state_name p1\<rparr>) s1 = (oks', m\<lparr>current := state_name p'\<rparr>, s2)"
    using Cons.IH [of "m\<lparr>current := state_name p1\<rparr>" s1 p1 oks'] 3(2) 2(1) by auto
  with 3 2(2) show ?case by (simp add: r)
qed

text \<open>
  C26. The Ada port agrees with the Go machine. Started in the same posture, with a state file that
  can be written, the two answer every sequence of requests alike, request by request, and end in
  the same posture; in it they give the same verdict on every capability that the port knows. The
  port does not know all of them: the two capabilities on files are missing from its list.
\<close>

theorem ada_port_agrees:
  assumes "writable (mpath m) s" and "current m = state_name p"
  shows "\<exists>oks p' s'. run_requests ada_step (map fst rs) p () = (oks, p', ()) \<and>
    run_requests transition_step (map (\<lambda>(q, a, sid). (state_name q, a, sid)) rs) m s =
      (oks, m\<lparr>current := state_name p'\<rparr>, s') \<and>
    (\<forall>c. CapabilityVerdict (cap_name c) (m\<lparr>current := state_name p'\<rparr>) = verdict_name (ada_Verdict c p')) \<and>
    {c. HasCapability RoleAdmin c} = insert CapFsGrant (insert CapFsRevoke (range cap_name))"
proof -
  obtain oks p' where r: "run_requests ada_step (map fst rs) p () = (oks, p', ())"
    by (cases "run_requests ada_step (map fst rs) p ()") auto
  have "{c. HasCapability RoleAdmin c} = insert CapFsGrant (insert CapFsRevoke (range cap_name))"
    by (auto simp: HasCapability_admin range_cap_name)
  then show ?thesis using r ada_runs [OF assms r] verdict_names [of "m\<lparr>current := state_name p'\<rparr>" p'] by auto
qed

theorem ada_port_agrees_witness:
  "\<exists>s'. run_requests ada_step [Ada_Game, Ada_Siege, Ada_Game] Ada_Normal () = ([True, False, True], Ada_Normal, ()) \<and>
     run_requests transition_step [(Game, ''a'', ''s''), (Siege, ''a'', ''s''), (Game, ''a'', ''s'')] (demo_machine Normal) fresh_os =
       ([True, False, True], demo_machine Normal, s')"
proof -
  have w: "writable (mpath (demo_machine Normal)) fresh_os" "current (demo_machine Normal) = state_name Ada_Normal"
    using writable_demo by (simp_all add: demo_machine_def)
  have r: "run_requests ada_step [Ada_Game, Ada_Siege, Ada_Game] Ada_Normal () = ([True, False, True], Ada_Normal, ())"
    by (simp add: ada_step_def ada_Transition_def Guarded_Set_def)
  have "demo_machine Normal\<lparr>current := Normal\<rparr> = demo_machine Normal" by (simp add: demo_machine_def)
  then show ?thesis
    using ada_port_agrees [OF w, of "[(Ada_Game, ''a'', ''s''), (Ada_Siege, ''a'', ''s''), (Ada_Game, ''a'', ''s'')]"] r by simp
qed

end
