(* ===== verification/Go_Sha256_Vector.thy ===== *)
theory Go_Sha256_Vector
  imports Go_Sha256
begin

text \<open>A published value that the model of SHA-256 reproduces, computed by the kernel.\<close>

lemma sha256_sum_abc:
  "sha256_sum ''abc'' =
    [0xba, 0x78, 0x16, 0xbf, 0x8f, 0x01, 0xcf, 0xea, 0x41, 0x41, 0x40, 0xde, 0x5d, 0xae, 0x22, 0x23,
     0xb0, 0x03, 0x61, 0xa3, 0x96, 0x17, 0x7a, 0x9c, 0xb4, 0x10, 0xff, 0x61, 0xf2, 0x00, 0x15, 0xad]"
  by code_simp

definition small_primes :: "int list" where
  "small_primes =
    [2, 3, 5, 7, 11, 13, 17, 19, 23, 29, 31, 37, 41, 43, 47, 53,
     59, 61, 67, 71, 73, 79, 83, 89, 97, 101, 103, 107, 109, 113, 127, 131,
     137, 139, 149, 151, 157, 163, 167, 173, 179, 181, 191, 193, 197, 199, 211, 223,
     227, 229, 233, 239, 241, 251, 257, 263, 269, 271, 277, 281, 283, 293, 307, 311]"

definition root_frac :: "nat \<Rightarrow> int \<Rightarrow> u32 \<Rightarrow> bool" where
  "root_frac n p k \<longleftrightarrow>
     (\<exists>c\<in>set [1 .. 6]. (c * 2 ^ 32 + uint k) ^ n \<le> p * 2 ^ (32 * n) \<and> p * 2 ^ (32 * n) < (c * 2 ^ 32 + uint k + 1) ^ n)"

lemma sha_k_roots: "list_all2 (root_frac 3) small_primes sha_k"
  by code_simp

lemma sha_init_roots:
  "case sha_init of (a, b, c, d, e, f, g, h) \<Rightarrow>
     list_all2 (root_frac 2) (take 8 small_primes) [a, b, c, d, e, f, g, h]"
  by code_simp

end
