(* ===== verification/Spec2Isabelle.thy ===== *)
theory Spec2Isabelle
  imports Audit_Faults Cli_Safety Cli_Exit Cli_Results Cli_Log_Results Cli_Capture Cli_Bundle Ada_Posture Go_Sha256_Vector
begin

text \<open>
  EmilyOS policy kernel: a verification library.

  \<^bold>\<open>The program.\<close> EmilyOS decides who may do what on a machine and keeps a record of it. A request is a
  verb on an object by an actor in a role. The verb dispatcher (\<^verbatim>\<open>internal/verb\<close>) asks the role table
  (\<^verbatim>\<open>internal/policy/rbac.go\<close>) whether the role has the capability that the verb needs, asks the posture
  machine (\<^verbatim>\<open>internal/posture\<close>) whether the posture of the system overrides it, and writes every
  decision to the audit log (\<^verbatim>\<open>internal/audit\<close>), an append-only file of JSON lines linked by SHA-256.
  Policy snapshots (\<^verbatim>\<open>internal/policy/snapshot.go\<close>) record the policy in hashed files. Two verbs act on
  the file system: \<^verbatim>\<open>internal/fsacl\<close> runs \<^verbatim>\<open>setfacl\<close> behind a denylist, \<^verbatim>\<open>internal/fsaclmod\<close> calls it through a
  compiled mod. The binary (\<^verbatim>\<open>cmd/emilyos/main.go\<close>) is a command line over all of these: each run is one
  process that reads the environment, opens what it needs, acts and ends with an exit code. The
  posture machine has a port to Ada (\<^verbatim>\<open>ada/posture\<close>) that is not linked into the binary.

  \<^bold>\<open>The world.\<close> Every operation is a function on the state \<open>os\<close> of the operating system (theory
  \<open>Go_OS\<close>): files and directories with their contents, the clock and how often it was read, the
  environment, the two output streams, the programs that were run, and a list of faults. Each
  call of the operating system takes the next fault from the list; a fault makes it fail, and a
  failed write may have kept any part of the data. Theorems that do not mention \<open>quiet\<close> hold for
  every list of faults. A method that changes its receiver returns it; Go's pairs of a value and an
  error are sums or options with the error type \<open>go_error\<close>, whose texts are those of the code.
  Locks make the methods atomic, so each is one step; processes that interleave are explicit
  sequences of steps.

  \<^bold>\<open>Theories of the language and its library.\<close>
  \<^item> \<open>Go_Base\<close> (the prelude): bytes, 64-bit integers, decimal and hexadecimal printing, errors, maps.
  \<^item> \<open>Go_Utf8\<close>, \<open>Go_Json\<close>, \<open>Go_Struct\<close>: UTF-8, string quoting, printing and parsing of JSON, decoding into
    structs. The main facts are the round trips (\<open>parse_print\<close>, \<open>json_Unmarshal_print\<close>).
  \<^item> \<open>Go_Time\<close>, \<open>Go_Path\<close>, \<open>Go_OS\<close>, \<open>Go_Flag\<close>: the layouts of times, \<^verbatim>\<open>path/filepath\<close>, files and the clock, \<^verbatim>\<open>flag\<close>
    and \<^verbatim>\<open>strconv\<close>.
  \<^item> \<open>Go_Sha256\<close>, \<open>Sha256_Hex\<close>, \<open>Go_Sha256_Vector\<close>: the digest on 32-bit words, and a published test vector
    computed by the kernel. No theorem assumes that the digest is free of collisions: the theorems on
    tampering end in "or these two texts are a collision".

  \<^bold>\<open>Interfaces.\<close> \<open>Hash_Chain\<close> (\<open>chained_log\<close>), \<open>Journal\<close> (\<open>record_stream\<close>, \<open>journal\<close>, \<open>audited\<close>), \<open>Guarded_Machine\<close>,
  \<open>Keyed_Store\<close>, the locales \<open>acl_operation\<close> and \<open>mod_operation\<close> of \<open>Fsacl\<close> and \<open>command_frame\<close> of \<open>Cli_Frame\<close>
  state what one part promises another; each is interpreted on the definitions of the model:
  \<open>audit_chain\<close>, \<open>lines\<close>, \<open>audit_journal\<close>, \<open>dispatch_audit\<close>, \<open>posture_machine\<close>, \<open>ada_machine\<close>, \<open>snapshots\<close>,
  \<open>grant\<close>, \<open>revoke\<close>, and four frames of the command line.

  \<^bold>\<open>Components and what is proved of them.\<close>
  \<^item> \<open>Audit_Log\<close> (\<^verbatim>\<open>internal/audit/log.go\<close>): \<open>Open\<close>, \<open>Log\<close>, \<open>Allow\<close>, \<open>Deny\<close>, \<open>Close\<close>, \<open>ReadFile\<close>, \<open>VerifyChain\<close>,
    \<open>VerifyEvents\<close>, \<open>computeHash\<close> as \<open>canonical\<close> followed by \<open>sha256_hex\<close>. A session of logging leaves a file
    that reads back and verifies; reading ends on every input. \<open>Audit_Tamper\<close>: what verification detects,
    up to collisions, and what it cannot see. \<open>Audit_Faults\<close>: what failing calls, text that is not UTF-8
    and a second process do to the log.
  \<^item> \<open>Rbac\<close> (\<^verbatim>\<open>internal/policy/rbac.go\<close>): the table and its four functions; separation of duties.
  \<^item> \<open>Posture\<close> (\<^verbatim>\<open>internal/posture/machine.go\<close>): tables, state file, \<open>Transition\<close>, \<open>CapabilityVerdict\<close>. Refinement of
    the table in \<^verbatim>\<open>docs/POSTURE.md\<close> (the relation \<open>doc_step\<close>), safety of all runs, persistence across
    processes, reachability of all postures. \<open>Ada_Posture\<close>: the port agrees with it on all runs.
  \<^item> \<open>Verb\<close> (\<^verbatim>\<open>internal/verb/dispatch.go\<close>): \<open>Dispatch\<close> with arbitrary handlers. No action without permission and
    announcement, complete audit trails, the force of the postures.
  \<^item> \<open>Snapshot\<close> (\<^verbatim>\<open>internal/policy/snapshot.go\<close>): write and read back, the latest snapshot.
  \<^item> \<open>Fsacl\<close> (\<^verbatim>\<open>internal/fsacl\<close>, \<^verbatim>\<open>internal/fsaclmod\<close>): the denylist's regular expressions, \<open>Grant\<close>, \<open>Revoke\<close>,
    the mod and its C strings; exactly which commands are run.
  \<^item> \<open>Cli_Base\<close>, \<open>Cli_Verb\<close>, \<open>Cli_Audit\<close>, \<open>Cli_Snapshot\<close>, \<open>Cli_Main\<close> (\<^verbatim>\<open>cmd/emilyos/main.go\<close>): every command from the
    parsing of the flags to the exit code, in a state monad whose outcome is a value, an exit or a
    panic; a deferred call runs on return and panic, not on exit. \<open>Cli_Frame\<close> and \<open>Cli_Safety\<close>: for all
    arguments and faults the log only grows, the posture file and the running of programs are the
    administrator's, looking changes nothing. \<open>Cli_Exit\<close>: exit codes and panics. \<open>Cli_Results\<close>,
    \<open>Cli_Log_Results\<close>, \<open>Cli_Capture\<close>, \<open>Cli_Fs\<close>, \<open>Cli_Bundle\<close>: what \<^verbatim>\<open>verb dispatch\<close>, \<^verbatim>\<open>posture set\<close>, \<^verbatim>\<open>snapshot rollback\<close>,
    \<^verbatim>\<open>audit verify\<close>, \<^verbatim>\<open>audit tail\<close>, \<^verbatim>\<open>audit export\<close>, \<^verbatim>\<open>audit bundle\<close>, \<^verbatim>\<open>snapshot capture\<close>, \<^verbatim>\<open>fs grant\<close> and \<^verbatim>\<open>fs revoke\<close> do
    from beginning to end.

  \<^bold>\<open>Bounds and fuel.\<close> All functions are total. Only the JSON parser spends fuel, two units for each byte
  and two more; \<open>parse_fuel_enough\<close> shows that this is enough, so a failure is one of syntax. The
  limit of 10000 on the nesting of JSON is Go's own. Sequence numbers and counts are 64-bit words
  where the code computes with them.

  \<^bold>\<open>Parameters.\<close> Code outside the repository that has no fixed answer is a field of the record \<open>binary\<close>:
  the strings that the linker sets, the answer of \<^verbatim>\<open>setfacl\<close> to a command, the order in which Go ranges
  over a map, the bytes that the \<^verbatim>\<open>tar\<close> and \<^verbatim>\<open>gzip\<close> writers pass on. Theorems hold for all of them; only
  \<open>capture_records_policy\<close> assumes that ranging over a map visits each key once.

  \<^bold>\<open>Not modelled.\<close> The self-test program of the Ada port and the Go tests; the PARENA runtime header,
  which the generated mod includes but does not call; the Makefile, packaging, images and documents.
  Symbolic links and permissions of files are not part of \<open>os\<close>: two paths name one file when they are
  equal after \<^verbatim>\<open>filepath.Clean\<close>, and a call that the system refuses is a fault. The quoting of \<^verbatim>\<open>%q\<close> in
  messages is that of text whose runes above ASCII are all printable.

  \<^bold>\<open>Open.\<close> An end-to-end theorem for \<^verbatim>\<open>audit history\<close>, of which the frame and the exit codes are proved.
\<close>

end
